(* ===== verification/Prelude.thy ===== *)
theory Prelude
  imports Main "HOL-Library.Word" "HOL-Library.Multiset"
begin

text \<open>
  The prelude of the ShadowStat development: the vocabulary that every component shares.
  It fixes the reading of Go's machine integers (\<open>int64\<close>, two's complement wrap-around on
  \<^typ>\<open>int\<close>), of \<open>time.Time\<close> and \<open>time.Duration\<close> (integer nanoseconds), and
  holds the lemma collections and the generic list lemmas the component theories use.
\<close>

section \<open>Lemma collections\<close>

named_theorems stmt_defs "the definitions of the SQL statements of package store"
named_theorems wf_intros "introduction rules for the schema invariant"
named_theorems go_time "reading of time.Time and time.Duration"

type_synonym byte = "8 word"

section \<open>Machine integers: Go's int64\<close>

definition int64 :: "int \<Rightarrow> int" where
  "int64 x = (x + 2 ^ 63) mod 2 ^ 64 - 2 ^ 63"

lemma int64_id: "- (2 ^ 63) \<le> x \<Longrightarrow> x < 2 ^ 63 \<Longrightarrow> int64 x = x"
  by (simp add: int64_def)

lemma int64_lower: "- (2 ^ 63) \<le> int64 x"
  by (simp add: int64_def)

lemma int64_upper: "int64 x < 2 ^ 63"
proof -
  have "(x + 2 ^ 63) mod 2 ^ 64 < (2 ^ 64 :: int)"
    by (rule pos_mod_bound) simp
  then show ?thesis by (simp add: int64_def)
qed

lemma int64_add_left [simp]: "int64 (int64 a + b) = int64 (a + b)"
proof -
  have "(int64 a + b + 2 ^ 63) mod 2 ^ 64 = ((a + 2 ^ 63) mod 2 ^ 64 + b) mod (2 ^ 64 :: int)"
    by (simp add: int64_def algebra_simps)
  also have "\<dots> = (a + b + 2 ^ 63) mod 2 ^ 64"
    by (simp add: mod_simps algebra_simps)
  finally show ?thesis by (simp add: int64_def)
qed

lemma int64_idem [simp]: "int64 (int64 a) = int64 a"
  using int64_add_left [of a 0] by simp

section \<open>time.Time and time.Duration\<close>

text \<open>
  A \<open>time.Time\<close> is the number of nanoseconds since the Unix epoch; Go's zero time is
  January 1, year 1, which is 719162 days before the epoch. A \<open>time.Duration\<close> is a
  number of nanoseconds. \<open>Unix()\<close> is floor division by $10^9$, since Go keeps the
  nanosecond part non-negative. \<open>Truncate\<close> rounds down to a multiple of the duration
  since the zero time.
\<close>

type_synonym gotime = int
type_synonym duration = int

definition zeroTime :: gotime where
  "zeroTime = - (719162 * 86400) * 1000000000"

definition IsZero :: "gotime \<Rightarrow> bool" where
  "IsZero t \<longleftrightarrow> t = zeroTime"

definition Unix :: "gotime \<Rightarrow> int" where
  "Unix t = t div 1000000000"

definition Second :: duration where
  "Second = 1000000000"

definition Minute :: duration where
  "Minute = 60 * Second"

definition Hour :: duration where
  "Hour = 60 * Minute"

definition DurSeconds :: "duration \<Rightarrow> int" where
  "DurSeconds d = d div 1000000000"

definition Truncate :: "gotime \<Rightarrow> duration \<Rightarrow> gotime" where
  "Truncate t d = (if d \<le> 0 then t else t - (t - zeroTime) mod d)"

lemmas duration_defs [go_time] = Second_def Minute_def Hour_def DurSeconds_def

text \<open>
  For a whole number of seconds that divides a day, truncation since the zero time and
  truncation since the epoch agree, and the Unix time of the result is the largest multiple
  of the width not above the Unix time of the argument.
\<close>

lemma Truncate_epoch:
  assumes "0 < d" and "d dvd 86400 * 1000000000"
  shows "Truncate t d = t - t mod d"
proof -
  have "d dvd 719162 * (86400 * 1000000000)"
    using assms(2) by (rule dvd_mult)
  then have "(t + 719162 * (86400 * 1000000000)) mod d = t mod d"
    by (metis dvd_imp_mod_0 mod_add_right_eq add.right_neutral)
  then show ?thesis
    using assms(1) by (simp add: Truncate_def zeroTime_def)
qed

lemma Unix_Truncate:
  assumes "0 < w" and "w dvd 86400"
  shows "Unix (Truncate t (w * 1000000000)) = Unix t div w * w"
proof -
  have "w * 1000000000 dvd 86400 * (1000000000 :: int)"
    using assms(2) by (rule mult_dvd_mono) simp
  then have *: "Truncate t (w * 1000000000) = t - t mod (w * 1000000000)"
    using assms(1) by (simp add: Truncate_epoch)
  have "t - t mod (w * 1000000000) = t div (w * 1000000000) * (w * 1000000000)"
    by (simp add: minus_mod_eq_div_mult)
  also have "\<dots> = (t div (w * 1000000000) * w) * 1000000000"
    by simp
  finally have "Unix (Truncate t (w * 1000000000)) = t div (w * 1000000000) * w"
    using * by (simp add: Unix_def)
  moreover have "t div (w * 1000000000) = t div 1000000000 div w"
    using assms(1) by (metis mult.commute zdiv_zmult2_eq less_imp_le)
  ultimately show ?thesis by (simp add: Unix_def)
qed

section \<open>Division\<close>

lemma mult_le_iff_le_div:
  fixes a w ts :: int
  assumes "0 < w"
  shows "a * w \<le> ts \<longleftrightarrow> a \<le> ts div w"
proof
  assume "a * w \<le> ts"
  then have "(a * w) div w \<le> ts div w" using assms by (intro zdiv_mono1)
  then show "a \<le> ts div w" using assms by simp
next
  assume "a \<le> ts div w"
  then have "a * w \<le> ts div w * w" using assms by (intro mult_right_mono) auto
  also have "\<dots> \<le> ts" using assms by (metis div_mod_decomp_int pos_mod_sign le_add_same_cancel1)
  finally show "a * w \<le> ts" .
qed

section \<open>Lists\<close>

lemma find_None_append [simp]:
  "find P xs = None \<Longrightarrow> find P (xs @ ys) = find P ys"
  by (induction xs) (auto split: if_splits)

lemma find_Some_append [simp]:
  "find P xs = Some x \<Longrightarrow> find P (xs @ ys) = Some x"
  by (induction xs) (auto split: if_splits)

lemma find_SomeD: "find P xs = Some x \<Longrightarrow> P x \<and> x \<in> set xs"
  by (induction xs) (auto split: if_splits)

lemma find_filter_conv: "find P xs = (case filter P xs of [] \<Rightarrow> None | x # _ \<Rightarrow> Some x)"
  by (induction xs) auto

lemma fst_eqD: "fst p = a \<Longrightarrow> p = (a, snd p)"
  by (cases p) simp

lemma image_comp_id: "(\<And>x. g (f x) = g x) \<Longrightarrow> g ` f ` X = g ` X"
  by (simp add: image_image)

lemma map_comp_id: "(\<And>x. g (f x) = g x) \<Longrightarrow> map (g \<circ> f) xs = map g xs"
  by simp

lemma sum_list_filter_split:
  fixes f :: "'a \<Rightarrow> int"
  shows "sum_list (map f xs) = sum_list (map f (filter P xs)) + sum_list (map f (filter (\<lambda>x. \<not> P x) xs))"
  by (induction xs) auto

lemma sum_list_map_zero: "(\<And>x. x \<in> set xs \<Longrightarrow> f x = 0) \<Longrightarrow> sum_list (map f xs) = (0 :: 'b :: monoid_add)"
  by (induction xs) auto

lemma sum_list_map_mset:
  fixes f :: "'a \<Rightarrow> int"
  shows "mset xs = mset ys \<Longrightarrow> sum_list (map f xs) = sum_list (map f ys)"
  by (metis mset_map sum_mset_sum_list)

end
