(* ===== verification/Go_Strings.thy ===== *)
theory Go_Strings
  imports Prelude
begin

text \<open>
  What the program uses of Go's \<open>strings\<close>, \<open>strconv\<close> and \<open>fmt\<close> packages.
  A Go string is a byte sequence, here a \<^typ>\<open>string\<close> (a list of 8-bit characters).
  White space and letter case follow the ASCII tables; the program applies these functions to
  numbers, separators, host addresses and country codes. Functions that return an error
  in Go return \<^typ>\<open>'a option\<close> here, with \<^const>\<open>None\<close> for any error.
\<close>

section \<open>Cutting strings\<close>

fun split_by :: "(char \<Rightarrow> bool) \<Rightarrow> string \<Rightarrow> string list" where
  "split_by f [] = [[]]"
| "split_by f (x # xs) =
     (if f x then [] # split_by f xs
      else (case split_by f xs of [] \<Rightarrow> [[x]] | p # ps \<Rightarrow> (x # p) # ps))"

abbreviation split_on :: "char \<Rightarrow> string \<Rightarrow> string list" where
  "split_on c \<equiv> split_by (\<lambda>x. x = c)"

fun join_with :: "char \<Rightarrow> string list \<Rightarrow> string" where
  "join_with c [] = []"
| "join_with c [p] = p"
| "join_with c (p # q # ps) = p @ c # join_with c (q # ps)"

lemma split_by_nonempty [simp]: "split_by f s \<noteq> []"
  by (induction s) (auto split: list.splits)

lemma split_on_no_sep: "c \<notin> set p \<Longrightarrow> split_on c p = [p]"
  by (induction p) auto

lemma split_on_append_sep:
  "c \<notin> set p \<Longrightarrow> split_on c (p @ c # s) = p # split_on c s"
  by (induction p) (auto split: list.splits)

lemma split_on_join:
  "ps \<noteq> [] \<Longrightarrow> list_all (\<lambda>p. c \<notin> set p) ps \<Longrightarrow> split_on c (join_with c ps) = ps"
  by (induction c ps rule: join_with.induct) (auto simp: split_on_no_sep split_on_append_sep)

lemma join_split_on: "join_with c (split_on c s) = s"
proof (induction s)
  case Nil
  then show ?case by simp
next
  case (Cons x xs)
  obtain p ps where "split_on c xs = p # ps"
    by (cases "split_on c xs") auto
  with Cons show ?case by (cases ps) auto
qed

definition isSpace :: "char \<Rightarrow> bool" where
  "isSpace c \<longleftrightarrow> c \<in> {CHR '' '', CHR 0x09, CHR 0x0A, CHR 0x0B, CHR 0x0C, CHR 0x0D}"

definition TrimSpace :: "string \<Rightarrow> string" where
  "TrimSpace s = rev (dropWhile isSpace (rev (dropWhile isSpace s)))"

definition TrimSuffix :: "string \<Rightarrow> string \<Rightarrow> string" where
  "TrimSuffix s suf =
     (if length suf \<le> length s \<and> drop (length s - length suf) s = suf
      then take (length s - length suf) s else s)"

definition HasPrefix :: "string \<Rightarrow> string \<Rightarrow> bool" where
  "HasPrefix s p \<longleftrightarrow> take (length p) s = p"

definition FieldsFunc :: "(char \<Rightarrow> bool) \<Rightarrow> string \<Rightarrow> string list" where
  "FieldsFunc f s = filter (\<lambda>p. p \<noteq> []) (split_by f s)"

definition upper_char :: "char \<Rightarrow> char" where
  "upper_char c = (if 97 \<le> (of_char c :: nat) \<and> (of_char c :: nat) \<le> 122
                   then char_of (of_char c - 32 :: nat) else c)"

definition ToUpper :: "string \<Rightarrow> string" where
  "ToUpper s = map upper_char s"

lemma TrimSpace_no_space: "list_all (\<lambda>c. \<not> isSpace c) s \<Longrightarrow> TrimSpace s = s"
proof -
  assume a: "list_all (\<lambda>c. \<not> isSpace c) s"
  have "dropWhile isSpace s = s"
    using a by (cases s) auto
  moreover have "dropWhile isSpace (rev s) = rev s"
    using a by (cases "rev s") (auto simp: list_all_iff rev_eq_Cons_iff)
  ultimately show ?thesis by (simp add: TrimSpace_def)
qed

lemma length_ToUpper [simp]: "length (ToUpper s) = length s"
  by (simp add: ToUpper_def)

section \<open>Decimal numbers\<close>

definition digit_char :: "nat \<Rightarrow> char" where
  "digit_char d = char_of (48 + d)"

definition isDigit :: "char \<Rightarrow> bool" where
  "isDigit c \<longleftrightarrow> 48 \<le> (of_char c :: nat) \<and> (of_char c :: nat) \<le> 57"

definition digit_val :: "char \<Rightarrow> nat" where
  "digit_val c = of_char c - 48"

fun nat_str :: "nat \<Rightarrow> string" where
  "nat_str n = (if n < 10 then [digit_char n] else nat_str (n div 10) @ [digit_char (n mod 10)])"

declare nat_str.simps [simp del]

definition Itoa :: "int \<Rightarrow> string" where
  "Itoa n = (if n < 0 then CHR ''-'' # nat_str (nat (- n)) else nat_str (nat n))"

fun digits_val :: "nat \<Rightarrow> string \<Rightarrow> nat option" where
  "digits_val acc [] = Some acc"
| "digits_val acc (c # cs) = (if isDigit c then digits_val (acc * 10 + digit_val c) cs else None)"

definition ParseUint :: "nat \<Rightarrow> string \<Rightarrow> nat option" where
  "ParseUint bits s =
     (if s = [] then None
      else (case digits_val 0 s of
              None \<Rightarrow> None
            | Some n \<Rightarrow> if n < 2 ^ bits then Some n else None))"

definition ParseInt64 :: "string \<Rightarrow> int option" where
  "ParseInt64 s =
     (case s of
        [] \<Rightarrow> None
      | c # cs \<Rightarrow>
          (let neg = (c = CHR ''-''); rest = (if c = CHR ''+'' \<or> c = CHR ''-'' then cs else s)
           in case ParseUint 64 rest of
                None \<Rightarrow> None
              | Some un \<Rightarrow>
                  if \<not> neg \<and> 2 ^ 63 \<le> un then None
                  else if neg \<and> 2 ^ 63 < un then None
                  else Some (if neg then - int un else int un)))"

abbreviation Atoi :: "string \<Rightarrow> int option" where
  "Atoi \<equiv> ParseInt64"

lemma isDigit_digit_char [simp]: "d < 10 \<Longrightarrow> isDigit (digit_char d)"
  by (simp add: isDigit_def digit_char_def)

lemma digit_val_digit_char [simp]: "d < 10 \<Longrightarrow> digit_val (digit_char d) = d"
  by (simp add: digit_val_def digit_char_def)

lemma digits_val_append:
  "digits_val acc (xs @ ys) =
     (case digits_val acc xs of None \<Rightarrow> None | Some a \<Rightarrow> digits_val a ys)"
  by (induction acc xs rule: digits_val.induct) auto

lemma digits_val_nat_str [simp]: "digits_val 0 (nat_str n) = Some n"
proof (induction n rule: nat_str.induct)
  case (1 n)
  show ?case
  proof (cases "n < 10")
    case True
    then show ?thesis by (simp add: nat_str.simps [of n])
  next
    case False
    then show ?thesis
      using "1" by (simp add: nat_str.simps [of n] digits_val_append)
  qed
qed

lemma nat_str_nonempty [simp]: "nat_str n \<noteq> []"
  by (simp add: nat_str.simps [of n])

lemma nat_str_digits: "list_all isDigit (nat_str n)"
proof (induction n rule: nat_str.induct)
  case (1 n)
  then show ?case by (cases "n < 10") (auto simp: nat_str.simps [of n])
qed

lemma nat_str_hd: "isDigit (hd (nat_str n))"
  using nat_str_digits [of n] by (cases "nat_str n") auto

lemma isDigit_not_sep:
  "isDigit c \<Longrightarrow> c \<noteq> CHR ''-'' \<and> c \<noteq> CHR ''+'' \<and> c \<noteq> CHR '','' \<and> c \<noteq> CHR ''.'' \<and> c \<noteq> CHR '':''
     \<and> c \<noteq> CHR ''$'' \<and> c \<noteq> CHR ''='' \<and> \<not> isSpace c"
  by (auto simp: isDigit_def isSpace_def)

lemma nat_str_no_sep:
  assumes "\<not> isDigit c"
  shows "c \<notin> set (nat_str n)"
  using assms nat_str_digits [of n] by (auto simp: list_all_iff)

lemma ParseUint_nat_str [simp]: "n < 2 ^ bits \<Longrightarrow> ParseUint bits (nat_str n) = Some n"
  by (simp add: ParseUint_def)

lemma ParseInt64_Itoa:
  assumes "- (2 ^ 63) \<le> n" and "n < 2 ^ 63"
  shows "ParseInt64 (Itoa n) = Some n"
proof (cases "n < 0")
  case True
  then have b: "nat (- n) \<le> 2 ^ 63"
    using assms(1) by (simp add: nat_le_iff)
  then have "nat (- n) < 2 ^ 64" by simp
  with True b show ?thesis
    by (simp add: ParseInt64_def Itoa_def)
next
  case False
  then have b: "nat n < 2 ^ 63"
    using assms(2) by (simp add: nat_less_iff)
  then have u: "ParseUint 64 (nat_str (nat n)) = Some (nat n)" by simp
  obtain c cs where s: "nat_str (nat n) = c # cs"
    by (cases "nat_str (nat n)") auto
  then have "isDigit c"
    using nat_str_hd [of "nat n"] by simp
  then have "c \<noteq> CHR ''-''" and "c \<noteq> CHR ''+''"
    by (simp_all add: isDigit_not_sep)
  with False b u s show ?thesis
    by (simp add: ParseInt64_def Itoa_def)
qed

lemma ParseInt64_range:
  assumes "ParseInt64 s = Some n"
  shows "- (2 ^ 63) \<le> n \<and> n < 2 ^ 63"
proof -
  have *: "\<not> 2 ^ 63 \<le> (u :: nat) \<Longrightarrow> int u < 2 ^ 63" "\<not> 2 ^ 63 < (u :: nat) \<Longrightarrow> - (2 ^ 63) \<le> - int u"
    "- int u < 2 ^ 63" "- (2 ^ 63) \<le> int u" for u
    by simp_all
  show ?thesis
    using assms
    by (auto simp: ParseInt64_def Let_def intro: * split: list.splits option.splits if_splits simp del: power_numeral)
qed

lemma Itoa_digits: "0 \<le> n \<Longrightarrow> list_all isDigit (Itoa n)"
  by (simp add: Itoa_def nat_str_digits)

lemma nat_str_inj: "nat_str a = nat_str b \<Longrightarrow> a = b"
  by (metis digits_val_nat_str option.inject)

lemma Itoa_inj: "0 \<le> a \<Longrightarrow> 0 \<le> b \<Longrightarrow> Itoa a = Itoa b \<Longrightarrow> a = b"
  by (auto simp: Itoa_def dest: nat_str_inj)

end
