(* ===== verification/Store_Core.thy ===== *)
theory Store_Core
  imports Go_Strings "HOL-Library.AList"
begin

text \<open>
  The database of package \<open>store\<close>: the tables of \<open>schema.sql\<close> as lists of rows, the
  handle with its schedule of driver failures, single statements and transactions, and the
  schema invariant (primary keys, unique columns, foreign keys).

  A table is a list of rows in insertion order. A keyed table whose statements are all
  \<^verbatim>\<open>INSERT ... ON CONFLICT DO UPDATE\<close> on its primary key is an association list, and the locale
  \<open>keyed_table\<close> is its contract. Integer columns are unbounded integers. Rows that SQL leaves
  unordered come in one fixed order; no theorem depends on it.

  The SQLite driver can fail at any call (disk full, lock timeout, closed file). Which calls fail
  is the environment's choice: the handle carries a schedule \<open>db_faults\<close>, one truth value per
  driver call, where \<^const>\<open>True\<close> makes the call fail without effect and the empty schedule
  never fails. Theorems hold for every schedule unless they name one.
\<close>

section \<open>Errors and rows\<close>

datatype go_error =
    ErrNotFound
  | ErrIO
  | ErrConstraint
  | ErrUnknownGranularity string
  | ErrInvalidCredentials
  | ErrHashFormat
  | ErrSetup string

record Host =
  h_id :: int
  h_ip :: string
  h_display :: "string option"
  h_mac :: "string option"
  h_first :: int
  h_last :: int

record FlowRecord =
  f_host :: int
  f_dir :: int
  f_proto :: int
  f_lip :: string
  f_lport :: int
  f_rip :: string
  f_rport :: int
  f_first :: int
  f_last :: int
  f_sent :: int
  f_recv :: int
  f_psent :: int
  f_precv :: int

record DNSQueryRecord =
  q_host :: int
  q_name :: string
  q_type :: int
  q_ts :: int

record AlertRecord =
  al_host :: int
  al_kind :: string
  al_severity :: string
  al_summary :: string
  al_detail :: string
  al_dedupe :: string
  al_detected :: int

record alert_row =
  ar_id :: int
  ar_rec :: AlertRecord
  ar_ack :: bool

record User =
  u_id :: int
  u_name :: string
  u_hash :: string
  u_role :: string
  u_created :: int

record session_row =
  s_token :: string
  s_user :: int
  s_created :: int
  s_expires :: int
  s_elevated :: "int option"

text \<open>The four summed columns of a rollup row, with their column-wise sum.\<close>

datatype counters = Counters (c_sent: int) (c_recv: int) (c_psent: int) (c_precv: int)

instantiation counters :: comm_monoid_add
begin

definition zero_counters :: counters where
  "zero_counters = Counters 0 0 0 0"

definition plus_counters :: "counters \<Rightarrow> counters \<Rightarrow> counters" where
  "plus_counters a b = Counters (c_sent a + c_sent b) (c_recv a + c_recv b)
     (c_psent a + c_psent b) (c_precv a + c_precv b)"

instance
  by intro_classes (auto simp: plus_counters_def zero_counters_def add.assoc add.commute)

end

lemma counters_sel_plus [simp]:
  "c_sent (a + b) = c_sent a + c_sent b" "c_recv (a + b) = c_recv a + c_recv b"
  "c_psent (a + b) = c_psent a + c_psent b" "c_precv (a + b) = c_precv a + c_precv b"
  by (simp_all add: plus_counters_def)

lemma counters_sel_zero [simp]:
  "c_sent 0 = 0" "c_recv 0 = 0" "c_psent 0 = 0" "c_precv 0 = 0"
  by (simp_all add: zero_counters_def)

type_synonym rollup_key = "int \<times> int \<times> int"
type_synonym rollup_table = "(rollup_key \<times> counters) list"
type_synonym peer_key = "int \<times> string \<times> int"

record tables =
  hosts :: "Host list"
  host_seq :: int
  flows_recent :: "FlowRecord list"
  rollups :: "string \<Rightarrow> rollup_table"
  known_peers :: "(peer_key \<times> (int \<times> int)) list"
  dns_queries :: "DNSQueryRecord list"
  dhcp_hostnames :: "(string \<times> (string \<times> int)) list"
  alerts :: "alert_row list"
  alert_seq :: int
  users :: "User list"
  user_seq :: int
  sessions :: "session_row list"
  settings :: "(string \<times> string) list"

definition empty_tables :: tables where
  "empty_tables = \<lparr>hosts = [], host_seq = 1, flows_recent = [], rollups = (\<lambda>_. []), known_peers = [],
     dns_queries = [], dhcp_hostnames = [], alerts = [], alert_seq = 1, users = [], user_seq = 1,
     sessions = [], settings = []\<rparr>"

section \<open>The handle: statements, queries, transactions\<close>

record db =
  tbl :: tables
  db_faults :: "bool list"

type_synonym 'a dbm = "db \<Rightarrow> (go_error + 'a) \<times> db"

definition driver_call :: "db \<Rightarrow> bool \<times> db" where
  "driver_call d = (case db_faults d of [] \<Rightarrow> (False, d) | b # bs \<Rightarrow> (b, d\<lparr>db_faults := bs\<rparr>))"

definition exec :: "(tables \<Rightarrow> go_error + ('a \<times> tables)) \<Rightarrow> 'a dbm" where
  "exec f d =
     (let (failed, d') = driver_call d
      in if failed then (Inl ErrIO, d')
         else (case f (tbl d') of
                 Inl e \<Rightarrow> (Inl e, d')
               | Inr (a, t) \<Rightarrow> (Inr a, d'\<lparr>tbl := t\<rparr>)))"

definition query :: "(tables \<Rightarrow> go_error + 'a) \<Rightarrow> 'a dbm" where
  "query f d =
     (let (failed, d') = driver_call d
      in if failed then (Inl ErrIO, d') else (f (tbl d'), d'))"

fun tx_body :: "(tables \<Rightarrow> go_error + tables) list \<Rightarrow> tables \<Rightarrow> db \<Rightarrow> (go_error + tables) \<times> db" where
  "tx_body [] t d = (Inr t, d)"
| "tx_body (s # ss) t d =
     (let (failed, d') = driver_call d
      in if failed then (Inl ErrIO, d')
         else (case s t of Inl e \<Rightarrow> (Inl e, d') | Inr t' \<Rightarrow> tx_body ss t' d'))"

text \<open>
  \<open>Begin\<close>, the statements, \<open>Commit\<close>: the tables change only when the commit succeeds;
  every other way out is the deferred \<open>Rollback\<close>.
\<close>

definition run_tx :: "(tables \<Rightarrow> go_error + tables) list \<Rightarrow> unit dbm" where
  "run_tx ss d =
     (let (failed, d1) = driver_call d
      in if failed then (Inl ErrIO, d1)
         else (case tx_body ss (tbl d1) d1 of
                 (Inl e, d2) \<Rightarrow> (Inl e, d2)
               | (Inr t, d2) \<Rightarrow>
                   (let (cfailed, d3) = driver_call d2
                    in if cfailed then (Inl ErrIO, d3) else (Inr (), d3\<lparr>tbl := t\<rparr>))))"

text \<open>The effect of a list of statements when the driver does not fail.\<close>

fun tx_fold :: "(tables \<Rightarrow> go_error + tables) list \<Rightarrow> tables \<Rightarrow> go_error + tables" where
  "tx_fold [] t = Inr t"
| "tx_fold (s # ss) t = (case s t of Inl e \<Rightarrow> Inl e | Inr t' \<Rightarrow> tx_fold ss t')"

text \<open>How each of them depends on the schedule.\<close>

lemma driver_call_tbl [simp]: "driver_call d = (b, d') \<Longrightarrow> tbl d' = tbl d"
  by (auto simp: driver_call_def split: list.splits)

lemma driver_call_ok [simp]: "db_faults d = [] \<Longrightarrow> driver_call d = (False, d)"
  by (simp add: driver_call_def)

lemma query_tbl [simp]: "tbl (snd (query f d)) = tbl d"
  by (auto simp: query_def split: prod.splits)

lemma query_tblD: "query f d = (r, d') \<Longrightarrow> tbl d' = tbl d"
  by (metis query_tbl snd_conv)

lemma query_ok [simp]: "db_faults d = [] \<Longrightarrow> query f d = (f (tbl d), d)"
  by (simp add: query_def)

lemma exec_ok: "db_faults d = [] \<Longrightarrow>
  exec f d = (case f (tbl d) of Inl e \<Rightarrow> (Inl e, d) | Inr (a, t) \<Rightarrow> (Inr a, d\<lparr>tbl := t\<rparr>))"
  by (simp add: exec_def)

lemma exec_cases:
  obtains (fail) e where "fst (exec f d) = Inl e" "tbl (snd (exec f d)) = tbl d"
  | (success) a t where "f (tbl d) = Inr (a, t)" "fst (exec f d) = Inr a" "tbl (snd (exec f d)) = t"
proof -
  obtain b d' where d': "driver_call d = (b, d')" by (cases "driver_call d")
  then have t: "tbl d' = tbl d" by simp
  show thesis
  proof (cases b)
    case True
    then show thesis using d' t fail by (simp add: exec_def)
  next
    case False
    show thesis
    proof (cases "f (tbl d)")
      case (Inl e)
      then show thesis using d' t False fail by (simp add: exec_def)
    next
      case (Inr p)
      then show thesis using d' t False success by (cases p) (simp add: exec_def)
    qed
  qed
qed

lemma tx_body_faults: "db_faults d = [] \<Longrightarrow> tx_body ss t d = (tx_fold ss t, d)"
  by (induction ss arbitrary: t) (auto split: sum.splits)

text \<open>A transaction is atomic: the tables are unchanged, or every statement ran in order.\<close>

lemma tx_body_result:
  "tx_body ss t d = (Inr t', d') \<Longrightarrow> tx_fold ss t = Inr t'"
  by (induction ss arbitrary: t d) (auto split: prod.splits if_splits sum.splits)

lemma tx_body_tbl: "tx_body ss t d = (r, d') \<Longrightarrow> tbl d' = tbl d"
proof (induction ss arbitrary: t d)
  case (Cons s ss)
  obtain b d1 where d1: "driver_call d = (b, d1)" by (cases "driver_call d")
  with Cons show ?case by (auto split: if_splits sum.splits)
qed simp

lemma run_tx_cases:
  obtains (fail) e where "fst (run_tx ss d) = Inl e" "tbl (snd (run_tx ss d)) = tbl d"
  | (success) t where "fst (run_tx ss d) = Inr ()" "tbl (snd (run_tx ss d)) = t"
      "tx_fold ss (tbl d) = Inr t"
proof -
  obtain b d1 where d1: "driver_call d = (b, d1)" by (cases "driver_call d")
  obtain r d2 where d2: "tx_body ss (tbl d1) d1 = (r, d2)" by (cases "tx_body ss (tbl d1) d1")
  obtain c d3 where d3: "driver_call d2 = (c, d3)" by (cases "driver_call d2")
  have t: "tbl d1 = tbl d" "tbl d2 = tbl d" "tbl d3 = tbl d"
    using d1 d3 tx_body_tbl [OF d2] by simp_all
  show thesis
  proof (cases "b \<or> c \<or> isl r")
    case True
    then have "\<exists>e. fst (run_tx ss d) = Inl e \<and> tbl (snd (run_tx ss d)) = tbl d"
      using d1 d2 d3 t by (cases b; cases r; cases c) (simp_all add: run_tx_def)
    then show thesis using fail by blast
  next
    case False
    then obtain t' where r: "r = Inr t'" by (cases r) auto
    then show thesis
      using False d1 d2 d3 t success tx_body_result [of ss "tbl d1" d1 t' d2] by (simp add: run_tx_def)
  qed
qed

lemma run_tx_ok:
  assumes "db_faults d = []"
  shows "run_tx ss d =
    (case tx_fold ss (tbl d) of
       Inl e \<Rightarrow> (Inl e, d) | Inr t \<Rightarrow> (Inr (), d\<lparr>tbl := t\<rparr>))"
  using assms by (simp add: run_tx_def tx_body_faults split: sum.splits)

lemma exec_InrD: "exec f d = (Inr a, d') \<Longrightarrow> f (tbl d) = Inr (a, tbl d')"
  by (cases rule: exec_cases [of f d]) auto

lemma run_tx_InrD: "run_tx ss d = (Inr u, d') \<Longrightarrow> tx_fold ss (tbl d) = Inr (tbl d')"
  by (cases rule: run_tx_cases [of ss d]) auto

section \<open>Invariants of the tables\<close>

definition stmt_keeps :: "(tables \<Rightarrow> bool) \<Rightarrow> (tables \<Rightarrow> go_error + ('a \<times> tables)) \<Rightarrow> bool" where
  "stmt_keeps I f \<longleftrightarrow> (\<forall>t a t'. I t \<longrightarrow> f t = Inr (a, t') \<longrightarrow> I t')"

definition tx_keeps :: "(tables \<Rightarrow> bool) \<Rightarrow> (tables \<Rightarrow> go_error + tables) \<Rightarrow> bool" where
  "tx_keeps I f \<longleftrightarrow> (\<forall>t t'. I t \<longrightarrow> f t = Inr t' \<longrightarrow> I t')"

definition keeps :: "(tables \<Rightarrow> bool) \<Rightarrow> (db \<Rightarrow> 'r \<times> db) \<Rightarrow> bool" where
  "keeps I m \<longleftrightarrow> (\<forall>d. I (tbl d) \<longrightarrow> I (tbl (snd (m d))))"

lemma keepsD: "keeps I m \<Longrightarrow> m d = (r, d') \<Longrightarrow> I (tbl d) \<Longrightarrow> I (tbl d')"
  by (force simp: keeps_def)

lemma keeps_query [simp]: "keeps I (query f)"
  by (simp add: keeps_def)

lemma keeps_exec: "stmt_keeps I f \<Longrightarrow> keeps I (exec f)"
  unfolding keeps_def
proof (intro allI impI)
  fix d :: db
  assume f: "stmt_keeps I f" and d: "I (tbl d)"
  show "I (tbl (snd (exec f d)))"
  proof (cases rule: exec_cases [of f d])
    case fail
    with d show ?thesis by simp
  next
    case success
    with f d show ?thesis by (auto simp: stmt_keeps_def)
  qed
qed

lemma fold_tx_keeps:
  "list_all (tx_keeps I) ss \<Longrightarrow> I t \<Longrightarrow> tx_fold ss t = Inr t' \<Longrightarrow> I t'"
  by (induction ss arbitrary: t) (auto simp: tx_keeps_def split: sum.splits)

lemma keeps_run_tx: "list_all (tx_keeps I) ss \<Longrightarrow> keeps I (run_tx ss)"
  unfolding keeps_def
proof (intro allI impI)
  fix d :: db
  assume f: "list_all (tx_keeps I) ss" and d: "I (tbl d)"
  show "I (tbl (snd (run_tx ss d)))"
  proof (cases rule: run_tx_cases [of ss d])
    case fail
    with d show ?thesis by simp
  next
    case success
    with f d show ?thesis using fold_tx_keeps [OF f d] by simp
  qed
qed

section \<open>Keyed tables: INSERT ... ON CONFLICT DO UPDATE\<close>

fun upsert :: "'k \<Rightarrow> ('v option \<Rightarrow> 'v) \<Rightarrow> ('k \<times> 'v) list \<Rightarrow> ('k \<times> 'v) list" where
  "upsert k f [] = [(k, f None)]"
| "upsert k f ((k', v) # xs) = (if k' = k then (k, f (Some v)) # xs else (k', v) # upsert k f xs)"

lemma map_of_upsert: "map_of (upsert k f xs) = (map_of xs)(k \<mapsto> f (map_of xs k))"
  by (induction k f xs rule: upsert.induct) (auto simp: fun_eq_iff)

lemma keys_upsert: "fst ` set (upsert k f xs) = insert k (fst ` set xs)"
  by (induction k f xs rule: upsert.induct) auto

lemma distinct_upsert: "distinct (map fst xs) \<Longrightarrow> distinct (map fst (upsert k f xs))"
proof (induction k f xs rule: upsert.induct)
  case (2 k f k' v xs)
  then show ?case using keys_upsert [of k f xs] by auto
qed simp

text \<open>
  The contract of a keyed table: \<open>ins a\<close> inserts or updates the row with key \<open>key_of a\<close>,
  computing the new value from the old one; nothing else changes.
\<close>

locale keyed_table =
  fixes ins :: "'a \<Rightarrow> 't \<Rightarrow> 't"
    and look :: "'t \<Rightarrow> 'k \<Rightarrow> 'v option"
    and key_of :: "'a \<Rightarrow> 'k"
    and new_val :: "'a \<Rightarrow> 'v option \<Rightarrow> 'v"
    and ok :: "'t \<Rightarrow> bool"
  assumes look_ins: "ok t \<Longrightarrow> look (ins a t) = (look t)(key_of a \<mapsto> new_val a (look t (key_of a)))"
    and ok_ins: "ok t \<Longrightarrow> ok (ins a t)"
begin

lemma look_same: "ok t \<Longrightarrow> look (ins a t) (key_of a) = Some (new_val a (look t (key_of a)))"
  by (simp add: look_ins)

lemma look_other: "ok t \<Longrightarrow> k \<noteq> key_of a \<Longrightarrow> look (ins a t) k = look t k"
  by (simp add: look_ins)

lemma ok_fold: "ok t \<Longrightarrow> ok (fold ins as t)"
  by (induction as arbitrary: t) (auto simp: ok_ins)

lemma look_fold_absent: "ok t \<Longrightarrow> k \<notin> key_of ` set as \<Longrightarrow> look (fold ins as t) k = look t k"
  by (induction as arbitrary: t) (auto simp: ok_ins look_other)

lemma look_fold_distinct:
  "ok t \<Longrightarrow> distinct (map key_of as) \<Longrightarrow> a \<in> set as \<Longrightarrow>
     look (fold ins as t) (key_of a) = Some (new_val a (look t (key_of a)))"
proof (induction as arbitrary: t)
  case (Cons b as)
  show ?case
  proof (cases "a = b")
    case True
    with Cons show ?thesis by (simp add: look_fold_absent ok_ins look_same)
  next
    case False
    with Cons.prems have a: "a \<in> set as" by simp
    then have "key_of a \<in> key_of ` set as" by (rule imageI)
    with Cons.prems have "key_of a \<noteq> key_of b" by auto
    with a Cons show ?thesis by (simp add: ok_ins look_other)
  qed
qed simp

end

section \<open>GROUP BY\<close>

definition group_by :: "('a \<Rightarrow> 'k) \<Rightarrow> 'a list \<Rightarrow> ('k \<times> 'a list) list" where
  "group_by key xs = map (\<lambda>k. (k, filter (\<lambda>x. key x = k) xs)) (remdups (map key xs))"

lemma group_by_keys: "map fst (group_by key xs) = remdups (map key xs)"
  by (simp add: group_by_def comp_def)

lemma group_by_mem:
  "(k, rs) \<in> set (group_by key xs) \<longleftrightarrow> k \<in> key ` set xs \<and> rs = filter (\<lambda>x. key x = k) xs"
  by (auto simp: group_by_def)

lemma distinct_group_by [simp]: "distinct (map fst (group_by key xs))"
  by (simp add: group_by_keys)

lemma sum_list_remdups: "sum_list (map h (remdups ys)) = sum h (set ys)" for h :: "'a \<Rightarrow> 'b :: comm_monoid_add"
  by (induction ys) (auto simp: insert_absorb)

lemma sum_partition:
  fixes v :: "'a \<Rightarrow> 'b :: comm_monoid_add"
  assumes "finite K" and "key ` set xs \<subseteq> K"
  shows "(\<Sum>k\<in>K. sum_list (map v (filter (\<lambda>x. key x = k) xs))) = sum_list (map v xs)"
  using assms(2)
proof (induction xs)
  case (Cons x xs)
  have "(\<Sum>k\<in>K. sum_list (map v (filter (\<lambda>y. key y = k) (x # xs))))
      = (\<Sum>k\<in>K. (if key x = k then v x else 0) + sum_list (map v (filter (\<lambda>y. key y = k) xs)))"
    by (rule sum.cong) auto
  also have "\<dots> = v x + sum_list (map v xs)"
    using Cons assms(1) by (simp add: sum.distrib sum.delta')
  finally show ?case by simp
qed simp

lemma filter_group_by:
  "filter (\<lambda>g. P (fst g)) (group_by key xs) = group_by key (filter (\<lambda>x. P (key x)) xs)"
proof -
  have "filter P (remdups (map key xs)) = remdups (map key (filter (\<lambda>x. P (key x)) xs))"
    unfolding remdups_filter [symmetric] filter_map comp_def ..
  moreover have "filter (\<lambda>x. key x = k) xs = filter (\<lambda>x. key x = k) (filter (\<lambda>x. P (key x)) xs)" if "P k" for k
    using that by (auto intro: filter_cong)
  ultimately show ?thesis
    by (auto simp: group_by_def filter_map comp_def intro!: map_cong)
qed

lemma sum_group_by:
  fixes v :: "'a \<Rightarrow> 'b :: comm_monoid_add"
  shows "sum_list (map (\<lambda>g. sum_list (map v (snd g))) (group_by key xs)) = sum_list (map v xs)"
proof -
  have "sum_list (map (\<lambda>g. sum_list (map v (snd g))) (group_by key xs))
      = (\<Sum>k\<in>key ` set xs. sum_list (map v (filter (\<lambda>x. key x = k) xs)))"
    using sum_list_remdups [of "\<lambda>k. sum_list (map v (filter (\<lambda>x. key x = k) xs))" "map key xs"]
    by (simp add: group_by_def comp_def)
  then show ?thesis by (simp add: sum_partition)
qed

section \<open>The schema invariant\<close>

definition host_ids :: "tables \<Rightarrow> int set" where
  "host_ids t = h_id ` set (hosts t)"

lemma host_ids_update [simp]:
  "host_ids (t\<lparr>flows_recent := a\<rparr>) = host_ids t" "host_ids (t\<lparr>rollups := b\<rparr>) = host_ids t"
  "host_ids (t\<lparr>known_peers := c\<rparr>) = host_ids t" "host_ids (t\<lparr>dns_queries := e\<rparr>) = host_ids t"
  "host_ids (t\<lparr>dhcp_hostnames := f\<rparr>) = host_ids t" "host_ids (t\<lparr>alerts := g\<rparr>) = host_ids t"
  "host_ids (t\<lparr>alert_seq := i\<rparr>) = host_ids t" "host_ids (t\<lparr>users := j\<rparr>) = host_ids t"
  "host_ids (t\<lparr>user_seq := k\<rparr>) = host_ids t" "host_ids (t\<lparr>sessions := l\<rparr>) = host_ids t"
  "host_ids (t\<lparr>settings := m\<rparr>) = host_ids t" "host_ids (t\<lparr>host_seq := n\<rparr>) = host_ids t"
  by (simp_all add: host_ids_def)

definition wf_hosts :: "tables \<Rightarrow> bool" where
  "wf_hosts t \<longleftrightarrow>
     distinct (map h_id (hosts t)) \<and> distinct (map h_ip (hosts t))
     \<and> (\<forall>h \<in> set (hosts t). 0 < h_id h \<and> h_id h < host_seq t \<and> h_first h \<le> h_last h) \<and> 0 < host_seq t"

definition wf_users :: "tables \<Rightarrow> bool" where
  "wf_users t \<longleftrightarrow>
     distinct (map u_id (users t)) \<and> distinct (map u_name (users t))
     \<and> (\<forall>u \<in> set (users t). 0 < u_id u \<and> u_id u < user_seq t) \<and> 0 < user_seq t"

definition wf_sessions :: "tables \<Rightarrow> bool" where
  "wf_sessions t \<longleftrightarrow>
     distinct (map s_token (sessions t)) \<and> (\<forall>s \<in> set (sessions t). s_user s \<in> u_id ` set (users t))"

definition wf_keys :: "tables \<Rightarrow> bool" where
  "wf_keys t \<longleftrightarrow>
     distinct (map fst (settings t)) \<and> distinct (map fst (dhcp_hostnames t))
     \<and> distinct (map fst (known_peers t)) \<and> (\<forall>g. distinct (map fst (rollups t g)))"

definition wf_alerts :: "tables \<Rightarrow> bool" where
  "wf_alerts t \<longleftrightarrow>
     distinct (map ar_id (alerts t)) \<and> (\<forall>a \<in> set (alerts t). ar_id a < alert_seq t)"

definition key_refs :: "'i set \<Rightarrow> (('i \<times> 'j) \<times> 'v) list \<Rightarrow> bool" where
  "key_refs ids xs \<longleftrightarrow> fst ` fst ` set xs \<subseteq> ids"

lemma key_refs_upsert [simp]: "key_refs ids (upsert k f xs) \<longleftrightarrow> fst k \<in> ids \<and> key_refs ids xs"
  by (simp add: key_refs_def keys_upsert)

lemma key_refs_Nil [simp]: "key_refs ids []"
  by (simp add: key_refs_def)

lemma key_refs_filter: "key_refs ids xs \<Longrightarrow> key_refs ids (filter P xs)"
  by (auto simp: key_refs_def)

lemma key_refs_insert: "key_refs ids xs \<Longrightarrow> key_refs (insert i ids) xs"
  by (auto simp: key_refs_def)

definition wf_refs :: "tables \<Rightarrow> bool" where
  "wf_refs t \<longleftrightarrow>
     (\<forall>f \<in> set (flows_recent t). f_host f \<in> host_ids t) \<and> (\<forall>q \<in> set (dns_queries t). q_host q \<in> host_ids t)
     \<and> (\<forall>a \<in> set (alerts t). al_host (ar_rec a) \<in> host_ids t)
     \<and> key_refs (host_ids t) (known_peers t) \<and> (\<forall>g. key_refs (host_ids t) (rollups t g))"

definition wf_tables :: "tables \<Rightarrow> bool" where
  "wf_tables t \<longleftrightarrow> wf_hosts t \<and> wf_users t \<and> wf_sessions t \<and> wf_keys t \<and> wf_alerts t \<and> wf_refs t"

lemmas wf_defs = wf_tables_def wf_hosts_def wf_users_def wf_sessions_def wf_keys_def wf_alerts_def
  wf_refs_def

lemma wf_empty_tables: "wf_tables empty_tables"
  by (simp add: wf_defs empty_tables_def)

end
