(* ===== verification/Store_Ops.thy ===== *)
theory Store_Ops
  imports Store_Core
begin

text \<open>
  The operations of package \<open>store\<close> that write, and the point lookups: hosts, flows, DNS
  queries, DHCP hostnames, known peers, alerts, users, sessions and settings. Each Go method is a
  definition of the same name over \<^typ>\<open>'a dbm\<close>, and its SQL statement is a pure function on the
  tables (\<open>sql_\<dots>\<close>). The theory ends with the preservation of the schema invariant by every
  statement and the laws of the keyed tables, as interpretations of \<open>keyed_table\<close>.
\<close>

section \<open>hosts.go\<close>

definition sql_upsert_host :: "string \<Rightarrow> int \<Rightarrow> tables \<Rightarrow> go_error + (int \<times> tables)" where
  "sql_upsert_host ip seenAt t =
     (case find (\<lambda>h. h_ip h = ip) (hosts t) of
        Some h \<Rightarrow>
          Inr (h_id h, t\<lparr>hosts := map (\<lambda>x. if h_ip x = ip then x\<lparr>h_last := max (h_last x) seenAt\<rparr> else x) (hosts t)\<rparr>)
      | None \<Rightarrow>
          Inr (host_seq t,
               t\<lparr>hosts := hosts t @ [\<lparr>h_id = host_seq t, h_ip = ip, h_display = None, h_mac = None,
                                      h_first = seenAt, h_last = seenAt\<rparr>],
                 host_seq := host_seq t + 1\<rparr>))"

definition UpsertHost :: "string \<Rightarrow> int \<Rightarrow> int dbm" where
  "UpsertHost ip seenAt = exec (sql_upsert_host ip seenAt)"

definition sql_set_host_mac :: "int \<Rightarrow> string \<Rightarrow> tables \<Rightarrow> go_error + (unit \<times> tables)" where
  "sql_set_host_mac hostID mac t =
     Inr ((), t\<lparr>hosts := map (\<lambda>h. if h_id h = hostID \<and> (h_mac h = None \<or> h_mac h \<noteq> Some mac)
                                  then h\<lparr>h_mac := Some mac\<rparr> else h) (hosts t)\<rparr>)"

definition SetHostMAC :: "int \<Rightarrow> string \<Rightarrow> unit dbm" where
  "SetHostMAC hostID mac = exec (sql_set_host_mac hostID mac)"

definition sql_set_display_name :: "string \<Rightarrow> string \<Rightarrow> tables \<Rightarrow> tables" where
  "sql_set_display_name mac hostname t =
     t\<lparr>hosts := map (\<lambda>h. if h_mac h = Some mac \<and> (h_display h = None \<or> h_display h \<noteq> Some hostname)
                         then h\<lparr>h_display := Some hostname\<rparr> else h) (hosts t)\<rparr>"

definition SetHostDisplayNameByMAC :: "string \<Rightarrow> string \<Rightarrow> unit dbm" where
  "SetHostDisplayNameByMAC mac hostname = exec (\<lambda>t. Inr ((), sql_set_display_name mac hostname t))"

definition ListHosts :: "Host list dbm" where
  "ListHosts = query (\<lambda>t. Inr (sort_key (\<lambda>h. - h_last h) (hosts t)))"

definition HostByID :: "int \<Rightarrow> Host dbm" where
  "HostByID i = query (\<lambda>t. case find (\<lambda>h. h_id h = i) (hosts t) of None \<Rightarrow> Inl ErrNotFound | Some h \<Rightarrow> Inr h)"

section \<open>flows.go, dns.go: batched inserts and pruning\<close>

definition DirLANToWAN :: int where "DirLANToWAN = 0"
definition DirWANToLAN :: int where "DirWANToLAN = 1"
definition DirLANOut :: int where "DirLANOut = 2"
definition DirLANIn :: int where "DirLANIn = 3"

lemmas dir_defs = DirLANToWAN_def DirWANToLAN_def DirLANOut_def DirLANIn_def

definition flowInsertChunk :: nat where
  "flowInsertChunk = 500"

function chunk :: "nat \<Rightarrow> 'a list \<Rightarrow> 'a list list" where
  "chunk n xs = (if xs = [] \<or> n = 0 then [] else take n xs # chunk n (drop n xs))"
  by pat_completeness auto
termination
  by (relation "measure (\<lambda>(n, xs). length xs)") auto

declare chunk.simps [simp del]

definition insertFlowChunk :: "FlowRecord list \<Rightarrow> tables \<Rightarrow> go_error + tables" where
  "insertFlowChunk rs t =
     (if list_all (\<lambda>r. f_host r \<in> host_ids t) rs then Inr (t\<lparr>flows_recent := flows_recent t @ rs\<rparr>)
      else Inl ErrConstraint)"

definition InsertFlows :: "FlowRecord list \<Rightarrow> unit dbm" where
  "InsertFlows records d =
     (if records = [] then (Inr (), d)
      else run_tx (map insertFlowChunk (chunk flowInsertChunk records)) d)"

definition PruneFlowsRecent :: "int \<Rightarrow> unit dbm" where
  "PruneFlowsRecent cutoff =
     exec (\<lambda>t. Inr ((), t\<lparr>flows_recent := filter (\<lambda>f. \<not> f_last f < cutoff) (flows_recent t)\<rparr>))"

definition dnsInsertChunk :: nat where
  "dnsInsertChunk = 500"

definition insertDNSChunk :: "DNSQueryRecord list \<Rightarrow> tables \<Rightarrow> go_error + tables" where
  "insertDNSChunk rs t =
     (if list_all (\<lambda>r. q_host r \<in> host_ids t) rs then Inr (t\<lparr>dns_queries := dns_queries t @ rs\<rparr>)
      else Inl ErrConstraint)"

definition InsertDNSQueries :: "DNSQueryRecord list \<Rightarrow> unit dbm" where
  "InsertDNSQueries records d =
     (if records = [] then (Inr (), d)
      else run_tx (map insertDNSChunk (chunk dnsInsertChunk records)) d)"

definition PruneDNSQueries :: "int \<Rightarrow> unit dbm" where
  "PruneDNSQueries cutoff =
     exec (\<lambda>t. Inr ((), t\<lparr>dns_queries := filter (\<lambda>q. \<not> q_ts q < cutoff) (dns_queries t)\<rparr>))"

section \<open>dhcp.go, known_peers.go\<close>

definition sql_upsert_dhcp :: "string \<Rightarrow> string \<Rightarrow> int \<Rightarrow> tables \<Rightarrow> tables" where
  "sql_upsert_dhcp mac hostname seenAt t =
     t\<lparr>dhcp_hostnames := upsert mac (\<lambda>_. (hostname, seenAt)) (dhcp_hostnames t)\<rparr>"

definition UpsertDHCPHostname :: "string \<Rightarrow> string \<Rightarrow> int \<Rightarrow> unit dbm" where
  "UpsertDHCPHostname mac hostname seenAt =
     run_tx [\<lambda>t. Inr (sql_upsert_dhcp mac hostname seenAt t), \<lambda>t. Inr (sql_set_display_name mac hostname t)]"

definition HostnameByMAC :: "string \<Rightarrow> string option dbm" where
  "HostnameByMAC mac = query (\<lambda>t. Inr (map_option fst (map_of (dhcp_hostnames t) mac)))"

definition KnownPeerLastSeen :: "int \<Rightarrow> string \<Rightarrow> int \<Rightarrow> int option dbm" where
  "KnownPeerLastSeen hostID remoteIP remotePort =
     query (\<lambda>t. Inr (map_option snd (map_of (known_peers t) (hostID, remoteIP, remotePort))))"

definition sql_upsert_peer :: "int \<Rightarrow> string \<Rightarrow> int \<Rightarrow> int \<Rightarrow> tables \<Rightarrow> go_error + (unit \<times> tables)" where
  "sql_upsert_peer hostID remoteIP remotePort seenAt t =
     (if hostID \<in> host_ids t then
        Inr ((), t\<lparr>known_peers := upsert (hostID, remoteIP, remotePort)
                     (\<lambda>old. case old of None \<Rightarrow> (seenAt, seenAt) | Some (fs, _) \<Rightarrow> (fs, seenAt)) (known_peers t)\<rparr>)
      else Inl ErrConstraint)"

definition UpsertKnownPeer :: "int \<Rightarrow> string \<Rightarrow> int \<Rightarrow> int \<Rightarrow> unit dbm" where
  "UpsertKnownPeer hostID remoteIP remotePort seenAt = exec (sql_upsert_peer hostID remoteIP remotePort seenAt)"

section \<open>alerts.go\<close>

definition RecentAlertExists :: "int \<Rightarrow> string \<Rightarrow> string \<Rightarrow> int \<Rightarrow> bool dbm" where
  "RecentAlertExists hostID kind dedupeKey since =
     query (\<lambda>t. Inr (0 < length (filter (\<lambda>a. al_host (ar_rec a) = hostID \<and> al_kind (ar_rec a) = kind
                       \<and> al_dedupe (ar_rec a) = dedupeKey \<and> since \<le> al_detected (ar_rec a)) (alerts t))))"

definition sql_insert_alert :: "AlertRecord \<Rightarrow> tables \<Rightarrow> go_error + (unit \<times> tables)" where
  "sql_insert_alert a t =
     (if al_host a \<in> host_ids t then
        Inr ((), t\<lparr>alerts := alerts t @ [\<lparr>ar_id = alert_seq t, ar_rec = a, ar_ack = False\<rparr>],
                   alert_seq := alert_seq t + 1\<rparr>)
      else Inl ErrConstraint)"

definition InsertAlert :: "AlertRecord \<Rightarrow> unit dbm" where
  "InsertAlert a = exec (sql_insert_alert a)"

record Alert =
  alr_id :: int
  alr_host_ip :: string
  alr_rec :: AlertRecord
  alr_ack :: bool

text \<open>The inner join with \<open>hosts\<close> drops an alert without a host row.\<close>

definition join_alert :: "tables \<Rightarrow> alert_row \<Rightarrow> Alert list" where
  "join_alert t a =
     map (\<lambda>h. \<lparr>alr_id = ar_id a, alr_host_ip = h_ip h, alr_rec = ar_rec a, alr_ack = ar_ack a\<rparr>)
       (filter (\<lambda>h. h_id h = al_host (ar_rec a)) (hosts t))"

definition newest_first :: "Alert list \<Rightarrow> Alert list" where
  "newest_first = sort_key (\<lambda>a. - al_detected (alr_rec a))"

definition ListAlerts :: "nat \<Rightarrow> bool \<Rightarrow> string \<Rightarrow> Alert list dbm" where
  "ListAlerts limit unackedOnly kind =
     query (\<lambda>t. Inr (take limit (newest_first (concat (map (join_alert t)
       (filter (\<lambda>a. (unackedOnly \<longrightarrow> \<not> ar_ack a) \<and> (kind \<noteq> [] \<longrightarrow> al_kind (ar_rec a) = kind)) (alerts t)))))))"

definition ListAlertsForHost :: "int \<Rightarrow> nat \<Rightarrow> Alert list dbm" where
  "ListAlertsForHost hostID limit =
     query (\<lambda>t. Inr (take limit (newest_first (concat (map (join_alert t)
       (filter (\<lambda>a. al_host (ar_rec a) = hostID) (alerts t)))))))"

definition AcknowledgeAlert :: "int \<Rightarrow> unit dbm" where
  "AcknowledgeAlert i =
     exec (\<lambda>t. Inr ((), t\<lparr>alerts := map (\<lambda>a. if ar_id a = i then a\<lparr>ar_ack := True\<rparr> else a) (alerts t)\<rparr>))"

definition ack_matches :: "string \<Rightarrow> alert_row \<Rightarrow> bool" where
  "ack_matches kind a \<longleftrightarrow> \<not> ar_ack a \<and> (kind \<noteq> [] \<longrightarrow> al_kind (ar_rec a) = kind)"

definition AcknowledgeAllAlerts :: "string \<Rightarrow> nat dbm" where
  "AcknowledgeAllAlerts kind =
     exec (\<lambda>t. Inr (length (filter (ack_matches kind) (alerts t)),
       t\<lparr>alerts := map (\<lambda>a. if ack_matches kind a then a\<lparr>ar_ack := True\<rparr> else a) (alerts t)\<rparr>))"

definition CountUnacknowledgedAlerts :: "nat dbm" where
  "CountUnacknowledgedAlerts = query (\<lambda>t. Inr (length (filter (\<lambda>a. \<not> ar_ack a) (alerts t))))"

section \<open>users.go, sessions.go\<close>

definition RoleAdmin :: string where "RoleAdmin = ''admin''"
definition RoleStandard :: string where "RoleStandard = ''standard''"

definition sql_create_user :: "string \<Rightarrow> string \<Rightarrow> string \<Rightarrow> int \<Rightarrow> tables \<Rightarrow> go_error + (int \<times> tables)" where
  "sql_create_user username passwordHash role createdAt t =
     (if username \<in> u_name ` set (users t) then Inl ErrConstraint
      else Inr (user_seq t,
                t\<lparr>users := users t @ [\<lparr>u_id = user_seq t, u_name = username, u_hash = passwordHash,
                                        u_role = role, u_created = createdAt\<rparr>],
                  user_seq := user_seq t + 1\<rparr>))"

definition CreateUser :: "string \<Rightarrow> string \<Rightarrow> string \<Rightarrow> int \<Rightarrow> int dbm" where
  "CreateUser username passwordHash role createdAt = exec (sql_create_user username passwordHash role createdAt)"

definition find_user :: "(User \<Rightarrow> bool) \<Rightarrow> User dbm" where
  "find_user P = query (\<lambda>t. case find P (users t) of None \<Rightarrow> Inl ErrNotFound | Some u \<Rightarrow> Inr u)"

definition UserByUsername :: "string \<Rightarrow> User dbm" where
  "UserByUsername username = find_user (\<lambda>u. u_name u = username)"

definition UserByID :: "int \<Rightarrow> User dbm" where
  "UserByID i = find_user (\<lambda>u. u_id u = i)"

definition PasswordHashByUserID :: "int \<Rightarrow> string dbm" where
  "PasswordHashByUserID i =
     query (\<lambda>t. case find (\<lambda>u. u_id u = i) (users t) of None \<Rightarrow> Inl ErrNotFound | Some u \<Rightarrow> Inr (u_hash u))"

definition AnyUserExists :: "bool dbm" where
  "AnyUserExists = query (\<lambda>t. Inr (0 < length (users t)))"

definition ListUsers :: "User list dbm" where
  "ListUsers = query (\<lambda>t. Inr (sort_key u_created (users t)))"

definition count_admins :: "tables \<Rightarrow> nat" where
  "count_admins t = length (filter (\<lambda>u. u_role u = RoleAdmin) (users t))"

definition CountAdmins :: "nat dbm" where
  "CountAdmins = query (\<lambda>t. Inr (count_admins t))"

definition sql_update_role :: "int \<Rightarrow> string \<Rightarrow> tables \<Rightarrow> tables" where
  "sql_update_role i role t = t\<lparr>users := map (\<lambda>u. if u_id u = i then u\<lparr>u_role := role\<rparr> else u) (users t)\<rparr>"

definition UpdateUserRole :: "int \<Rightarrow> string \<Rightarrow> unit dbm" where
  "UpdateUserRole i role = exec (\<lambda>t. Inr ((), sql_update_role i role t))"

text \<open>\<open>ON DELETE CASCADE\<close> removes the user's sessions with the user.\<close>

definition sql_delete_user :: "int \<Rightarrow> tables \<Rightarrow> tables" where
  "sql_delete_user i t =
     t\<lparr>users := filter (\<lambda>u. u_id u \<noteq> i) (users t), sessions := filter (\<lambda>s. s_user s \<noteq> i) (sessions t)\<rparr>"

definition DeleteUser :: "int \<Rightarrow> unit dbm" where
  "DeleteUser i = exec (\<lambda>t. Inr ((), sql_delete_user i t))"

record Session =
  ss_token :: string
  ss_user :: int
  ss_role :: string
  ss_created :: int
  ss_expires :: int
  ss_elevated :: "int option"

definition IsAdmin :: "Session \<Rightarrow> bool" where
  "IsAdmin s \<longleftrightarrow> ss_role s = RoleAdmin"

definition sql_create_session :: "string \<Rightarrow> int \<Rightarrow> int \<Rightarrow> int \<Rightarrow> tables \<Rightarrow> go_error + (unit \<times> tables)" where
  "sql_create_session token userID createdAt expiresAt t =
     (if token \<in> s_token ` set (sessions t) \<or> userID \<notin> u_id ` set (users t) then Inl ErrConstraint
      else Inr ((), t\<lparr>sessions := sessions t @ [\<lparr>s_token = token, s_user = userID, s_created = createdAt,
                                                  s_expires = expiresAt, s_elevated = None\<rparr>]\<rparr>))"

definition CreateSession :: "string \<Rightarrow> int \<Rightarrow> int \<Rightarrow> int \<Rightarrow> unit dbm" where
  "CreateSession token userID createdAt expiresAt = exec (sql_create_session token userID createdAt expiresAt)"

definition session_of :: "tables \<Rightarrow> string \<Rightarrow> Session option" where
  "session_of t token =
     (case find (\<lambda>s. s_token s = token) (sessions t) of
        None \<Rightarrow> None
      | Some s \<Rightarrow>
          (case find (\<lambda>u. u_id u = s_user s) (users t) of
             None \<Rightarrow> None
           | Some u \<Rightarrow> Some \<lparr>ss_token = s_token s, ss_user = s_user s, ss_role = u_role u,
                              ss_created = s_created s, ss_expires = s_expires s, ss_elevated = s_elevated s\<rparr>))"

definition SessionByToken :: "string \<Rightarrow> Session dbm" where
  "SessionByToken token =
     query (\<lambda>t. case session_of t token of None \<Rightarrow> Inl ErrNotFound | Some s \<Rightarrow> Inr s)"

definition sql_elevate_session :: "string \<Rightarrow> int \<Rightarrow> tables \<Rightarrow> tables" where
  "sql_elevate_session token elevatedUntil t =
     t\<lparr>sessions := map (\<lambda>s. if s_token s = token then s\<lparr>s_elevated := Some elevatedUntil\<rparr> else s) (sessions t)\<rparr>"

definition ElevateSession :: "string \<Rightarrow> int \<Rightarrow> unit dbm" where
  "ElevateSession token elevatedUntil = exec (\<lambda>t. Inr ((), sql_elevate_session token elevatedUntil t))"

definition DeleteSession :: "string \<Rightarrow> unit dbm" where
  "DeleteSession token = exec (\<lambda>t. Inr ((), t\<lparr>sessions := filter (\<lambda>s. s_token s \<noteq> token) (sessions t)\<rparr>))"

definition PruneExpiredSessions :: "int \<Rightarrow> unit dbm" where
  "PruneExpiredSessions now =
     exec (\<lambda>t. Inr ((), t\<lparr>sessions := filter (\<lambda>s. \<not> s_expires s < now) (sessions t)\<rparr>))"

section \<open>settings.go\<close>

definition GetSetting :: "string \<Rightarrow> string option dbm" where
  "GetSetting key = query (\<lambda>t. Inr (map_of (settings t) key))"

definition sql_set_setting :: "string \<times> string \<Rightarrow> tables \<Rightarrow> tables" where
  "sql_set_setting kv t = t\<lparr>settings := upsert (fst kv) (\<lambda>_. snd kv) (settings t)\<rparr>"

definition SetSetting :: "string \<Rightarrow> string \<Rightarrow> unit dbm" where
  "SetSetting key value = exec (\<lambda>t. Inr ((), sql_set_setting (key, value) t))"

text \<open>
  \<open>SetSettings\<close>: a Go map arrives in its (arbitrary) iteration order. Preparing the statement
  is one more driver call inside the transaction.
\<close>

definition SetSettings :: "(string \<times> string) list \<Rightarrow> unit dbm" where
  "SetSettings kv = run_tx ((\<lambda>t. Inr t) # map (\<lambda>p t. Inr (sql_set_setting p t)) kv)"

definition AllSettings :: "(string \<rightharpoonup> string) dbm" where
  "AllSettings = query (\<lambda>t. Inr (map_of (settings t)))"

definition DetectorEnabled :: "string \<Rightarrow> db \<Rightarrow> bool \<times> db" where
  "DetectorEnabled settingKey d =
     (case GetSetting settingKey d of
        (Inl _, d') \<Rightarrow> (True, d')
      | (Inr None, d') \<Rightarrow> (True, d')
      | (Inr (Some v), d') \<Rightarrow> (v \<noteq> ''0'', d'))"

lemma DetectorEnabled_tbl: "DetectorEnabled key d = (on, d') \<Longrightarrow> tbl d' = tbl d"
  by (auto simp: DetectorEnabled_def GetSetting_def split: prod.splits sum.splits option.splits dest: query_tblD)

section \<open>Chunks\<close>

lemma concat_chunk: "0 < n \<Longrightarrow> concat (chunk n xs) = xs"
proof (induction n xs rule: chunk.induct)
  case (1 n xs)
  then show ?case by (subst chunk.simps) simp
qed

lemma chunk_length: "c \<in> set (chunk n xs) \<Longrightarrow> length c \<le> n"
proof (induction n xs rule: chunk.induct)
  case (1 n xs)
  then show ?case by (cases "xs = [] \<or> n = 0") (auto simp: chunk.simps [of n xs])
qed

lemma tx_fold_insertFlowChunks:
  "tx_fold (map insertFlowChunk cs) t =
     (if list_all (\<lambda>r. f_host r \<in> host_ids t) (concat cs) then Inr (t\<lparr>flows_recent := flows_recent t @ concat cs\<rparr>)
      else Inl ErrConstraint)"
  by (induction cs arbitrary: t) (auto simp: insertFlowChunk_def)

lemma tx_fold_insertDNSChunks:
  "tx_fold (map insertDNSChunk cs) t =
     (if list_all (\<lambda>r. q_host r \<in> host_ids t) (concat cs) then Inr (t\<lparr>dns_queries := dns_queries t @ concat cs\<rparr>)
      else Inl ErrConstraint)"
  by (induction cs arbitrary: t) (auto simp: insertDNSChunk_def)

lemma InsertFlows_ok:
  assumes "db_faults d = []" and "list_all (\<lambda>r. f_host r \<in> host_ids (tbl d)) rs"
  shows "InsertFlows rs d = (Inr (), d\<lparr>tbl := (tbl d)\<lparr>flows_recent := flows_recent (tbl d) @ rs\<rparr>\<rparr>)"
  using assms
  by (simp add: InsertFlows_def run_tx_ok tx_fold_insertFlowChunks concat_chunk flowInsertChunk_def)

lemma InsertDNSQueries_ok:
  assumes "db_faults d = []" and "list_all (\<lambda>r. q_host r \<in> host_ids (tbl d)) rs"
  shows "InsertDNSQueries rs d = (Inr (), d\<lparr>tbl := (tbl d)\<lparr>dns_queries := dns_queries (tbl d) @ rs\<rparr>\<rparr>)"
  using assms
  by (simp add: InsertDNSQueries_def run_tx_ok tx_fold_insertDNSChunks concat_chunk dnsInsertChunk_def)

section \<open>Every statement keeps the schema invariant\<close>

lemma stmt_keepsI: "(\<And>t a t'. I t \<Longrightarrow> f t = Inr (a, t') \<Longrightarrow> I t') \<Longrightarrow> stmt_keeps I f"
  by (auto simp: stmt_keeps_def)

lemma stmt_keeps_pure: "(\<And>t. I t \<Longrightarrow> I (f t)) \<Longrightarrow> stmt_keeps I (\<lambda>t. Inr (g t, f t))"
  by (auto simp: stmt_keeps_def)

lemma wf_map_hosts:
  assumes "wf_tables t"
    and f: "\<And>h. h_id (f h) = h_id h" "\<And>h. h_ip (f h) = h_ip h" "\<And>h. h_first (f h) = h_first h"
      "\<And>h. h_last h \<le> h_last (f h)"
  shows "wf_tables (t\<lparr>hosts := map f (hosts t)\<rparr>)"
proof -
  have "host_ids (t\<lparr>hosts := map f (hosts t)\<rparr>) = host_ids t"
    by (simp add: host_ids_def image_comp_id f)
  moreover have "h_first h \<le> h_last (f h)" if "h_first h \<le> h_last h" for h
    using that f(4) [of h] by simp
  ultimately show ?thesis
    using assms(1) f by (simp add: wf_defs map_comp_id)
qed

lemma wf_sql_upsert_host [wf_intros]: "stmt_keeps wf_tables (sql_upsert_host ip seenAt)"
proof (rule stmt_keepsI)
  fix t i t'
  assume wf: "wf_tables t" and eq: "sql_upsert_host ip seenAt t = Inr (i, t')"
  show "wf_tables t'"
  proof (cases "find (\<lambda>h. h_ip h = ip) (hosts t)")
    case (Some h)
    with eq have "t' = t\<lparr>hosts := map (\<lambda>x. if h_ip x = ip then x\<lparr>h_last := max (h_last x) seenAt\<rparr> else x) (hosts t)\<rparr>"
      by (simp add: sql_upsert_host_def)
    then show ?thesis using wf by (simp add: wf_map_hosts)
  next
    case None
    then have "ip \<notin> h_ip ` set (hosts t)" by (auto simp: find_None_iff)
    moreover have "host_seq t \<notin> h_id ` set (hosts t)" and "\<forall>h \<in> set (hosts t). h_id h \<le> host_seq t"
      using wf by (auto simp: wf_tables_def wf_hosts_def dest!: bspec)
    moreover have "host_ids t' = insert (host_seq t) (host_ids t)"
      using eq None by (auto simp: sql_upsert_host_def host_ids_def)
    moreover have "\<forall>g. key_refs (insert (host_seq t) (host_ids t)) (rollups t g)"
      using wf by (simp add: wf_tables_def wf_refs_def key_refs_insert)
    ultimately show ?thesis
      using wf eq None
      by (auto simp: sql_upsert_host_def wf_defs intro: key_refs_insert)
  qed
qed

lemma wf_sql_set_host_mac [wf_intros]: "stmt_keeps wf_tables (sql_set_host_mac i mac)"
  by (rule stmt_keepsI) (auto simp: sql_set_host_mac_def intro!: wf_map_hosts)

lemma wf_sql_set_display_name [wf_intros]: "wf_tables t \<Longrightarrow> wf_tables (sql_set_display_name mac hostname t)"
  by (auto simp: sql_set_display_name_def intro!: wf_map_hosts)

lemma wf_insertFlowChunk [wf_intros]: "tx_keeps wf_tables (insertFlowChunk rs)"
  by (auto simp: tx_keeps_def insertFlowChunk_def wf_defs list_all_iff split: if_splits)

lemma wf_insertDNSChunk [wf_intros]: "tx_keeps wf_tables (insertDNSChunk rs)"
  by (auto simp: tx_keeps_def insertDNSChunk_def wf_defs list_all_iff split: if_splits)

lemma wf_filter_flows [wf_intros]: "wf_tables t \<Longrightarrow> wf_tables (t\<lparr>flows_recent := filter P (flows_recent t)\<rparr>)"
  by (auto simp: wf_defs)

lemma wf_filter_dns [wf_intros]: "wf_tables t \<Longrightarrow> wf_tables (t\<lparr>dns_queries := filter P (dns_queries t)\<rparr>)"
  by (auto simp: wf_defs)

lemma wf_sql_upsert_dhcp [wf_intros]: "wf_tables t \<Longrightarrow> wf_tables (sql_upsert_dhcp mac n s t)"
  by (simp add: wf_defs sql_upsert_dhcp_def distinct_upsert)

lemma wf_sql_set_setting [wf_intros]: "wf_tables t \<Longrightarrow> wf_tables (sql_set_setting kv t)"
  by (simp add: wf_defs sql_set_setting_def distinct_upsert)

lemma wf_sql_upsert_peer [wf_intros]: "stmt_keeps wf_tables (sql_upsert_peer h ip p s)"
  by (rule stmt_keepsI) (auto simp: sql_upsert_peer_def wf_defs distinct_upsert split: if_splits)

lemma wf_sql_insert_alert [wf_intros]: "stmt_keeps wf_tables (sql_insert_alert a)"
proof (rule stmt_keepsI)
  fix t u t'
  assume wf: "wf_tables t" and eq: "sql_insert_alert a t = Inr (u, t')"
  have "alert_seq t \<notin> ar_id ` set (alerts t)" and "\<forall>b \<in> set (alerts t). ar_id b \<le> alert_seq t"
    using wf by (auto simp: wf_tables_def wf_alerts_def dest!: bspec)
  then show "wf_tables t'"
    using wf eq by (auto simp: sql_insert_alert_def wf_defs intro: order_less_imp_le split: if_splits)
qed

lemma wf_map_alerts [wf_intros]:
  assumes "wf_tables t" and f: "\<And>a. ar_id (f a) = ar_id a" "\<And>a. ar_rec (f a) = ar_rec a"
  shows "wf_tables (t\<lparr>alerts := map f (alerts t)\<rparr>)"
  using assms by (simp add: wf_defs map_comp_id)

lemma wf_sql_create_user [wf_intros]: "stmt_keeps wf_tables (sql_create_user n h r c)"
proof (rule stmt_keepsI)
  fix t i t'
  assume wf: "wf_tables t" and eq: "sql_create_user n h r c t = Inr (i, t')"
  have "user_seq t \<notin> u_id ` set (users t)" and "\<forall>u \<in> set (users t). u_id u \<le> user_seq t"
    using wf by (auto simp: wf_tables_def wf_users_def dest!: bspec)
  then show "wf_tables t'"
    using wf eq by (auto simp: sql_create_user_def wf_defs intro: order_less_imp_le split: if_splits)
qed

lemma wf_map_users:
  assumes "wf_tables t" and f: "\<And>u. u_id (f u) = u_id u" "\<And>u. u_name (f u) = u_name u"
  shows "wf_tables (t\<lparr>users := map f (users t)\<rparr>)"
  using assms(1) by (simp add: wf_defs map_comp_id image_comp_id f)

lemma wf_sql_update_role [wf_intros]: "wf_tables t \<Longrightarrow> wf_tables (sql_update_role i r t)"
  by (auto simp: sql_update_role_def intro!: wf_map_users)

lemma wf_sql_delete_user [wf_intros]: "wf_tables t \<Longrightarrow> wf_tables (sql_delete_user i t)"
  by (auto simp: sql_delete_user_def wf_defs distinct_map_filter)

lemma wf_sql_create_session [wf_intros]: "stmt_keeps wf_tables (sql_create_session k u c e)"
  by (rule stmt_keepsI) (auto simp: sql_create_session_def wf_defs split: if_splits)

lemma wf_map_sessions:
  assumes "wf_tables t" and f: "\<And>s. s_token (f s) = s_token s" "\<And>s. s_user (f s) = s_user s"
  shows "wf_tables (t\<lparr>sessions := map f (sessions t)\<rparr>)"
  using assms(1) by (simp add: wf_defs map_comp_id f)

lemma wf_sql_elevate_session [wf_intros]: "wf_tables t \<Longrightarrow> wf_tables (sql_elevate_session k e t)"
  by (auto simp: sql_elevate_session_def intro!: wf_map_sessions)

lemma wf_filter_sessions [wf_intros]: "wf_tables t \<Longrightarrow> wf_tables (t\<lparr>sessions := filter P (sessions t)\<rparr>)"
  by (auto simp: wf_defs distinct_map_filter)

section \<open>The keyed tables\<close>

interpretation settings_table: keyed_table sql_set_setting "\<lambda>t. map_of (settings t)" fst "\<lambda>kv _. snd kv" "\<lambda>_. True"
  by unfold_locales (simp_all add: sql_set_setting_def map_of_upsert)

interpretation dhcp_table: keyed_table "\<lambda>(mac, name, seen). sql_upsert_dhcp mac name seen"
  "\<lambda>t. map_of (dhcp_hostnames t)" fst "\<lambda>a _. snd a" "\<lambda>_. True"
  by unfold_locales (auto simp: sql_upsert_dhcp_def map_of_upsert)

lemma tx_fold_set_settings:
  "tx_fold (map (\<lambda>p t. Inr (sql_set_setting p t)) kv) t = Inr (fold sql_set_setting kv t)"
  by (induction kv arbitrary: t) simp_all

lemma SetSettings_ok:
  "db_faults d = [] \<Longrightarrow> SetSettings kv d = (Inr (), d\<lparr>tbl := fold sql_set_setting kv (tbl d)\<rparr>)"
  by (simp add: SetSettings_def run_tx_ok tx_fold_set_settings)

lemma map_of_fold_settings:
  assumes "distinct (map fst kv)"
  shows "map_of (settings (fold sql_set_setting kv t)) = map_of (settings t) ++ map_of kv"
proof
  fix k
  show "map_of (settings (fold sql_set_setting kv t)) k = (map_of (settings t) ++ map_of kv) k"
  proof (cases "k \<in> fst ` set kv")
    case True
    then obtain v where kv: "(k, v) \<in> set kv" by auto
    then have "map_of kv k = Some v" using assms by simp
    then show ?thesis
      using settings_table.look_fold_distinct [OF TrueI assms kv, of t] by simp
  next
    case False
    then show ?thesis
      using settings_table.look_fold_absent [OF TrueI False, of t]
      by (simp add: map_add_dom_app_simps(3) dom_map_of_conv_image_fst)
  qed
qed

section \<open>Properties\<close>

text \<open>C14: \<open>InsertFlows\<close> is atomic under every failure schedule: it either reports an error and
  leaves all tables as they were, or reports success and has appended exactly the given
  records, in order, in spite of the chunked statements; and a success means every record
  refers to a stored host.\<close>

theorem InsertFlows_atomic:
  "(\<exists>e. fst (InsertFlows rs d) = Inl e \<and> tbl (snd (InsertFlows rs d)) = tbl d)
   \<or> (fst (InsertFlows rs d) = Inr ()
      \<and> list_all (\<lambda>r. f_host r \<in> host_ids (tbl d)) rs
      \<and> tbl (snd (InsertFlows rs d)) = (tbl d)\<lparr>flows_recent := flows_recent (tbl d) @ rs\<rparr>)"
proof (cases "rs = []")
  case True
  then show ?thesis by (simp add: InsertFlows_def)
next
  case False
  show ?thesis
  proof (cases rule: run_tx_cases [of "map insertFlowChunk (chunk flowInsertChunk rs)" d])
    case fail
    then show ?thesis using False by (auto simp: InsertFlows_def)
  next
    case success
    then show ?thesis
      using False
      by (auto simp: InsertFlows_def tx_fold_insertFlowChunks concat_chunk flowInsertChunk_def split: if_splits)
  qed
qed

text \<open>Settings round trip. After a successful \<open>SetSettings\<close>, \<open>AllSettings\<close> returns the
  stored settings overridden by the submitted ones, whatever order the map was iterated in.\<close>

theorem SetSettings_AllSettings:
  assumes "db_faults d = []" and "distinct (map fst kv)"
  shows "fst (AllSettings (snd (SetSettings kv d))) = Inr (map_of (settings (tbl d)) ++ map_of kv)"
  using assms by (simp add: SetSettings_ok AllSettings_def map_of_fold_settings)

theorem SetSettings_AllSettings_witness:
  "fst (AllSettings (snd (SetSettings [(''a'', ''1''), (''b'', ''2'')] \<lparr>tbl = empty_tables, db_faults = []\<rparr>)))
   = Inr (map_of (settings empty_tables) ++ map_of [(''a'', ''1''), (''b'', ''2'')])"
  using SetSettings_AllSettings [of "\<lparr>tbl = empty_tables, db_faults = []\<rparr>" "[(''a'', ''1''), (''b'', ''2'')]"]
  by simp

text \<open>\<open>UpsertHost\<close> identifies a host by its address: the id it returns belongs to a row
  with that address, first sightings are never rewritten, \<open>last_seen\<close> never goes back, and
  no other host changes.\<close>

theorem UpsertHost_correct:
  assumes "wf_tables (tbl d)" and "UpsertHost ip s d = (Inr i, d')"
  shows "(\<exists>h \<in> set (hosts (tbl d')). h_id h = i \<and> h_ip h = ip \<and> s \<le> h_last h)
         \<and> (\<forall>h \<in> set (hosts (tbl d)). \<exists>h' \<in> set (hosts (tbl d')).
               h_id h' = h_id h \<and> h_ip h' = h_ip h \<and> h_first h' = h_first h \<and> h_mac h' = h_mac h
               \<and> h_display h' = h_display h
               \<and> h_last h' = (if h_ip h = ip then max (h_last h) s else h_last h))"
proof -
  let ?f = "\<lambda>x. if h_ip x = ip then x\<lparr>h_last := max (h_last x) s\<rparr> else x"
  have st: "sql_upsert_host ip s (tbl d) = Inr (i, tbl d')"
    using assms(2) by (cases rule: exec_cases [of "sql_upsert_host ip s" d]) (auto simp: UpsertHost_def)
  show ?thesis
  proof (cases "find (\<lambda>h. h_ip h = ip) (hosts (tbl d))")
    case None
    then have "tbl d' = (tbl d)\<lparr>hosts := hosts (tbl d) @ [\<lparr>h_id = i, h_ip = ip, h_display = None,
        h_mac = None, h_first = s, h_last = s\<rparr>], host_seq := host_seq (tbl d) + 1\<rparr>"
      using st by (auto simp: sql_upsert_host_def)
    moreover have "ip \<notin> h_ip ` set (hosts (tbl d))"
      using None by (auto simp: find_None_iff)
    ultimately show ?thesis by auto
  next
    case (Some h)
    then have h: "tbl d' = (tbl d)\<lparr>hosts := map ?f (hosts (tbl d))\<rparr>" "i = h_id h"
      using st by (auto simp: sql_upsert_host_def)
    have "h_ip h = ip" "h \<in> set (hosts (tbl d))"
      using find_SomeD [OF Some] by auto
    moreover have "\<forall>x \<in> set (hosts (tbl d)). ?f x \<in> set (hosts (tbl d'))"
      using h by auto
    ultimately show ?thesis
      unfolding h(2)
      by (intro conjI ballI) (rule bexI [of _ "?f h"], simp, blast, rule bexI [of _ "?f _"], auto)
  qed
qed

theorem UpsertHost_correct_witness:
  "let d = \<lparr>tbl = empty_tables, db_faults = []\<rparr>; d' = snd (UpsertHost ''10.0.0.1'' 5 d) in
     \<exists>h \<in> set (hosts (tbl d')). h_id h = 1 \<and> h_ip h = ''10.0.0.1'' \<and> 5 \<le> h_last h"
proof -
  let ?d = "\<lparr>tbl = empty_tables, db_faults = []\<rparr>"
  have "UpsertHost ''10.0.0.1'' 5 ?d = (Inr 1, snd (UpsertHost ''10.0.0.1'' 5 ?d))"
    by (simp add: UpsertHost_def exec_ok sql_upsert_host_def empty_tables_def)
  from UpsertHost_correct [OF _ this] show ?thesis
    by (simp add: wf_empty_tables Let_def)
qed

text \<open>Deleting a user ends every session of that user: no token of theirs resolves to a
  session afterwards, and the sessions of all other users resolve as before.\<close>

theorem DeleteUser_ends_sessions:
  assumes "wf_tables (tbl d)" and "DeleteUser i d = (Inr (), d')"
  shows "session_of (tbl d') token
         = (case session_of (tbl d) token of
              None \<Rightarrow> None
            | Some s \<Rightarrow> if ss_user s = i then None else Some s)"
proof -
  have t': "tbl d' = sql_delete_user i (tbl d)"
    using assms(2) by (cases rule: exec_cases [of "\<lambda>t. Inr ((), sql_delete_user i t)" d]) (auto simp: DeleteUser_def)
  have dt: "distinct (map s_token (sessions (tbl d)))"
    using assms(1) by (simp add: wf_defs)
  have fs: "find (\<lambda>s. s_token s = token) (filter (\<lambda>s. s_user s \<noteq> i) ss)
      = (case find (\<lambda>s. s_token s = token) ss of None \<Rightarrow> None | Some s \<Rightarrow> if s_user s = i then None else Some s)"
    if "distinct (map s_token ss)" for ss
    using that
  proof (induction ss)
    case (Cons x xs)
    then have "s_token x \<notin> s_token ` set xs" by simp
    then have "find (\<lambda>s. s_token s = s_token x) (filter (\<lambda>s. s_user s \<noteq> i) xs) = None"
      by (auto simp: find_None_iff) (metis imageI)
    with Cons show ?case by auto
  qed simp
  have fu: "j \<noteq> i \<Longrightarrow> find (\<lambda>u. u_id u = j) (filter (\<lambda>u. u_id u \<noteq> i) us) = find (\<lambda>u. u_id u = j) us" for j us
    by (induction us) auto
  show ?thesis
    by (cases "find (\<lambda>s. s_token s = token) (sessions (tbl d))")
      (auto simp: t' session_of_def sql_delete_user_def fs [OF dt] fu split: option.split)
qed

theorem DeleteUser_ends_sessions_witness:
  "let u = \<lparr>u_id = 1, u_name = ''a'', u_hash = [], u_role = RoleAdmin, u_created = 0\<rparr>;
       s = \<lparr>s_token = ''k'', s_user = 1, s_created = 0, s_expires = 9, s_elevated = None\<rparr>;
       d = \<lparr>tbl = empty_tables\<lparr>users := [u], user_seq := 2, sessions := [s]\<rparr>, db_faults = []\<rparr>
   in session_of (tbl d) ''k'' \<noteq> None \<and> session_of (tbl (snd (DeleteUser 1 d))) ''k'' = None"
proof -
  let ?u = "\<lparr>u_id = 1, u_name = ''a'', u_hash = [], u_role = RoleAdmin, u_created = 0\<rparr>"
  let ?s = "\<lparr>s_token = ''k'', s_user = 1, s_created = 0, s_expires = 9, s_elevated = None\<rparr>"
  let ?d = "\<lparr>tbl = empty_tables\<lparr>users := [?u], user_seq := 2, sessions := [?s]\<rparr>, db_faults = []\<rparr>"
  have "wf_tables (tbl ?d)"
    by (simp add: wf_defs empty_tables_def)
  moreover have "DeleteUser 1 ?d = (Inr (), snd (DeleteUser 1 ?d))"
    by (simp add: DeleteUser_def exec_ok)
  ultimately show ?thesis
    using DeleteUser_ends_sessions [of ?d 1 "snd (DeleteUser 1 ?d)" "''k''"]
    by (simp add: Let_def session_of_def empty_tables_def)
qed

text \<open>A DHCP hostname learned before the host's own traffic is not applied: with the name
  already stored for the MAC address, creating the host row and then recording that MAC leaves
  the host without a display name, although \<open>HostnameByMAC\<close> still knows it.\<close>

theorem dhcp_name_before_traffic_not_applied:
  assumes "ip \<notin> h_ip ` set (hosts (tbl d))"
    and dhcp: "UpsertDHCPHostname mac name seen d = (Inr (), d1)"
    and host: "UpsertHost ip now d1 = (Inr i, d2)"
    and setmac: "SetHostMAC i mac d2 = (Inr (), d3)"
  shows "map_option fst (map_of (dhcp_hostnames (tbl d3)) mac) = Some name
         \<and> (\<exists>h \<in> set (hosts (tbl d3)). h_ip h = ip \<and> h_mac h = Some mac \<and> h_display h = None)"
proof -
  have t1: "tbl d1 = sql_set_display_name mac name (sql_upsert_dhcp mac name seen (tbl d))"
    using run_tx_InrD [OF dhcp [unfolded UpsertDHCPHostname_def]] by simp
  have "map h_ip (hosts (tbl d1)) = map h_ip (hosts (tbl d))"
    by (simp add: t1 sql_set_display_name_def sql_upsert_dhcp_def)
  then have "h_ip ` set (hosts (tbl d1)) = h_ip ` set (hosts (tbl d))"
    by (metis list.set_map)
  then have "find (\<lambda>h. h_ip h = ip) (hosts (tbl d1)) = None"
    using assms(1) by (auto simp: find_None_iff)
  then have t2: "tbl d2 = (tbl d1)\<lparr>hosts := hosts (tbl d1) @ [\<lparr>h_id = i, h_ip = ip, h_display = None,
      h_mac = None, h_first = now, h_last = now\<rparr>], host_seq := host_seq (tbl d1) + 1\<rparr>"
    using exec_InrD [OF host [unfolded UpsertHost_def]] by (auto simp: sql_upsert_host_def)
  have t3: "Inr ((), tbl d3) = sql_set_host_mac i mac (tbl d2)"
    using exec_InrD [OF setmac [unfolded SetHostMAC_def]] by simp
  have "map_of (dhcp_hostnames (tbl d1)) mac = Some (name, seen)"
    by (simp add: t1 sql_set_display_name_def sql_upsert_dhcp_def map_of_upsert)
  then show ?thesis
    using t2 t3 by (simp add: sql_set_host_mac_def)
qed

theorem dhcp_name_before_traffic_not_applied_witness:
  "\<exists>d1 d2 d3.
     UpsertDHCPHostname ''aa:bb'' ''laptop'' 1 \<lparr>tbl = empty_tables, db_faults = []\<rparr> = (Inr (), d1)
     \<and> UpsertHost ''10.0.0.1'' 2 d1 = (Inr 1, d2) \<and> SetHostMAC 1 ''aa:bb'' d2 = (Inr (), d3)
     \<and> (\<exists>h \<in> set (hosts (tbl d3)). h_ip h = ''10.0.0.1'' \<and> h_mac h = Some ''aa:bb'' \<and> h_display h = None)"
proof -
  let ?d = "\<lparr>tbl = empty_tables, db_faults = []\<rparr>"
  let ?d1 = "snd (UpsertDHCPHostname ''aa:bb'' ''laptop'' 1 ?d)"
  let ?d2 = "snd (UpsertHost ''10.0.0.1'' 2 ?d1)"
  let ?d3 = "snd (SetHostMAC 1 ''aa:bb'' ?d2)"
  have 1: "UpsertDHCPHostname ''aa:bb'' ''laptop'' 1 ?d = (Inr (), ?d1)"
    by (rule fst_eqD) code_simp
  have 2: "UpsertHost ''10.0.0.1'' 2 ?d1 = (Inr 1, ?d2)"
    by (rule fst_eqD) code_simp
  have 3: "SetHostMAC 1 ''aa:bb'' ?d2 = (Inr (), ?d3)"
    by (rule fst_eqD) code_simp
  have "''10.0.0.1'' \<notin> h_ip ` set (hosts (tbl ?d))" by (simp add: empty_tables_def)
  from dhcp_name_before_traffic_not_applied [OF this 1 2 3] 1 2 3 show ?thesis by blast
qed

end
