(* ===== verification/Go_Net.thy ===== *)
theory Go_Net
  imports Go_Strings
begin

text \<open>
  What the program uses of Go's \<open>net\<close> and \<open>encoding/binary\<close>: \<open>net.IP\<close> as a
  byte list (4 or 16 bytes; the empty list is \<open>nil\<close>), its \<open>To4\<close>, \<open>Equal\<close>,
  \<open>IsUnspecified\<close> and \<open>String\<close>, \<open>net.IPNet.Contains\<close>, \<open>net.ParseIP\<close>
  (dotted IPv4 and IPv6 with its double colon), \<open>net.HardwareAddr.String\<close>, and
  \<open>binary.BigEndian\<close> on 32-bit words. The lemmas are the round trips the components rely on.
\<close>

unbundle bit_operations_syntax

section \<open>net.IP\<close>

type_synonym ip = "byte list"

definition v4InV6Prefix :: "byte list" where
  "v4InV6Prefix = replicate 10 0 @ [0xff, 0xff]"

definition To4 :: "ip \<Rightarrow> ip option" where
  "To4 a = (if length a = 4 then Some a
            else if length a = 16 \<and> take 12 a = v4InV6Prefix then Some (drop 12 a)
            else None)"

definition ip_equal :: "ip \<Rightarrow> ip \<Rightarrow> bool" where
  "ip_equal a x =
     (if length a = length x then a = x
      else if length a = 4 \<and> length x = 16 then take 12 x = v4InV6Prefix \<and> a = drop 12 x
      else if length a = 16 \<and> length x = 4 then take 12 a = v4InV6Prefix \<and> drop 12 a = x
      else False)"

definition IPv4bcast :: ip where
  "IPv4bcast = v4InV6Prefix @ [255, 255, 255, 255]"

definition IPv4zero :: ip where
  "IPv4zero = v4InV6Prefix @ [0, 0, 0, 0]"

definition IPv6unspecified :: ip where
  "IPv6unspecified = replicate 16 0"

definition IsUnspecified :: "ip \<Rightarrow> bool" where
  "IsUnspecified a \<longleftrightarrow> ip_equal a IPv4zero \<or> ip_equal a IPv6unspecified"

record IPNet =
  net_ip :: ip
  net_mask :: "byte list"

definition networkNumberAndMask :: "IPNet \<Rightarrow> ip \<times> byte list" where
  "networkNumberAndMask n =
     (case To4 (net_ip n) of
        Some a4 \<Rightarrow> (if length (net_mask n) = 4 then (a4, net_mask n)
                    else if length (net_mask n) = 16 then (a4, drop 12 (net_mask n))
                    else ([], []))
      | None \<Rightarrow> (if length (net_ip n) = 16 \<and> length (net_mask n) = 16
                 then (net_ip n, net_mask n) else ([], [])))"

definition Contains :: "IPNet \<Rightarrow> ip \<Rightarrow> bool" where
  "Contains n a =
     (let (nn, m) = networkNumberAndMask n;
          b = (case To4 a of Some x \<Rightarrow> x | None \<Rightarrow> a)
      in length b = length nn \<and> list_all (\<lambda>i. nn ! i AND m ! i = b ! i AND m ! i) [0 ..< length b])"

section \<open>Printing addresses\<close>

definition hex_digit :: "nat \<Rightarrow> char" where
  "hex_digit d = (if d < 10 then char_of (48 + d) else char_of (87 + d))"

fun hex_str :: "nat \<Rightarrow> string" where
  "hex_str n = (if n < 16 then [hex_digit n] else hex_str (n div 16) @ [hex_digit (n mod 16)])"

declare hex_str.simps [simp del]

definition hex_byte :: "byte \<Rightarrow> string" where
  "hex_byte b = [hex_digit (unat b div 16), hex_digit (unat b mod 16)]"

definition ip4_string :: "byte list \<Rightarrow> string" where
  "ip4_string bs = join_with CHR ''.'' (map (\<lambda>b. nat_str (unat b)) bs)"

definition ip6_groups :: "byte list \<Rightarrow> nat list" where
  "ip6_groups a = map (\<lambda>i. 256 * unat (a ! (2 * i)) + unat (a ! (2 * i + 1))) [0 ..< 8]"

definition zero_run :: "nat list \<Rightarrow> nat \<Rightarrow> nat" where
  "zero_run gs i = length (takeWhile (\<lambda>g. g = 0) (drop i gs))"

definition ip6_zeros :: "nat list \<Rightarrow> nat \<times> nat" where
  \<comment> \<open>start and end of the longest run of at least two zero groups, the first one on a tie;
      (255, 255) when there is none\<close>
  "ip6_zeros gs =
     fold (\<lambda>i (zs, ze). if 2 \<le> zero_run gs i \<and> ze - zs < zero_run gs i
                        then (i, i + zero_run gs i) else (zs, ze))
       [0 ..< 8] (255, 255)"

definition ip6_string :: "byte list \<Rightarrow> string" where
  "ip6_string a =
     (let gs = ip6_groups a; (zs, ze) = ip6_zeros gs
      in if zs = 255 then join_with CHR '':'' (map hex_str gs)
         else join_with CHR '':'' (map hex_str (take zs gs)) @ ''::''
              @ join_with CHR '':'' (map hex_str (drop ze gs)))"

definition ip_string :: "ip \<Rightarrow> string" where
  "ip_string a =
     (if a = [] then ''<nil>''
      else if length a \<noteq> 4 \<and> length a \<noteq> 16 then CHR ''?'' # concat (map hex_byte a)
      else (case To4 a of Some a4 \<Rightarrow> ip4_string a4 | None \<Rightarrow> ip6_string a))"

definition mac_string :: "byte list \<Rightarrow> string" where
  "mac_string m = join_with CHR '':'' (map hex_byte m)"

section \<open>Parsing addresses\<close>

definition parse_octet :: "string \<Rightarrow> byte option" where
  "parse_octet s =
     (if s = [] \<or> (1 < length s \<and> hd s = CHR ''0'') then None
      else (case digits_val 0 s of
              None \<Rightarrow> None
            | Some n \<Rightarrow> if n \<le> 255 then Some (of_nat n) else None))"

fun all_some :: "'a option list \<Rightarrow> 'a list option" where
  "all_some [] = Some []"
| "all_some (None # xs) = None"
| "all_some (Some x # xs) = map_option ((#) x) (all_some xs)"

definition parse_ip4 :: "string \<Rightarrow> byte list option" where
  "parse_ip4 s =
     (let fs = split_on CHR ''.'' s
      in if length fs = 4 then all_some (map parse_octet fs) else None)"

definition hex_val :: "char \<Rightarrow> nat option" where
  "hex_val c =
     (let n = of_char c :: nat
      in if 48 \<le> n \<and> n \<le> 57 then Some (n - 48)
         else if 97 \<le> n \<and> n \<le> 102 then Some (n - 87)
         else if 65 \<le> n \<and> n \<le> 70 then Some (n - 55)
         else None)"

definition hex_group :: "string \<Rightarrow> nat" where
  "hex_group ds = foldl (\<lambda>acc c. acc * 16 + the (hex_val c)) 0 ds"

text \<open>
  The group loop of \<open>netip.parseIPv6\<close>. The first argument is how many 16-bit groups may
  still follow; \<open>ell\<close> is the offset of the double colon, if one was seen; the result is that
  offset, the bytes parsed so far and the rest of the string.
\<close>

fun parse_ip6_loop ::
  "nat \<Rightarrow> nat option \<Rightarrow> byte list \<Rightarrow> string \<Rightarrow> (nat option \<times> byte list \<times> string) option" where
  "parse_ip6_loop 0 ell acc s = Some (ell, acc, s)"
| "parse_ip6_loop (Suc k) ell acc s =
     (let ds = takeWhile (\<lambda>c. hex_val c \<noteq> None) s;
          rest = drop (length ds) s;
          acc' = acc @ [of_nat (hex_group ds div 256), of_nat (hex_group ds mod 256)]
      in if 4 < length ds \<or> ds = [] then None
         else if rest \<noteq> [] \<and> hd rest = CHR ''.'' then
           (if (ell = None \<and> length acc \<noteq> 12) \<or> 16 < length acc + 4 then None
            else (case parse_ip4 s of None \<Rightarrow> None | Some fs \<Rightarrow> Some (ell, acc @ fs, [])))
         else if rest = [] then Some (ell, acc', [])
         else if hd rest \<noteq> CHR '':'' \<or> length rest = 1 then None
         else if hd (tl rest) = CHR '':'' then
           (if ell \<noteq> None then None
            else if tl (tl rest) = [] then Some (Some (length acc'), acc', [])
            else parse_ip6_loop k (Some (length acc')) acc' (tl (tl rest)))
         else parse_ip6_loop k ell acc' (tl rest))"

definition parse_ip6 :: "string \<Rightarrow> byte list option" where
  "parse_ip6 s =
     (if s = ''::'' then Some (replicate 16 0)
      else
        (let (ell0, s0) = (if take 2 s = ''::'' then (Some 0, drop 2 s) else (None, s))
         in case parse_ip6_loop 8 ell0 [] s0 of
              None \<Rightarrow> None
            | Some (ell, acc, rest) \<Rightarrow>
                if rest \<noteq> [] then None
                else if length acc < 16 then
                  (case ell of
                     None \<Rightarrow> None
                   | Some e \<Rightarrow> Some (take e acc @ replicate (16 - length acc) 0 @ drop e acc))
                else (if ell \<noteq> None then None else Some acc)))"

definition ParseIP :: "string \<Rightarrow> ip option" where
  "ParseIP s =
     (if CHR ''%'' \<in> set s then None
      else (case find (\<lambda>c. c = CHR ''.'' \<or> c = CHR '':'') s of
              None \<Rightarrow> None
            | Some c \<Rightarrow> if c = CHR ''.'' then map_option ((@) v4InV6Prefix) (parse_ip4 s)
                        else parse_ip6 s))"

section \<open>binary.BigEndian\<close>

fun be_uint32 :: "byte list \<Rightarrow> 32 word" where
  "be_uint32 [b0, b1, b2, b3] =
     (push_bit 24 (ucast b0) OR push_bit 16 (ucast b1) OR push_bit 8 (ucast b2) OR ucast b3)"
| "be_uint32 _ = 0"

definition put_uint32 :: "32 word \<Rightarrow> byte list" where
  "put_uint32 v = [ucast (drop_bit 24 v), ucast (drop_bit 16 v), ucast (drop_bit 8 v), ucast v]"

lemma length_put_uint32 [simp]: "length (put_uint32 v) = 4"
  by (simp add: put_uint32_def)

lemma be_put_uint32 [simp]: "be_uint32 (put_uint32 v) = v"
proof (rule bit_word_eqI)
  fix n
  assume "n < LENGTH(32)"
  then show "bit (be_uint32 (put_uint32 v)) n = bit v n"
    by (cases "n < 8"; cases "n < 16"; cases "n < 24") (auto simp: put_uint32_def bit_simps)
qed

section \<open>Round trips\<close>

lemma all_some_map_Some: "list_all (\<lambda>x. f x = Some (g x)) xs \<Longrightarrow> all_some (map f xs) = Some (map g xs)"
  by (induction xs) auto

lemma nat_str_leading_zero: "1 < length (nat_str n) \<Longrightarrow> hd (nat_str n) \<noteq> CHR ''0''"
proof (induction n rule: nat_str.induct)
  case (1 n)
  show ?case
  proof (cases "n < 100")
    case True
    have "\<not> n < 10"
      using "1.prems" by (auto simp: nat_str.simps [of n])
    with True have "n div 10 < 10" and "0 < n div 10" by auto
    then have "nat_str (n div 10) = [digit_char (n div 10)]" and "n div 10 \<in> {1..9}"
      by (auto simp: nat_str.simps [of "n div 10"])
    moreover have "digit_char (n div 10) \<noteq> CHR ''0''"
      using \<open>n div 10 < 10\<close> \<open>0 < n div 10\<close> digit_val_digit_char [of "n div 10"]
      by (auto simp: digit_val_def)
    ultimately show ?thesis
      using \<open>\<not> n < 10\<close> by (simp add: nat_str.simps [of n])
  next
    case False
    then have "\<not> n div 10 < 10" by auto
    then have "1 < length (nat_str (n div 10))"
      by (cases "nat_str (n div 10 div 10)") (auto simp: nat_str.simps [of "n div 10"])
    then show ?thesis
      using "1.IH" False by (simp add: nat_str.simps [of n])
  qed
qed

lemma parse_octet_nat_str [simp]: "parse_octet (nat_str (unat (b :: byte))) = Some b"
proof -
  have "unat b < 2 ^ LENGTH(8)" by (rule unsigned_less)
  then have "unat b \<le> 255" by simp
  moreover have "\<not> (1 < length (nat_str (unat b)) \<and> hd (nat_str (unat b)) = CHR ''0'')"
    using nat_str_leading_zero by blast
  ultimately show ?thesis by (simp add: parse_octet_def)
qed

lemma parse_ip4_string [simp]: "length bs = 4 \<Longrightarrow> parse_ip4 (ip4_string bs) = Some bs"
proof -
  assume l: "length bs = 4"
  have "split_on CHR ''.'' (ip4_string bs) = map (\<lambda>b. nat_str (unat b)) bs"
    unfolding ip4_string_def using l
    by (intro split_on_join) (auto simp: list_all_iff nat_str_no_sep isDigit_def)
  then show ?thesis
    using l all_some_map_Some [of "\<lambda>b. parse_octet (nat_str (unat b))" id bs]
    by (simp add: parse_ip4_def comp_def list_all_iff)
qed

lemma join_with_cons: "ps \<noteq> [] \<Longrightarrow> join_with c (p # ps) = p @ c # join_with c ps"
  by (cases ps) auto

lemma set_join_with: "set (join_with c ps) \<subseteq> insert c (\<Union> (set ` set ps))"
  by (induction c ps rule: join_with.induct) auto

lemma ip4_string_chars: "set (ip4_string bs) \<subseteq> insert CHR ''.'' {c. isDigit c}"
  using set_join_with [of "CHR ''.''" "map (\<lambda>b. nat_str (unat b)) bs"] nat_str_digits
  by (fastforce simp: ip4_string_def list_all_iff)

lemma ParseIP_ip4_string:
  assumes "length bs = 4"
  shows "ParseIP (ip4_string bs) = Some (v4InV6Prefix @ bs)"
proof -
  have chars: "c \<in> set (ip4_string bs) \<Longrightarrow> c = CHR ''.'' \<or> isDigit c" for c
    using ip4_string_chars [of bs] by auto
  then have pct: "CHR ''%'' \<notin> set (ip4_string bs)"
    by (force simp: isDigit_def)
  obtain b bs' where "bs = b # bs'" "bs' \<noteq> []"
    using assms by (cases bs) force+
  then have dot: "CHR ''.'' \<in> set (ip4_string bs)"
    by (simp add: ip4_string_def join_with_cons)
  have "find (\<lambda>c. c = CHR ''.'' \<or> c = CHR '':'') (ip4_string bs) = Some CHR ''.''"
  proof (cases "find (\<lambda>c. c = CHR ''.'' \<or> c = CHR '':'') (ip4_string bs)")
    case None
    with dot show ?thesis by (auto simp: find_None_iff)
  next
    case (Some c)
    then have "c = CHR ''.'' \<or> c = CHR '':''" and "c \<in> set (ip4_string bs)"
      using find_SomeD by fastforce+
    with chars have "c = CHR ''.''" by (force simp: isDigit_def)
    with Some show ?thesis by simp
  qed
  with pct assms show ?thesis by (simp add: ParseIP_def)
qed

lemma To4_v4_mapped [simp]: "length bs = 4 \<Longrightarrow> To4 (v4InV6Prefix @ bs) = Some bs"
  by (simp add: To4_def v4InV6Prefix_def)

lemma ip_string_v4: "length bs = 4 \<Longrightarrow> ip_string bs = ip4_string bs"
  by (auto simp: ip_string_def To4_def)

lemma ip4_string_inj: "length a = 4 \<Longrightarrow> length b = 4 \<Longrightarrow> ip4_string a = ip4_string b \<Longrightarrow> a = b"
  by (metis option.inject parse_ip4_string)

lemma To4_length: "To4 a = Some b \<Longrightarrow> length b = 4"
  by (auto simp: To4_def split: if_splits)

end
