(* ===== verification/Capture_Decode.thy ===== *)
theory Capture_Decode
  imports Store_Ops Go_Net
begin

text \<open>
  Package \<open>capture\<close>, from the wire to flow events: \<open>capture.go\<close> (the event types),
  \<open>bpf.go\<close> (the kernel filter, as the list of instructions it is) and \<open>decode.go\<close>.

  Parsing the layers of a frame, DNS messages and DHCP messages is the work of gopacket, which is
  not part of the repository: the three parsers are the fields of \<open>decode_env\<close>, arguments of the
  definitions. A \<open>DecodingLayerParser\<close> writes into the layer structures of the decoder, which
  keep their old contents for layers that are not found; so the parser maps the state of these
  structures to their new state. Executing a BPF program is the kernel's work: \<open>bpf_semantics\<close>
  states the documented meaning of the four instructions used.
\<close>

section \<open>capture.go\<close>

record RawPacket =
  pkt_data :: "byte list"
  pkt_ts :: gotime

record FlowKey =
  k_dir :: int
  k_proto :: int
  k_lip :: string
  k_lport :: int
  k_rip :: string
  k_rport :: int

record FlowEvent =
  e_key :: FlowKey
  e_ts :: gotime
  e_bytes :: int
  e_local_src :: bool
  e_mac :: string

record DNSQueryEvent =
  dq_lip :: string
  dq_name :: string
  dq_type :: int
  dq_ts :: gotime

record DHCPHostnameEvent =
  dh_mac :: string
  dh_name :: string
  dh_ts :: gotime

section \<open>bpf.go\<close>

datatype bpf_cond = JumpEqual | JumpNotEqual

datatype bpf_instr =
    LoadAbsolute (ld_off: nat) (ld_size: nat)
  | JumpIf bpf_cond (jmp_val: nat) (skip_true: nat) (skip_false: nat)
  | RetConstant (ret_val: nat)

definition snapLen :: nat where "snapLen = 262144"
definition etherTypeOff :: nat where "etherTypeOff = 12"
definition etherTypeIP4 :: nat where "etherTypeIP4 = 0x0800"
definition etherTypeVLAN :: nat where "etherTypeVLAN = 0x8100"
definition vlanInnerEtherTypeOff :: nat where "vlanInnerEtherTypeOff = 16"

definition CompileIPv4Filter :: "bpf_instr list" where
  "CompileIPv4Filter =
     [LoadAbsolute etherTypeOff 2,
      JumpIf JumpEqual etherTypeIP4 4 0,
      JumpIf JumpNotEqual etherTypeVLAN 2 0,
      LoadAbsolute vlanInnerEtherTypeOff 2,
      JumpIf JumpEqual etherTypeIP4 1 0,
      RetConstant 0,
      RetConstant snapLen]"

definition be16 :: "byte list \<Rightarrow> nat \<Rightarrow> nat" where
  "be16 bs off = 256 * unat (bs ! off) + unat (bs ! (off + 1))"

definition bpf_holds :: "bpf_cond \<Rightarrow> nat \<Rightarrow> nat \<Rightarrow> bool" where
  "bpf_holds c a v = (case c of JumpEqual \<Rightarrow> a = v | JumpNotEqual \<Rightarrow> a \<noteq> v)"

text \<open>
  What the documentation of classic BPF says of a machine \<open>run prog pc a bs\<close> (program, program
  counter, accumulator, packet; the result is the number of bytes to keep): a two-byte absolute
  load reads network order and rejects the packet when it lies outside, a jump skips by its
  condition, a return ends.
\<close>

definition bpf_semantics :: "(bpf_instr list \<Rightarrow> nat \<Rightarrow> nat \<Rightarrow> byte list \<Rightarrow> nat) \<Rightarrow> bool" where
  "bpf_semantics run \<longleftrightarrow>
     (\<forall>prog pc a bs off. pc < length prog \<longrightarrow> prog ! pc = LoadAbsolute off 2 \<longrightarrow>
        run prog pc a bs = (if off + 2 \<le> length bs then run prog (pc + 1) (be16 bs off) bs else 0))
     \<and> (\<forall>prog pc a bs c v t f. pc < length prog \<longrightarrow> prog ! pc = JumpIf c v t f \<longrightarrow>
          run prog pc a bs = run prog (pc + 1 + (if bpf_holds c a v then t else f)) a bs)
     \<and> (\<forall>prog pc a bs v. pc < length prog \<longrightarrow> prog ! pc = RetConstant v \<longrightarrow> run prog pc a bs = v)"

definition is_ipv4_frame :: "byte list \<Rightarrow> bool" where
  "is_ipv4_frame bs \<longleftrightarrow>
     14 \<le> length bs \<and> be16 bs 12 = 0x0800
     \<or> 18 \<le> length bs \<and> be16 bs 12 = 0x8100 \<and> be16 bs 16 = 0x0800"

section \<open>decode.go\<close>

definition dnsServicePort :: int where "dnsServicePort = 53"
definition dhcpServerPort :: int where "dhcpServerPort = 67"
definition dhcpClientPort :: int where "dhcpClientPort = 68"

datatype LayerType = LayerTypeEthernet | LayerTypeDot1Q | LayerTypeIPv4 | LayerTypeIPv6 | LayerTypeTCP
  | LayerTypeUDP | LayerTypeICMPv4 | LayerTypeICMPv6

text \<open>The layer structures of the decoder, and \<open>decoded\<close>, the layers of the last frame.\<close>

record layers =
  decoded :: "LayerType list"
  eth_src :: "byte list"
  eth_dst :: "byte list"
  ip4_src :: ip
  ip4_dst :: ip
  ip4_proto :: int
  ip6_src :: ip
  ip6_dst :: ip
  ip6_next :: int
  tcp_sport :: int
  tcp_dport :: int
  udp_sport :: int
  udp_dport :: int
  udp_payload :: "byte list"

record dns_msg =
  dns_qr :: bool
  dns_questions :: "(byte list \<times> int) list"

record dhcp_msg =
  dhcp_op :: int
  dhcp_hw :: "byte list"
  dhcp_options :: "(int \<times> byte list) list"

record decode_env =
  DecodeLayers :: "byte list \<Rightarrow> layers \<Rightarrow> layers"
  DecodeDNS :: "byte list \<Rightarrow> dns_msg option"
  DecodeDHCP :: "byte list \<Rightarrow> dhcp_msg option"

definition DHCPOpRequest :: int where "DHCPOpRequest = 1"
definition DHCPOptHostname :: int where "DHCPOptHostname = 12"

definition str_of_bytes :: "byte list \<Rightarrow> string" where
  "str_of_bytes bs = map (\<lambda>b. char_of (unat b)) bs"

record DecodeResult =
  res_flow :: "FlowEvent option"
  res_flow2 :: "FlowEvent option"
  res_dns :: "DNSQueryEvent option"
  res_dhcp :: "DHCPHostnameEvent option"

definition no_result :: DecodeResult where
  "no_result = \<lparr>res_flow = None, res_flow2 = None, res_dns = None, res_dhcp = None\<rparr>"

text \<open>The local variables of \<open>Decode\<close> after its loop over the decoded layers.\<close>

record scan =
  haveIP :: bool
  haveUDP :: bool
  srcIP :: ip
  dstIP :: ip
  proto :: int
  srcPort :: int
  dstPort :: int

definition scan_layer :: "layers \<Rightarrow> LayerType \<Rightarrow> scan \<Rightarrow> scan" where
  "scan_layer l lt s =
     (case lt of
        LayerTypeIPv4 \<Rightarrow> s\<lparr>haveIP := True, srcIP := ip4_src l, dstIP := ip4_dst l, proto := ip4_proto l\<rparr>
      | LayerTypeIPv6 \<Rightarrow> s\<lparr>haveIP := True, srcIP := ip6_src l, dstIP := ip6_dst l, proto := ip6_next l\<rparr>
      | LayerTypeTCP \<Rightarrow> s\<lparr>srcPort := tcp_sport l, dstPort := tcp_dport l\<rparr>
      | LayerTypeUDP \<Rightarrow> s\<lparr>haveUDP := True, srcPort := udp_sport l, dstPort := udp_dport l\<rparr>
      | _ \<Rightarrow> s)"

definition scan_layers :: "layers \<Rightarrow> scan" where
  "scan_layers l =
     fold (scan_layer l) (decoded l)
       \<lparr>haveIP = False, haveUDP = False, srcIP = [], dstIP = [], proto = 0, srcPort = 0, dstPort = 0\<rparr>"

definition buildFlowEvent :: "int \<Rightarrow> int \<Rightarrow> ip \<Rightarrow> int \<Rightarrow> ip \<Rightarrow> int \<Rightarrow> byte list \<Rightarrow> gotime \<Rightarrow> int \<Rightarrow> bool \<Rightarrow> FlowEvent" where
  "buildFlowEvent direction pr localIP localPort remoteIP remotePort localMAC ts bytes isLocalSrc =
     \<lparr>e_key = \<lparr>k_dir = direction, k_proto = pr, k_lip = ip_string localIP, k_lport = localPort,
               k_rip = ip_string remoteIP, k_rport = remotePort\<rparr>,
      e_ts = ts, e_bytes = bytes, e_local_src = isLocalSrc, e_mac = mac_string localMAC\<rparr>"

definition decodeDNSQuery :: "decode_env \<Rightarrow> layers \<Rightarrow> string \<Rightarrow> gotime \<Rightarrow> DNSQueryEvent option" where
  "decodeDNSQuery env l localIP ts =
     (case DecodeDNS env (udp_payload l) of
        None \<Rightarrow> None
      | Some m \<Rightarrow>
          if dns_qr m then None
          else (case dns_questions m of
                  [] \<Rightarrow> None
                | (name, ty) # _ \<Rightarrow> Some \<lparr>dq_lip = localIP, dq_name = str_of_bytes name, dq_type = ty, dq_ts = ts\<rparr>))"

text \<open>\<open>wall\<close> is the reading of \<open>time.Now()\<close>, used when the packet has no time of its own.\<close>

definition decodeDHCPHostname :: "decode_env \<Rightarrow> layers \<Rightarrow> gotime \<Rightarrow> gotime \<Rightarrow> DHCPHostnameEvent option" where
  "decodeDHCPHostname env l wall ts =
     (case DecodeDHCP env (udp_payload l) of
        None \<Rightarrow> None
      | Some m \<Rightarrow>
          if dhcp_op m \<noteq> DHCPOpRequest then None
          else (case find (\<lambda>(ty, data). ty = DHCPOptHostname \<and> data \<noteq> []) (dhcp_options m) of
                  None \<Rightarrow> None
                | Some (_, data) \<Rightarrow>
                    Some \<lparr>dh_mac = mac_string (dhcp_hw m), dh_name = str_of_bytes data, dh_ts = (if IsZero ts then wall else ts)\<rparr>))"

definition dns_part :: "decode_env \<Rightarrow> layers \<Rightarrow> scan \<Rightarrow> ip \<Rightarrow> gotime \<Rightarrow> DNSQueryEvent option" where
  "dns_part env l s localIP ts =
     (if haveUDP s \<and> (srcPort s = dnsServicePort \<or> dstPort s = dnsServicePort)
      then decodeDNSQuery env l (ip_string localIP) ts else None)"

definition Decode :: "decode_env \<Rightarrow> IPNet \<Rightarrow> gotime \<Rightarrow> RawPacket \<Rightarrow> layers \<Rightarrow> DecodeResult \<times> layers" where
  "Decode env lan wall pkt st =
     (let l = DecodeLayers env (pkt_data pkt) st;
          s = scan_layers l
      in if \<not> haveIP s then (no_result, l)
         else
           (let r0 = no_result\<lparr>res_dhcp :=
                  (if haveUDP s \<and> (srcPort s = dhcpClientPort \<or> dstPort s = dhcpServerPort)
                   then decodeDHCPHostname env l wall (pkt_ts pkt) else None)\<rparr>
            in if IsUnspecified (srcIP s) \<or> ip_equal (dstIP s) IPv4bcast then (r0, l)
               else
                 (let srcLocal = Contains lan (srcIP s);
                      dstLocal = Contains lan (dstIP s);
                      ts = (if IsZero (pkt_ts pkt) then wall else pkt_ts pkt);
                      bytes = int (length (pkt_data pkt))
                  in if srcLocal \<and> dstLocal then
                       (r0\<lparr>res_flow := Some (buildFlowEvent DirLANOut (proto s) (srcIP s) (srcPort s) (dstIP s) (dstPort s)
                                                (eth_src l) ts bytes True),
                           res_flow2 := Some (buildFlowEvent DirLANIn (proto s) (dstIP s) (dstPort s) (srcIP s) (srcPort s)
                                                (eth_dst l) ts bytes False),
                           res_dns := dns_part env l s (srcIP s) ts\<rparr>, l)
                     else if srcLocal then
                       (r0\<lparr>res_flow := Some (buildFlowEvent DirLANToWAN (proto s) (srcIP s) (srcPort s) (dstIP s) (dstPort s)
                                                (eth_src l) ts bytes True),
                           res_dns := dns_part env l s (srcIP s) ts\<rparr>, l)
                     else if dstLocal then
                       (r0\<lparr>res_flow := Some (buildFlowEvent DirWANToLAN (proto s) (dstIP s) (dstPort s) (srcIP s) (srcPort s)
                                                (eth_dst l) ts bytes False),
                           res_dns := dns_part env l s (dstIP s) ts\<rparr>, l)
                     else (r0, l))))"

section \<open>Properties\<close>

text \<open>C34: the kernel filter accepts a frame exactly when it is an IPv4 frame, untagged or with
  one 802.1Q tag; shorter frames, other EtherTypes and double tags are rejected. This holds for
  every machine with the documented meaning of the four instructions.\<close>

theorem filter_accepts_ipv4:
  assumes "bpf_semantics run"
  shows "run CompileIPv4Filter 0 0 bs = (if is_ipv4_frame bs then snapLen else 0)"
proof -
  let ?p = CompileIPv4Filter
  have ld: "run ?p pc a bs = (if off + 2 \<le> length bs then run ?p (pc + 1) (be16 bs off) bs else 0)"
    if "pc < length ?p" "?p ! pc = LoadAbsolute off 2" for pc a off
    using assms that unfolding bpf_semantics_def by blast
  have jp: "run ?p pc a bs = run ?p (pc + 1 + (if bpf_holds c a v then t else f)) a bs"
    if "pc < length ?p" "?p ! pc = JumpIf c v t f" for pc a c v t f
    using assms that unfolding bpf_semantics_def by blast
  have rt: "run ?p pc a bs = v" if "pc < length ?p" "?p ! pc = RetConstant v" for pc a v
    using assms that unfolding bpf_semantics_def by blast
  have r5: "run ?p 5 a bs = 0" and r6: "run ?p 6 a bs = snapLen" for a
    by (rule rt; simp add: CompileIPv4Filter_def)+
  have r4: "run ?p 4 a bs = (if a = 0x0800 then snapLen else 0)" for a
    using jp [of 4 JumpEqual etherTypeIP4 1 0 a] r5 r6
    by (auto simp: CompileIPv4Filter_def bpf_holds_def etherTypeIP4_def)
  have r3: "run ?p 3 a bs = (if 18 \<le> length bs \<and> be16 bs 16 = 0x0800 then snapLen else 0)" for a
    using ld [of 3 vlanInnerEtherTypeOff a] r4
    by (auto simp: CompileIPv4Filter_def vlanInnerEtherTypeOff_def)
  have r2: "run ?p 2 a bs = (if a = 0x8100 then run ?p 3 a bs else 0)" for a
    using jp [of 2 JumpNotEqual etherTypeVLAN 2 0 a] r5
    by (auto simp: CompileIPv4Filter_def bpf_holds_def etherTypeVLAN_def)
  have r1: "run ?p 1 a bs = (if a = 0x0800 then snapLen else run ?p 2 a bs)" for a
    using jp [of 1 JumpEqual etherTypeIP4 4 0 a] r6
    by (auto simp: CompileIPv4Filter_def bpf_holds_def etherTypeIP4_def numeral_2_eq_2)
  show ?thesis
    using ld [of 0 etherTypeOff 0] r1 r2 r3
    by (auto simp: CompileIPv4Filter_def etherTypeOff_def is_ipv4_frame_def)
qed

text \<open>A machine with the documented meaning, for the witness.\<close>

function bpf_run :: "bpf_instr list \<Rightarrow> nat \<Rightarrow> nat \<Rightarrow> byte list \<Rightarrow> nat" where
  "bpf_run prog pc a bs =
     (if length prog \<le> pc then 0
      else (case prog ! pc of
              LoadAbsolute off sz \<Rightarrow> if off + 2 \<le> length bs then bpf_run prog (pc + 1) (be16 bs off) bs else 0
            | JumpIf c v t f \<Rightarrow> bpf_run prog (pc + 1 + (if bpf_holds c a v then t else f)) a bs
            | RetConstant v \<Rightarrow> v))"
  by pat_completeness auto
termination
  by (relation "measure (\<lambda>(prog, pc, _, _). length prog - pc)") auto

declare bpf_run.simps [simp del]

lemma bpf_run_semantics: "bpf_semantics bpf_run"
  unfolding bpf_semantics_def
proof (intro conjI allI impI)
  fix prog pc a bs off
  assume "pc < length prog" "prog ! pc = LoadAbsolute off 2"
  then show "bpf_run prog pc a bs = (if off + 2 \<le> length bs then bpf_run prog (pc + 1) (be16 bs off) bs else 0)"
    by (subst bpf_run.simps) simp
next
  fix prog pc a bs c v t f
  assume "pc < length prog" "prog ! pc = JumpIf c v t f"
  then show "bpf_run prog pc a bs = bpf_run prog (pc + 1 + (if bpf_holds c a v then t else f)) a bs"
    by (subst bpf_run.simps) simp
next
  fix prog pc a bs v
  assume "pc < length prog" "prog ! pc = RetConstant v"
  then show "bpf_run prog pc a bs = v" by (subst bpf_run.simps) simp
qed

theorem filter_accepts_ipv4_witness:
  "bpf_run CompileIPv4Filter 0 0 (replicate 12 0 @ [0x81, 0x00, 0x00, 0x05, 0x08, 0x00]) = snapLen
   \<and> bpf_run CompileIPv4Filter 0 0 (replicate 12 0 @ [0x81, 0x00, 0x00, 0x05]) = 0"
  using filter_accepts_ipv4 [OF bpf_run_semantics]
  by (simp add: is_ipv4_frame_def be16_def nth_append)

lemma Decode_flows:
  assumes "Decode env lan wall pkt st = (r, l)"
  defines "s \<equiv> scan_layers (DecodeLayers env (pkt_data pkt) st)"
    and "ts \<equiv> if IsZero (pkt_ts pkt) then wall else pkt_ts pkt"
  shows "res_flow r =
      (if \<not> haveIP s \<or> IsUnspecified (srcIP s) \<or> ip_equal (dstIP s) IPv4bcast then None
       else if Contains lan (srcIP s) then
         Some (buildFlowEvent (if Contains lan (dstIP s) then DirLANOut else DirLANToWAN) (proto s)
                 (srcIP s) (srcPort s) (dstIP s) (dstPort s) (eth_src l) ts (int (length (pkt_data pkt))) True)
       else if Contains lan (dstIP s) then
         Some (buildFlowEvent DirWANToLAN (proto s) (dstIP s) (dstPort s) (srcIP s) (srcPort s) (eth_dst l) ts
                 (int (length (pkt_data pkt))) False)
       else None)"
    and "res_flow2 r =
      (if haveIP s \<and> \<not> IsUnspecified (srcIP s) \<and> \<not> ip_equal (dstIP s) IPv4bcast
          \<and> Contains lan (srcIP s) \<and> Contains lan (dstIP s) then
         Some (buildFlowEvent DirLANIn (proto s) (dstIP s) (dstPort s) (srcIP s) (srcPort s) (eth_dst l) ts
                 (int (length (pkt_data pkt))) False)
       else None)"
    and "res_dns r =
      (if \<not> haveIP s \<or> IsUnspecified (srcIP s) \<or> ip_equal (dstIP s) IPv4bcast then None
       else if Contains lan (srcIP s) then dns_part env l s (srcIP s) ts
       else if Contains lan (dstIP s) then dns_part env l s (dstIP s) ts
       else None)"
    and "l = DecodeLayers env (pkt_data pkt) st"
  using assms(1) unfolding Decode_def Let_def s_def ts_def no_result_def by (simp_all split: if_split_asm) auto



text \<open>A decoder environment for the witnesses: a fixed frame from 10.0.0.5:5353 to 8.8.8.8:53
  with a DNS query, and a LAN of 10.0.0.0/8.\<close>

definition demo_layers :: layers where
  "demo_layers = \<lparr>decoded = [LayerTypeEthernet, LayerTypeIPv4, LayerTypeUDP], eth_src = [2, 0, 0, 0, 0, 1], eth_dst = [2, 0, 0, 0, 0, 2],
     ip4_src = [10, 0, 0, 5], ip4_dst = [8, 8, 8, 8], ip4_proto = 17, ip6_src = [], ip6_dst = [], ip6_next = 0,
     tcp_sport = 0, tcp_dport = 0, udp_sport = 5353, udp_dport = 53, udp_payload = [1]\<rparr>"

definition demo_env :: decode_env where
  "demo_env = \<lparr>DecodeLayers = (\<lambda>_ _. demo_layers),
     DecodeDNS = (\<lambda>_. Some \<lparr>dns_qr = False, dns_questions = [([97, 46, 98], 1)]\<rparr>), DecodeDHCP = (\<lambda>_. None)\<rparr>"

definition demo_lan :: IPNet where
  "demo_lan = \<lparr>net_ip = [10, 0, 0, 0], net_mask = [255, 0, 0, 0]\<rparr>"

definition demo_packet :: RawPacket where
  "demo_packet = \<lparr>pkt_data = [0, 0, 0], pkt_ts = 60000000000\<rparr>"

lemma demo_flow: "res_flow (fst (Decode demo_env demo_lan 0 demo_packet demo_layers))
  = Some \<lparr>e_key = \<lparr>k_dir = 0, k_proto = 17, k_lip = ''10.0.0.5'', k_lport = 5353, k_rip = ''8.8.8.8'', k_rport = 53\<rparr>,
      e_ts = 60000000000, e_bytes = 3, e_local_src = True, e_mac = ''02:00:00:00:00:01''\<rparr>"
  by code_simp


text \<open>Only DNS queries are recorded. A DNS event comes from a UDP packet to or from port 53
  whose payload parses as a message that is a query with a question; it carries the first
  question's name and type and the address of the LAN side (the sender, when both sides are in
  the LAN).\<close>

theorem Decode_dns_queries_only:
  assumes "Decode env lan wall pkt st = (r, l)" and "res_dns r = Some q"
  shows "\<exists>m name ty rest. DecodeDNS env (udp_payload l) = Some m \<and> \<not> dns_qr m \<and> dns_questions m = (name, ty) # rest
           \<and> dq_name q = str_of_bytes name \<and> dq_type q = ty \<and> LayerTypeUDP \<in> set (decoded l)
           \<and> (\<exists>e. res_flow r = Some e \<and> dq_lip q = k_lip (e_key e))"
proof -
  let ?l = "DecodeLayers env (pkt_data pkt) st"
  let ?s = "scan_layers ?l"
  obtain ip ts where q: "dns_part env ?l ?s ip ts = Some q" and l: "l = ?l"
    and e: "\<exists>e. res_flow r = Some e \<and> k_lip (e_key e) = ip_string ip"
    using assms(2) unfolding Decode_flows [OF assms(1)] by (auto simp: buildFlowEvent_def split: if_splits)
  have udp: "haveUDP (fold (scan_layer l) ls s0) \<Longrightarrow> haveUDP s0 \<or> LayerTypeUDP \<in> set ls" for ls s0
    by (induction ls arbitrary: s0) (fastforce simp: scan_layer_def split: LayerType.splits)+
  have "haveUDP (scan_layers l)" using q unfolding l dns_part_def by (auto split: if_splits)
  from udp [OF this [unfolded scan_layers_def]] have "LayerTypeUDP \<in> set (decoded l)" by simp
  then show ?thesis
    using q e l by (auto simp: dns_part_def decodeDNSQuery_def split: if_splits option.splits list.splits)
qed

theorem Decode_dns_queries_only_witness:
  "\<exists>m. DecodeDNS demo_env [1] = Some m \<and> \<not> dns_qr m"
proof -
  have "res_dns (fst (Decode demo_env demo_lan 0 demo_packet demo_layers))
      = Some \<lparr>dq_lip = ''10.0.0.5'', dq_name = ''a.b'', dq_type = 1, dq_ts = 60000000000\<rparr>" by code_simp
  moreover have "udp_payload (snd (Decode demo_env demo_lan 0 demo_packet demo_layers)) = [1]" by code_simp
  ultimately show ?thesis
    using Decode_dns_queries_only [OF prod.collapse [symmetric], of demo_env demo_lan 0 demo_packet demo_layers] by fastforce
qed

end
