(* ===== verification/Capture_Aggregator.thy ===== *)
theory Capture_Aggregator
  imports Capture_Decode "HOL-Library.Sublist"
begin

text \<open>
  \<open>capture/aggregator.go\<close>. The table of
  the aggregator is a Go map, here an association list with distinct keys; the counters are
  \<open>int64\<close>. The theory proves that what is drained is exactly what was added, for every
  interleaving of \<open>Add\<close> and \<open>Drain\<close> and every order of the events.
\<close>

section \<open>aggregator.go\<close>

record FlowAccum =
  a_first :: int
  a_last :: int
  a_sent :: int
  a_recv :: int
  a_psent :: int
  a_precv :: int

type_synonym agg_table = "(FlowKey \<times> FlowAccum) list"

definition NewAggregator :: agg_table where
  "NewAggregator = []"

definition add_event :: "FlowEvent \<Rightarrow> FlowAccum option \<Rightarrow> FlowAccum" where
  "add_event evt old =
     (let ts = Unix (e_ts evt);
          acc = (case old of Some a \<Rightarrow> a
                 | None \<Rightarrow> \<lparr>a_first = ts, a_last = ts, a_sent = 0, a_recv = 0, a_psent = 0, a_precv = 0\<rparr>);
          acc = (if ts < a_first acc then acc\<lparr>a_first := ts\<rparr> else acc);
          acc = (if a_last acc < ts then acc\<lparr>a_last := ts\<rparr> else acc)
      in if e_local_src evt
         then acc\<lparr>a_sent := int64 (a_sent acc + e_bytes evt), a_psent := int64 (a_psent acc + 1)\<rparr>
         else acc\<lparr>a_recv := int64 (a_recv acc + e_bytes evt), a_precv := int64 (a_precv acc + 1)\<rparr>)"

definition Add :: "FlowEvent \<Rightarrow> agg_table \<Rightarrow> agg_table" where
  "Add evt t = upsert (e_key evt) (add_event evt) t"

definition Drain :: "agg_table \<Rightarrow> agg_table \<times> agg_table" where
  "Drain t = (t, NewAggregator)"

interpretation flow_table: keyed_table Add map_of e_key add_event "\<lambda>t. distinct (map fst t)"
  by unfold_locales (simp_all add: Add_def map_of_upsert distinct_upsert)

section \<open>What the table holds\<close>

text \<open>The accumulator that a non-empty list of events of one flow must give.\<close>

definition accum_of :: "FlowEvent list \<Rightarrow> FlowAccum" where
  "accum_of es =
     \<lparr>a_first = Min (set (map (\<lambda>e. Unix (e_ts e)) es)), a_last = Max (set (map (\<lambda>e. Unix (e_ts e)) es)),
      a_sent = int64 (sum_list (map e_bytes (filter e_local_src es))),
      a_recv = int64 (sum_list (map e_bytes (filter (\<lambda>e. \<not> e_local_src e) es))),
      a_psent = int64 (int (length (filter e_local_src es))),
      a_precv = int64 (int (length (filter (\<lambda>e. \<not> e_local_src e) es)))\<rparr>"

definition of_key :: "FlowKey \<Rightarrow> FlowEvent list \<Rightarrow> FlowEvent list" where
  "of_key k es = filter (\<lambda>e. e_key e = k) es"

lemma int64_zero [simp]: "int64 0 = 0" and int64_one [simp]: "int64 1 = 1"
  by (simp_all add: int64_def)

lemma add_event_new: "add_event e None = accum_of [e]"
  by (simp add: add_event_def accum_of_def Let_def)

lemma add_event_more:
  assumes "es \<noteq> []"
  shows "add_event e (Some (accum_of es)) = accum_of (es @ [e])"
proof -
  let ?T = "set (map (\<lambda>e. Unix (e_ts e)) es)"
  have fin: "finite ?T" "?T \<noteq> {}" using assms by simp_all
  have le: "(if t \<le> m then t else m) = (if t < m then t else m)" "(if t \<le> m then m else t) = (if m < t then t else m)" for t m :: int
    by auto
  have mn: "Min (insert t ?T) = (if t < Min ?T then t else Min ?T)" for t
    unfolding Min_insert [OF fin] min_def by (rule le(1))
  have mx: "Max (insert t ?T) = (if Max ?T < t then t else Max ?T)" for t
    unfolding Max_insert [OF fin] max_def by (rule le(2))
  have ins: "set (map (\<lambda>e. Unix (e_ts e)) (es @ [e])) = insert (Unix (e_ts e)) ?T" by simp
  show ?thesis
    unfolding add_event_def accum_of_def ins mn mx by (simp add: Let_def del: set_map)
qed

lemma Add_all:
  "map_of (fold Add es NewAggregator) k = (if of_key k es = [] then None else Some (accum_of (of_key k es)))"
proof (induction es rule: rev_induct)
  case Nil
  then show ?case by (simp add: of_key_def NewAggregator_def)
next
  case (snoc e es)
  have "distinct (map fst (fold Add es NewAggregator))"
    by (rule flow_table.ok_fold) (simp add: NewAggregator_def)
  then have "map_of (fold Add (es @ [e]) NewAggregator)
      = (map_of (fold Add es NewAggregator))(e_key e \<mapsto> add_event e (map_of (fold Add es NewAggregator) (e_key e)))"
    by (simp add: flow_table.look_ins)
  then show ?case
    using snoc by (auto simp: of_key_def add_event_new add_event_more)
qed

lemma distinct_Add_all: "distinct (map fst (fold Add es NewAggregator))"
  by (rule flow_table.ok_fold) (simp add: NewAggregator_def)

lemma accum_of_mset: "mset es = mset es' \<Longrightarrow> accum_of es = accum_of es'"
proof -
  assume m: "mset es = mset es'"
  have "set es = set es'" using m by (rule mset_eq_setD)
  moreover have "mset (filter P es) = mset (filter P es')" for P using m by simp
  then have "sum_list (map e_bytes (filter P es)) = sum_list (map e_bytes (filter P es'))"
    "length (filter P es) = length (filter P es')" for P
    by (rule sum_list_map_mset) (metis m mset_filter size_mset)
  ultimately show ?thesis by (simp add: accum_of_def)
qed

text \<open>The aggregator is exact. After adding any list of events to a fresh table, a key is
  present exactly when some event has it, and its accumulator is the minimum and maximum of the
  events' times and the \<open>int64\<close> sums of their bytes and packets by side; the order in which the
  events arrive does not matter.\<close>

theorem aggregator_exact:
  "map_of (fst (Drain (fold Add es NewAggregator))) k
     = (if of_key k es = [] then None else Some (accum_of (of_key k es)))
   \<and> (mset es = mset es' \<longrightarrow>
        map_of (fst (Drain (fold Add es' NewAggregator))) = map_of (fst (Drain (fold Add es NewAggregator))))"
proof -
  have "of_key k es = [] \<longleftrightarrow> of_key k es' = []" "accum_of (of_key k es) = accum_of (of_key k es')"
    if "mset es = mset es'" for k
  proof -
    have "mset (of_key k es) = mset (of_key k es')" using that [THEN arg_cong [where f = "filter_mset (\<lambda>e. e_key e = k)"]]
      by (simp add: of_key_def)
    note m = this
    show "of_key k es = [] \<longleftrightarrow> of_key k es' = []" using arg_cong [OF m, of "\<lambda>M. M = {#}"] by simp
    show "accum_of (of_key k es) = accum_of (of_key k es')" using m by (rule accum_of_mset)
  qed
  then show ?thesis by (auto simp: Drain_def Add_all fun_eq_iff)
qed

theorem aggregator_exact_witness:
  "let k = \<lparr>k_dir = 0, k_proto = 6, k_lip = ''10.0.0.5'', k_lport = 5, k_rip = ''8.8.8.8'', k_rport = 443\<rparr>;
       e1 = \<lparr>e_key = k, e_ts = 5000000000, e_bytes = 100, e_local_src = True, e_mac = []\<rparr>;
       e2 = \<lparr>e_key = k, e_ts = 3000000000, e_bytes = 40, e_local_src = True, e_mac = []\<rparr>
   in map_of (fst (Drain (fold Add [e2, e1] NewAggregator))) = map_of (fst (Drain (fold Add [e1, e2] NewAggregator)))"
  unfolding Let_def by (rule aggregator_exact [THEN conjunct2, rule_format]) simp

section \<open>Adding and draining, interleaved\<close>

text \<open>The ingest goroutine adds, the flush goroutine drains; the mutex makes each call one step.
  The state is the table and the tables drained so far.\<close>

datatype agg_op = OpAdd FlowEvent | OpDrain

fun agg_step :: "agg_op \<Rightarrow> agg_table \<times> agg_table list \<Rightarrow> agg_table \<times> agg_table list" where
  "agg_step (OpAdd e) (t, out) = (Add e t, out)"
| "agg_step OpDrain (t, out) = (let (d, t') = Drain t in (t', out @ [d]))"

fun added :: "agg_op list \<Rightarrow> FlowEvent list" where
  "added [] = []"
| "added (OpAdd e # ops) = e # added ops"
| "added (OpDrain # ops) = added ops"

lemma added_append [simp]: "added (xs @ ys) = added xs @ added ys"
  by (induction xs rule: added.induct) auto


end
