(* ===== verification/Capture_Source.thy ===== *)
theory Capture_Source
  imports Capture_Aggregator Go_Strings
begin

text \<open>
  The two packet sources, \<open>pcapgo_source.go\<close> and \<open>replay_source.go\<close>, behind the interface \<open>Source\<close> of
  \<open>capture.go\<close>. A source is a goroutine that reads packets and sends them on a buffered channel, and a
  consumer that receives them, interleaved freely: the state holds the buffer of the channel, what the
  consumer has received, what was read so far, and where the goroutine stands; an event is one atomic
  step of either side or the cancellation of the context. The kernel socket and the pcap file are
  inputs: the packets and errors that reads return.
\<close>

section \<open>The interface\<close>

text \<open>What a consumer may rely on: a step reads a packet and queues or drops it, moves the head of the queue
  to the consumer, or leaves all three; and after the goroutine has returned nothing more is read.\<close>

locale packet_source =
  fixes step :: "'ev \<Rightarrow> 's \<Rightarrow> 's"
    and queue got seen :: "'s \<Rightarrow> RawPacket list"
    and returned :: "'s \<Rightarrow> bool"
  assumes step_effect:
    "(queue (step e s) = queue s \<and> got (step e s) = got s \<and> seen (step e s) = seen s)
     \<or> (\<exists>p. queue (step e s) = queue s \<and> got (step e s) = got s \<and> seen (step e s) = seen s @ [p])
     \<or> (\<exists>p. queue (step e s) = queue s @ [p] \<and> got (step e s) = got s \<and> seen (step e s) = seen s @ [p])
     \<or> (\<exists>p. queue s = p # queue (step e s) \<and> got (step e s) = got s @ [p] \<and> seen (step e s) = seen s)"
    and returned_step: "returned s \<Longrightarrow> returned (step e s) \<and> seen (step e s) = seen s"
begin

lemma subseq_step: "subseq (got s @ queue s) (seen s) \<Longrightarrow> subseq (got (step e s) @ queue (step e s)) (seen (step e s))"
proof -
  assume s: "subseq (got s @ queue s) (seen s)"
  have "subseq ((got s @ queue s) @ [p]) (seen s @ [p])" "subseq (got s @ queue s) (seen s @ [p])" for p
    using s by (simp_all only: subseq_append subseq_rev_drop_many)
  with s step_effect [of e s] show ?thesis by (elim disjE exE conjE) simp_all
qed

lemma delivered_subseq:
  "subseq (got s @ queue s) (seen s) \<Longrightarrow> subseq (got (fold step es s) @ queue (fold step es s)) (seen (fold step es s))"
  by (induction es arbitrary: s) (simp_all add: subseq_step)

lemma returned_fold: "returned s \<Longrightarrow> returned (fold step es s) \<and> seen (fold step es s) = seen s"
proof (induction es arbitrary: s)
  case (Cons e es)
  from returned_step [OF Cons.prems, of e] Cons.IH [of "step e s"] show ?case by simp
qed simp

end

section \<open>pcapgo_source.go\<close>

definition packetBufSize :: nat where "packetBufSize = 4096"

datatype loop_pc = Top | Reading | Returned

record PcapgoSource =
  lv_ctx :: bool
  lv_pc :: loop_pc
  lv_buf :: "RawPacket list"
  lv_errs :: "go_error list"
  lv_dropped :: "64 word"
  lv_got :: "RawPacket list"
  lv_seen :: "RawPacket list"

text \<open>\<open>LoopTop\<close> is the check of the context at the head of the loop, \<open>ReadOK\<close> and \<open>ReadErr\<close> the return of
  the blocking read with what follows it up to the next iteration; \<open>wall\<close> is the clock reading for a
  packet without a time. The channel of errors has room for one.\<close>

datatype live_event = LoopTop | ReadOK RawPacket gotime | ReadErr go_error | Cancel | Receive | ReceiveErr

definition stamp :: "RawPacket \<Rightarrow> gotime \<Rightarrow> RawPacket" where
  "stamp p wall = (if IsZero (pkt_ts p) then p\<lparr>pkt_ts := wall\<rparr> else p)"

fun live_step :: "live_event \<Rightarrow> PcapgoSource \<Rightarrow> PcapgoSource" where
  "live_step LoopTop s = (if lv_pc s = Top then s\<lparr>lv_pc := if lv_ctx s then Returned else Reading\<rparr> else s)"
| "live_step (ReadOK p wall) s =
     (if lv_pc s \<noteq> Reading then s
      else (let q = stamp p wall; s1 = s\<lparr>lv_pc := Top, lv_seen := lv_seen s @ [q]\<rparr>
            in if length (lv_buf s) < packetBufSize then s1\<lparr>lv_buf := lv_buf s @ [q]\<rparr>
               else s1\<lparr>lv_dropped := lv_dropped s + 1\<rparr>))"
| "live_step (ReadErr e) s =
     (if lv_pc s \<noteq> Reading then s
      else if lv_ctx s then s\<lparr>lv_pc := Returned\<rparr>
      else s\<lparr>lv_pc := Top, lv_errs := (if lv_errs s = [] then [e] else lv_errs s)\<rparr>)"
| "live_step Cancel s = s\<lparr>lv_ctx := True\<rparr>"
| "live_step Receive s = (case lv_buf s of [] \<Rightarrow> s | p # ps \<Rightarrow> s\<lparr>lv_buf := ps, lv_got := lv_got s @ [p]\<rparr>)"
| "live_step ReceiveErr s = s\<lparr>lv_errs := tl (lv_errs s)\<rparr>"

definition live_init :: PcapgoSource where
  "live_init = \<lparr>lv_ctx = False, lv_pc = Top, lv_buf = [], lv_errs = [], lv_dropped = 0, lv_got = [], lv_seen = []\<rparr>"

definition Dropped :: "PcapgoSource \<Rightarrow> 64 word" where
  "Dropped s = lv_dropped s"

interpretation live: packet_source live_step lv_buf lv_got lv_seen "\<lambda>s. lv_pc s = Returned"
proof
  fix e s
  show "(lv_buf (live_step e s) = lv_buf s \<and> lv_got (live_step e s) = lv_got s \<and> lv_seen (live_step e s) = lv_seen s)
     \<or> (\<exists>p. lv_buf (live_step e s) = lv_buf s \<and> lv_got (live_step e s) = lv_got s \<and> lv_seen (live_step e s) = lv_seen s @ [p])
     \<or> (\<exists>p. lv_buf (live_step e s) = lv_buf s @ [p] \<and> lv_got (live_step e s) = lv_got s \<and> lv_seen (live_step e s) = lv_seen s @ [p])
     \<or> (\<exists>p. lv_buf s = p # lv_buf (live_step e s) \<and> lv_got (live_step e s) = lv_got s @ [p] \<and> lv_seen (live_step e s) = lv_seen s)"
    by (cases e) (auto simp: Let_def split: list.splits)
  show "lv_pc s = Returned \<Longrightarrow> lv_pc (live_step e s) = Returned \<and> lv_seen (live_step e s) = lv_seen s"
    by (cases e) (auto split: list.splits)
qed

lemma live_counts:
  assumes "length (lv_buf s) \<le> packetBufSize" and "of_nat (length (lv_seen s)) = of_nat (length (lv_got s @ lv_buf s)) + lv_dropped s"
    and "length (lv_errs s) \<le> 1"
  shows "length (lv_buf (live_step e s)) \<le> packetBufSize
    \<and> of_nat (length (lv_seen (live_step e s))) = of_nat (length (lv_got (live_step e s) @ lv_buf (live_step e s))) + lv_dropped (live_step e s)
    \<and> length (lv_errs (live_step e s)) \<le> 1"
  using assms by (cases e) (auto simp: Let_def split: list.splits)

text \<open>The capture queue is bounded and honest. For every interleaving of the read loop and the consumer, with any
  read errors and cancelled at any moment: the queue never holds more than 4096 packets and the
  error channel never more than one error; what was received followed by what is queued is a
  subsequence of what was read (order kept, nothing invented or duplicated); and the dropped counter is
  exactly the number of packets missing from it.\<close>

theorem capture_queue_accounting:
  "let s = fold live_step es live_init in
     length (lv_buf s) \<le> packetBufSize \<and> length (lv_errs s) \<le> 1
     \<and> subseq (lv_got s @ lv_buf s) (lv_seen s)
     \<and> of_nat (length (lv_seen s)) = of_nat (length (lv_got s @ lv_buf s)) + Dropped s"
proof -
  have "length (lv_buf (fold live_step es s)) \<le> packetBufSize
      \<and> of_nat (length (lv_seen (fold live_step es s))) = of_nat (length (lv_got (fold live_step es s) @ lv_buf (fold live_step es s))) + lv_dropped (fold live_step es s)
      \<and> length (lv_errs (fold live_step es s)) \<le> 1"
    if "length (lv_buf s) \<le> packetBufSize" "of_nat (length (lv_seen s)) = of_nat (length (lv_got s @ lv_buf s)) + lv_dropped s" "length (lv_errs s) \<le> 1" for s
    using that
  proof (induction es arbitrary: s)
    case (Cons e es)
    from live_counts [OF Cons.prems, of e] show ?case unfolding fold_Cons comp_apply by (intro Cons.IH) simp_all
  qed simp
  from this [of live_init] show ?thesis
    using live.delivered_subseq [of live_init es] by (simp add: live_init_def Let_def Dropped_def)
qed

section \<open>Opening and closing the live source\<close>

definition ifiPromisc :: nat where "ifiPromisc = 0x100"

definition hex_digit :: "char \<Rightarrow> nat option" where
  "hex_digit c =
     (let n = of_char c :: nat
      in if 48 \<le> n \<and> n \<le> 57 then Some (n - 48)
         else if 97 \<le> n \<and> n \<le> 102 then Some (n - 87)
         else if 65 \<le> n \<and> n \<le> 70 then Some (n - 55)
         else None)"

fun hex_acc :: "nat \<Rightarrow> string \<Rightarrow> nat option" where
  "hex_acc acc [] = Some acc"
| "hex_acc acc (c # cs) = (case hex_digit c of None \<Rightarrow> None | Some d \<Rightarrow> hex_acc (acc * 16 + d) cs)"

text \<open>\<open>strconv.ParseUint(s, 16, 32)\<close>.\<close>

definition ParseHex32 :: "string \<Rightarrow> nat option" where
  "ParseHex32 s =
     (if s = [] then None else case hex_acc 0 s of None \<Rightarrow> None | Some n \<Rightarrow> if n < 2 ^ 32 then Some n else None)"

text \<open>Slicing off the leading \<open>0x\<close> panics when the file holds fewer than two characters.\<close>

datatype promisc_check = CheckPanic | CheckErr | Promisc bool

definition isPromiscuous :: "string option \<Rightarrow> promisc_check" where
  "isPromiscuous raw =
     (case raw of
        None \<Rightarrow> CheckErr
      | Some r \<Rightarrow>
          (let t = TrimSpace r
           in if length t < 2 then CheckPanic
              else (case ParseHex32 (drop 2 t) of None \<Rightarrow> CheckErr | Some flags \<Rightarrow> Promisc (and flags ifiPromisc \<noteq> 0))))"

text \<open>The operating system as \<open>NewPcapgoSource\<close> sees it: whether the socket opens, what the interface's flags
  file holds, whether the two privileged calls succeed. The calls made are listed in order.\<close>

record nic =
  nic_open :: bool
  nic_flags :: "string option"
  nic_promisc :: bool
  nic_bpf :: bool

datatype handle_call = OpenHandle | SetPromiscuous | SetBPF | CloseHandle

datatype open_result = OpenPanic | OpenFailed | Opened

definition NewPcapgoSource :: "nic \<Rightarrow> nat \<Rightarrow> bool \<Rightarrow> open_result \<times> handle_call list" where
  "NewPcapgoSource nic filterLen promiscuous =
     (if \<not> nic_open nic then (OpenFailed, [])
      else (let check = isPromiscuous (nic_flags nic);
                wants = (promiscuous \<and> check \<noteq> Promisc True);
                calls = OpenHandle # (if wants then [SetPromiscuous] else [])
            in if promiscuous \<and> check = CheckPanic then (OpenPanic, [OpenHandle])
               else if wants \<and> \<not> nic_promisc nic then (OpenFailed, calls @ [CloseHandle])
               else if 0 < filterLen then
                 (if nic_bpf nic then (Opened, calls @ [SetBPF]) else (OpenFailed, calls @ [SetBPF, CloseHandle]))
               else (Opened, calls)))"

text \<open>\<open>Close\<close>: the handle is released once; a second call reports an error.\<close>

definition Close_source :: "bool \<Rightarrow> (go_error + unit) \<times> bool" where
  "Close_source open_handle = (if open_handle then (Inr (), False) else (Inl (ErrSetup ''capture: handle already closed''), False))"

lemma NewPcapgoSource_releases:
  "fst (NewPcapgoSource nic n promiscuous) = OpenFailed \<Longrightarrow>
     (OpenHandle \<in> set (snd (NewPcapgoSource nic n promiscuous)) \<longleftrightarrow> CloseHandle \<in> set (snd (NewPcapgoSource nic n promiscuous)))"
  by (auto simp: NewPcapgoSource_def Let_def split: if_splits)

lemma NewPcapgoSource_privilege:
  "SetPromiscuous \<in> set (snd (NewPcapgoSource nic n promiscuous)) \<Longrightarrow> promiscuous \<and> isPromiscuous (nic_flags nic) \<noteq> Promisc True"
  by (auto simp: NewPcapgoSource_def Let_def split: if_splits)

section \<open>replay_source.go\<close>

text \<open>The file is the list of packets it holds and the error, if any, that ends it instead of the end of
  file. The goroutine sends with a blocking \<open>select\<close>: \<open>rp_pending\<close> is the packet it waits to send. When both
  alternatives of the \<open>select\<close> are ready, Go picks either: the argument of \<open>Loop\<close> says which.\<close>

record ReplaySource =
  rp_ctx :: bool
  rp_input :: "RawPacket list"
  rp_fail :: "go_error option"
  rp_pending :: "RawPacket option"
  rp_returned :: bool
  rp_buf :: "RawPacket list"
  rp_errs :: "go_error list"
  rp_got :: "RawPacket list"
  rp_seen :: "RawPacket list"

datatype replay_event = Loop bool | ReplayCancel | ReplayReceive | ReplayReceiveErr

definition replay_read :: "ReplaySource \<Rightarrow> ReplaySource" where
  "replay_read s =
     (if rp_ctx s then s\<lparr>rp_returned := True\<rparr>
      else case rp_input s of
             p # ps \<Rightarrow> s\<lparr>rp_input := ps, rp_pending := Some p\<rparr>
           | [] \<Rightarrow> (case rp_fail s of
                      None \<Rightarrow> s\<lparr>rp_returned := True\<rparr>
                    | Some e \<Rightarrow> s\<lparr>rp_returned := True, rp_errs := (if rp_errs s = [] then [e] else rp_errs s)\<rparr>))"

definition replay_send :: "bool \<Rightarrow> RawPacket \<Rightarrow> ReplaySource \<Rightarrow> ReplaySource" where
  "replay_send prefer_done p s =
     (let room = (length (rp_buf s) < packetBufSize)
      in if rp_ctx s \<and> (prefer_done \<or> \<not> room) then s\<lparr>rp_returned := True, rp_pending := None, rp_seen := rp_seen s @ [p]\<rparr>
         else if room then s\<lparr>rp_buf := rp_buf s @ [p], rp_pending := None, rp_seen := rp_seen s @ [p]\<rparr>
         else s)"

fun replay_step :: "replay_event \<Rightarrow> ReplaySource \<Rightarrow> ReplaySource" where
  "replay_step (Loop prefer_done) s =
     (if rp_returned s then s
      else case rp_pending s of None \<Rightarrow> replay_read s | Some p \<Rightarrow> replay_send prefer_done p s)"
| "replay_step ReplayCancel s = s\<lparr>rp_ctx := True\<rparr>"
| "replay_step ReplayReceive s = (case rp_buf s of [] \<Rightarrow> s | p # ps \<Rightarrow> s\<lparr>rp_buf := ps, rp_got := rp_got s @ [p]\<rparr>)"
| "replay_step ReplayReceiveErr s = s\<lparr>rp_errs := tl (rp_errs s)\<rparr>"

definition NewReplaySource :: "RawPacket list \<Rightarrow> go_error option \<Rightarrow> ReplaySource" where
  "NewReplaySource ps fail = \<lparr>rp_ctx = False, rp_input = ps, rp_fail = fail, rp_pending = None, rp_returned = False, rp_buf = [],
     rp_errs = [], rp_got = [], rp_seen = []\<rparr>"

interpretation replay: packet_source replay_step rp_buf rp_got rp_seen rp_returned
proof
  fix e s
  show "(rp_buf (replay_step e s) = rp_buf s \<and> rp_got (replay_step e s) = rp_got s \<and> rp_seen (replay_step e s) = rp_seen s)
     \<or> (\<exists>p. rp_buf (replay_step e s) = rp_buf s \<and> rp_got (replay_step e s) = rp_got s \<and> rp_seen (replay_step e s) = rp_seen s @ [p])
     \<or> (\<exists>p. rp_buf (replay_step e s) = rp_buf s @ [p] \<and> rp_got (replay_step e s) = rp_got s \<and> rp_seen (replay_step e s) = rp_seen s @ [p])
     \<or> (\<exists>p. rp_buf s = p # rp_buf (replay_step e s) \<and> rp_got (replay_step e s) = rp_got s @ [p] \<and> rp_seen (replay_step e s) = rp_seen s)"
    by (cases e) (auto simp: replay_read_def replay_send_def Let_def split: list.splits option.splits)
  show "rp_returned s \<Longrightarrow> rp_returned (replay_step e s) \<and> rp_seen (replay_step e s) = rp_seen s"
    by (cases e) (auto split: list.splits)
qed

subsection \<open>The replay goroutine returns\<close>

definition replay_work :: "ReplaySource \<Rightarrow> nat" where
  "replay_work s = (if rp_returned s then 0 else 1 + 2 * length (rp_input s) + (if rp_pending s = None then 0 else 1))"

definition replay_inv :: "RawPacket list \<Rightarrow> ReplaySource \<Rightarrow> bool" where
  "replay_inv ps s \<longleftrightarrow> length (rp_buf s) \<le> packetBufSize
     \<and> (rp_returned s \<longrightarrow> rp_pending s = None)
     \<and> length (rp_input s) + (if rp_pending s = None then 0 else 1) \<le> length ps"

lemma replay_inv_step: "replay_inv ps s \<Longrightarrow> replay_inv ps (replay_step e s)"
  by (cases e) (auto simp: replay_inv_def replay_read_def replay_send_def Let_def split: list.splits option.splits if_splits)

lemma replay_inv_fold: "replay_inv ps s \<Longrightarrow> replay_inv ps (fold replay_step es s)"
  by (induction es arbitrary: s) (simp_all add: replay_inv_step)

lemma replay_work_bound: "replay_inv ps s \<Longrightarrow> replay_work s \<le> 2 * length ps + 1"
  by (auto simp: replay_inv_def replay_work_def split: if_splits)

lemma replay_round:
  assumes "replay_inv ps s"
  shows "replay_work (replay_step (Loop b) (replay_step ReplayReceive s)) \<le> replay_work s - 1"
proof -
  have "length (rp_buf (replay_step ReplayReceive s)) < packetBufSize"
    using assms by (auto simp: replay_inv_def packetBufSize_def split: list.splits)
  then show ?thesis
    by (auto simp: replay_work_def replay_read_def replay_send_def Let_def split: list.splits option.splits)
qed

lemma replay_rounds:
  assumes "replay_inv ps s"
  shows "replay_work (fold replay_step (concat (replicate n [ReplayReceive, Loop b])) s) \<le> replay_work s - n"
  using assms
proof (induction n arbitrary: s)
  case (Suc n)
  let ?s = "replay_step (Loop b) (replay_step ReplayReceive s)"
  have "replay_inv ps ?s" using Suc.prems by (intro replay_inv_step)
  from Suc.IH [OF this] replay_round [OF Suc.prems, of b] show ?case by simp
qed simp

definition replay_exact :: "RawPacket list \<Rightarrow> go_error option \<Rightarrow> ReplaySource \<Rightarrow> bool" where
  "replay_exact ps fail s \<longleftrightarrow> \<not> rp_ctx s \<and> rp_fail s = fail
     \<and> rp_got s @ rp_buf s @ (case rp_pending s of None \<Rightarrow> [] | Some p \<Rightarrow> [p]) @ rp_input s = ps
     \<and> (if rp_returned s then rp_pending s = None \<and> rp_input s = [] \<and> rp_errs s = (case fail of None \<Rightarrow> [] | Some e \<Rightarrow> [e])
        else rp_errs s = [])"

lemma replay_exact_step:
  assumes "replay_exact ps fail s" and "e \<noteq> ReplayCancel" and "e \<noteq> ReplayReceiveErr"
  shows "replay_exact ps fail (replay_step e s)"
  using assms by (cases e) (auto simp: replay_exact_def replay_read_def replay_send_def Let_def split: list.splits option.splits if_splits)

lemma replay_exact_fold:
  assumes "replay_exact ps fail s" and "ReplayCancel \<notin> set es" and "ReplayReceiveErr \<notin> set es"
  shows "replay_exact ps fail (fold replay_step es s)"
  using assms
proof (induction es arbitrary: s)
  case (Cons e es)
  then have "replay_exact ps fail (replay_step e s)" by (intro replay_exact_step) auto
  with Cons show ?case by simp
qed simp


definition replay_sample :: "RawPacket list" where
  "replay_sample = [\<lparr>pkt_data = [1], pkt_ts = 1\<rparr>, \<lparr>pkt_data = [2], pkt_ts = 2\<rparr>]"


end
