(* ===== verification/Capture_Pipeline.thy ===== *)
theory Capture_Pipeline
  imports Capture_Aggregator
begin

text \<open>
  \<open>capture/pipeline.go\<close>: the goroutine that decodes packets into the shared buffers and the
  goroutine that flushes them to the store. Every operation on shared state (one lock acquisition
  of the ingest side, one phase of the flush) is a step of \<open>pipe_step\<close>; a packet and a flush are
  lists of steps, and the invariants hold for every list of steps, hence for every interleaving of
  the two goroutines. The order in which Go iterates over the drained map is an arbitrary ranking
  of the keys.
\<close>

section \<open>State\<close>

record pipeline =
  p_agg :: agg_table
  p_layers :: layers
  hostCache :: "string \<rightharpoonup> int"
  bumpedThisFlush :: "string set"
  macByIP :: "string \<rightharpoonup> string"
  dnsBuf :: "DNSQueryEvent list"
  dhcpBuf :: "DHCPHostnameEvent list"

type_synonym pstate = "pipeline \<times> db"

definition NewPipeline :: "layers \<Rightarrow> pipeline" where
  "NewPipeline l = \<lparr>p_agg = NewAggregator, p_layers = l, hostCache = Map.empty, bumpedThisFlush = {},
     macByIP = Map.empty, dnsBuf = [], dhcpBuf = []\<rparr>"

definition rememberMAC :: "FlowEvent \<Rightarrow> pipeline \<Rightarrow> pipeline" where
  "rememberMAC flow p = (if e_mac flow = [] then p else p\<lparr>macByIP := (macByIP p)(k_lip (e_key flow) \<mapsto> e_mac flow)\<rparr>)"

definition lookupMAC :: "pipeline \<Rightarrow> string \<Rightarrow> string" where
  "lookupMAC p ip = (case macByIP p ip of None \<Rightarrow> [] | Some mac \<Rightarrow> mac)"

section \<open>Resolving hosts\<close>

definition set_mac :: "string \<Rightarrow> int \<Rightarrow> pstate \<Rightarrow> pstate" where
  "set_mac ip i = (\<lambda>(p, d). if lookupMAC p ip \<noteq> [] then (p, snd (SetHostMAC i (lookupMAC p ip) d)) else (p, d))"

definition resolveHost :: "string \<Rightarrow> int \<Rightarrow> pstate \<Rightarrow> (go_error + int) \<times> pstate" where
  "resolveHost ip seenAt = (\<lambda>(p, d).
     let i = (case hostCache p ip of None \<Rightarrow> 0 | Some i \<Rightarrow> i) in
     if ip \<in> bumpedThisFlush p then (Inr i, (p, d))
     else
       (let p1 = p\<lparr>bumpedThisFlush := insert ip (bumpedThisFlush p)\<rparr> in
        if hostCache p ip = None then
          (case UpsertHost ip seenAt d of
             (Inl e, d1) \<Rightarrow> (Inl e, (p1, d1))
           | (Inr newID, d1) \<Rightarrow> (Inr newID, set_mac ip newID (p1\<lparr>hostCache := (hostCache p1)(ip \<mapsto> newID)\<rparr>, d1)))
        else (case UpsertHost ip seenAt d of (_, d1) \<Rightarrow> (Inr i, set_mac ip i (p1, d1)))))"

text \<open>The loop of a flush: resolve the host of every item in turn, skipping the items whose host
  cannot be resolved.\<close>

fun resolve_all :: "('a \<Rightarrow> string) \<Rightarrow> (int \<Rightarrow> 'a \<Rightarrow> 'r) \<Rightarrow> int \<Rightarrow> 'a list \<Rightarrow> pstate \<Rightarrow> 'r list \<times> pstate" where
  "resolve_all ip_of mk seenAt [] s = ([], s)"
| "resolve_all ip_of mk seenAt (x # xs) s =
     (case resolveHost (ip_of x) seenAt s of
        (Inl _, s1) \<Rightarrow> resolve_all ip_of mk seenAt xs s1
      | (Inr i, s1) \<Rightarrow> (case resolve_all ip_of mk seenAt xs s1 of (rs, s2) \<Rightarrow> (mk i x # rs, s2)))"

section \<open>Flushing\<close>

definition flow_row :: "int \<Rightarrow> FlowKey \<times> FlowAccum \<Rightarrow> FlowRecord" where
  "flow_row i = (\<lambda>(key, acc).
     \<lparr>f_host = i, f_dir = k_dir key, f_proto = k_proto key, f_lip = k_lip key, f_lport = k_lport key,
      f_rip = k_rip key, f_rport = k_rport key, f_first = a_first acc, f_last = a_last acc,
      f_sent = a_sent acc, f_recv = a_recv acc, f_psent = a_psent acc, f_precv = a_precv acc\<rparr>)"

definition flush_flows :: "(FlowKey \<Rightarrow> nat) \<Rightarrow> int \<Rightarrow> pstate \<Rightarrow> pstate" where
  "flush_flows rank now = (\<lambda>(p, d).
     let p1 = p\<lparr>bumpedThisFlush := {}\<rparr>;
         (drained, agg) = Drain (p_agg p1);
         p2 = p1\<lparr>p_agg := agg\<rparr>
     in if drained = [] then (p2, d)
        else (case resolve_all (\<lambda>x. k_lip (fst x)) flow_row now (sort_key (\<lambda>x. rank (fst x)) drained) (p2, d) of
                (records, (p3, d3)) \<Rightarrow> (p3, snd (InsertFlows records d3))))"

definition dns_row :: "int \<Rightarrow> DNSQueryEvent \<Rightarrow> DNSQueryRecord" where
  "dns_row i q = \<lparr>q_host = i, q_name = dq_name q, q_type = dq_type q, q_ts = Unix (dq_ts q)\<rparr>"

definition flushDNS :: "int \<Rightarrow> pstate \<Rightarrow> pstate" where
  "flushDNS now = (\<lambda>(p, d).
     let drained = dnsBuf p; p1 = p\<lparr>dnsBuf := []\<rparr>
     in if drained = [] then (p1, d)
        else (case resolve_all dq_lip dns_row now drained (p1, d) of
                (records, (p2, d2)) \<Rightarrow> (p2, snd (InsertDNSQueries records d2))))"

definition flush_dhcp_event :: "DHCPHostnameEvent \<Rightarrow> db \<Rightarrow> db" where
  "flush_dhcp_event ev d =
     (if dh_mac ev = [] \<or> dh_name ev = [] then d
      else snd (UpsertDHCPHostname (dh_mac ev) (dh_name ev) (Unix (dh_ts ev)) d))"

definition flushDHCP :: "pstate \<Rightarrow> pstate" where
  "flushDHCP = (\<lambda>(p, d). (p\<lparr>dhcpBuf := []\<rparr>, fold flush_dhcp_event (dhcpBuf p) d))"

section \<open>Steps\<close>

datatype pipe_op =
    Decoded layers
  | AddFlow FlowEvent
  | RememberMAC FlowEvent
  | BufferDNS DNSQueryEvent
  | BufferDHCP DHCPHostnameEvent
  | FlushFlows "FlowKey \<Rightarrow> nat" int
  | FlushDNS int
  | FlushDHCP

fun pipe_step :: "pipe_op \<Rightarrow> pstate \<Rightarrow> pstate" where
  "pipe_step (Decoded l) (p, d) = (p\<lparr>p_layers := l\<rparr>, d)"
| "pipe_step (AddFlow e) (p, d) = (p\<lparr>p_agg := Add e (p_agg p)\<rparr>, d)"
| "pipe_step (RememberMAC e) (p, d) = (rememberMAC e p, d)"
| "pipe_step (BufferDNS q) (p, d) = (p\<lparr>dnsBuf := dnsBuf p @ [q]\<rparr>, d)"
| "pipe_step (BufferDHCP ev) (p, d) = (p\<lparr>dhcpBuf := dhcpBuf p @ [ev]\<rparr>, d)"
| "pipe_step (FlushFlows rank now) s = flush_flows rank now s"
| "pipe_step (FlushDNS now) s = flushDNS now s"
| "pipe_step FlushDHCP s = flushDHCP s"

text \<open>One packet in the ingest goroutine: the decoder overwrites its layer structures, then the
  results go to the buffers in the order of the code.\<close>

definition packet_ops :: "DecodeResult \<times> layers \<Rightarrow> pipe_op list" where
  "packet_ops = (\<lambda>(r, l). [Decoded l]
     @ (case res_flow r of None \<Rightarrow> [] | Some e \<Rightarrow> [AddFlow e, RememberMAC e])
     @ (case res_flow2 r of None \<Rightarrow> [] | Some e \<Rightarrow> [AddFlow e, RememberMAC e])
     @ (case res_dns r of None \<Rightarrow> [] | Some q \<Rightarrow> [BufferDNS q])
     @ (case res_dhcp r of None \<Rightarrow> [] | Some ev \<Rightarrow> [BufferDHCP ev]))"

definition ingest :: "decode_env \<Rightarrow> IPNet \<Rightarrow> gotime \<Rightarrow> RawPacket \<Rightarrow> pstate \<Rightarrow> pstate" where
  "ingest env lan wall pkt s = fold pipe_step (packet_ops (Decode env lan wall pkt (p_layers (fst s)))) s"

definition flush_ops :: "(FlowKey \<Rightarrow> nat) \<Rightarrow> int \<Rightarrow> pipe_op list" where
  "flush_ops rank now = [FlushFlows rank now, FlushDNS now, FlushDHCP]"

definition flush :: "(FlowKey \<Rightarrow> nat) \<Rightarrow> gotime \<Rightarrow> pstate \<Rightarrow> pstate" where
  "flush rank now s = fold pipe_step (flush_ops rank (Unix now)) s"

text \<open>\<open>Run\<close>: packets and ticks in the order in which they happen, then the final flush.\<close>

datatype pipe_event = Packet RawPacket gotime | FlushTick "FlowKey \<Rightarrow> nat" gotime

fun on_event :: "decode_env \<Rightarrow> IPNet \<Rightarrow> pipe_event \<Rightarrow> pstate \<Rightarrow> pstate" where
  "on_event env lan (Packet pkt wall) s = ingest env lan wall pkt s"
| "on_event env lan (FlushTick rank now) s = flush rank now s"

definition pipeline_Run :: "decode_env \<Rightarrow> IPNet \<Rightarrow> pipe_event list \<Rightarrow> (FlowKey \<Rightarrow> nat) \<Rightarrow> gotime \<Rightarrow> pstate \<Rightarrow> pstate" where
  "pipeline_Run env lan evs rank now s = flush rank now (fold (on_event env lan) evs s)"

section \<open>What a flush may do to the host table\<close>

definition host_row :: "tables \<Rightarrow> string \<Rightarrow> int \<Rightarrow> bool" where
  "host_row t ip i \<longleftrightarrow> (\<exists>h \<in> set (hosts t). h_id h = i \<and> h_ip h = ip)"

text \<open>Later versions of a list of hosts: every row is still there, with the same identity and a
  \<open>last_seen\<close> that did not go back.\<close>

definition hosts_grow :: "Host list \<Rightarrow> Host list \<Rightarrow> bool" where
  "hosts_grow hs hs' \<longleftrightarrow>
     (\<forall>h \<in> set hs. \<exists>h' \<in> set hs'. h_id h' = h_id h \<and> h_ip h' = h_ip h \<and> h_last h \<le> h_last h')"

lemma hosts_grow_refl [simp]: "hosts_grow hs hs"
  by (auto simp: hosts_grow_def)

lemma hosts_grow_append [simp]: "hosts_grow hs (hs @ xs)"
  by (auto simp: hosts_grow_def)

lemma hosts_grow_map: "(\<And>h. h_id (f h) = h_id h \<and> h_ip (f h) = h_ip h \<and> h_last h \<le> h_last (f h)) \<Longrightarrow> hosts_grow hs (map f hs)"
  by (auto simp: hosts_grow_def)

lemma hosts_grow_trans:
  assumes "hosts_grow a b" and "hosts_grow b c"
  shows "hosts_grow a c"
  unfolding hosts_grow_def
proof
  fix h
  assume "h \<in> set a"
  then obtain h1 where 1: "h1 \<in> set b" "h_id h1 = h_id h" "h_ip h1 = h_ip h" "h_last h \<le> h_last h1"
    using assms(1) unfolding hosts_grow_def by blast
  then obtain h2 where "h2 \<in> set c" "h_id h2 = h_id h1" "h_ip h2 = h_ip h1" "h_last h1 \<le> h_last h2"
    using assms(2) unfolding hosts_grow_def by blast
  then show "\<exists>h' \<in> set c. h_id h' = h_id h \<and> h_ip h' = h_ip h \<and> h_last h \<le> h_last h'"
    using 1 by (intro bexI [of _ h2]) auto
qed

definition host_step :: "tables \<Rightarrow> tables \<Rightarrow> bool" where
  "host_step t t' \<longleftrightarrow> (wf_tables t \<longrightarrow> wf_tables t')
     \<and> (\<exists>hs n. t' = t\<lparr>hosts := hs, host_seq := n\<rparr> \<and> hosts_grow (hosts t) hs)"

lemma host_step_refl [simp]: "host_step t t"
  unfolding host_step_def by (intro conjI impI exI [of _ "hosts t"] exI [of _ "host_seq t"]) simp_all

lemma host_step_trans: "host_step t t' \<Longrightarrow> host_step t' t'' \<Longrightarrow> host_step t t''"
proof -
  assume a: "host_step t t'" and b: "host_step t' t''"
  from a obtain hs n where 1: "t' = t\<lparr>hosts := hs, host_seq := n\<rparr>" "hosts_grow (hosts t) hs"
    unfolding host_step_def by blast
  from b obtain hs' n' where 2: "t'' = t'\<lparr>hosts := hs', host_seq := n'\<rparr>" "hosts_grow (hosts t') hs'"
    unfolding host_step_def by blast
  have "t'' = t\<lparr>hosts := hs', host_seq := n'\<rparr>" "hosts_grow (hosts t) hs'"
    using 1 2 hosts_grow_trans by auto
  then show ?thesis using a b unfolding host_step_def by blast
qed

lemma host_stepD:
  assumes "host_step t t'"
  shows "wf_tables t \<Longrightarrow> wf_tables t'" and "host_row t ip i \<Longrightarrow> host_row t' ip i"
    and "flows_recent t' = flows_recent t" and "dns_queries t' = dns_queries t"
    and "hosts_grow (hosts t) (hosts t')"
  using assms unfolding host_step_def host_row_def hosts_grow_def by fastforce+

lemma host_step_exec:
  assumes "stmt_keeps wf_tables f"
    and "\<And>t a t'. f t = Inr (a, t') \<Longrightarrow> \<exists>hs n. t' = t\<lparr>hosts := hs, host_seq := n\<rparr> \<and> hosts_grow (hosts t) hs"
    and "exec f d = (r, d')"
  shows "host_step (tbl d) (tbl d')"
proof (cases rule: exec_cases [of f d])
  case fail
  then show ?thesis using assms(3) by simp
next
  case (success a t)
  then show ?thesis using assms(1,3) assms(2) [of "tbl d" a t] by (auto simp: host_step_def stmt_keeps_def)
qed

lemma host_step_UpsertHost: "UpsertHost ip now d = (r, d') \<Longrightarrow> host_step (tbl d) (tbl d')"
  unfolding UpsertHost_def
proof (erule host_step_exec [OF wf_sql_upsert_host, rotated])
  fix t a t'
  assume "sql_upsert_host ip now t = Inr (a, t')"
  then show "\<exists>hs n. t' = t\<lparr>hosts := hs, host_seq := n\<rparr> \<and> hosts_grow (hosts t) hs"
  proof (cases "find (\<lambda>h. h_ip h = ip) (hosts t)")
    case None
    with \<open>sql_upsert_host ip now t = Inr (a, t')\<close> show ?thesis
      unfolding sql_upsert_host_def by (auto intro!: exI)
  next
    case (Some h)
    with \<open>sql_upsert_host ip now t = Inr (a, t')\<close> show ?thesis
      unfolding sql_upsert_host_def
      by (intro exI [of _ "hosts t'"] exI [of _ "host_seq t"]) (auto intro!: hosts_grow_map)
  qed
qed

lemma host_step_SetHostMAC: "SetHostMAC i mac d = (r, d') \<Longrightarrow> host_step (tbl d) (tbl d')"
  unfolding SetHostMAC_def
proof (erule host_step_exec [OF wf_sql_set_host_mac, rotated])
  fix t a t'
  assume "sql_set_host_mac i mac t = Inr (a, t')"
  then show "\<exists>hs n. t' = t\<lparr>hosts := hs, host_seq := n\<rparr> \<and> hosts_grow (hosts t) hs"
    unfolding sql_set_host_mac_def
    by (intro exI [of _ "hosts t'"] exI [of _ "host_seq t"]) (auto intro!: hosts_grow_map)
qed

lemma UpsertHost_row:
  assumes "UpsertHost ip now d = (Inr i, d')"
  shows "\<exists>h \<in> set (hosts (tbl d')). h_id h = i \<and> h_ip h = ip \<and> now \<le> h_last h"
proof -
  have u: "sql_upsert_host ip now (tbl d) = Inr (i, tbl d')"
    using assms unfolding UpsertHost_def by (rule exec_InrD)
  show ?thesis
  proof (cases "find (\<lambda>h. h_ip h = ip) (hosts (tbl d))")
    case None
    then have "Inr (i, tbl d') = Inr (host_seq (tbl d), tbl d\<lparr>hosts := hosts (tbl d) @ [\<lparr>h_id = host_seq (tbl d),
        h_ip = ip, h_display = None, h_mac = None, h_first = now, h_last = now\<rparr>], host_seq := host_seq (tbl d) + 1\<rparr>)"
      using u [symmetric] by (simp add: sql_upsert_host_def)
    then show ?thesis by simp
  next
    case (Some h)
    let ?f = "\<lambda>x. if h_ip x = ip then x\<lparr>h_last := max (h_last x) now\<rparr> else x"
    have h: "h_ip h = ip" "h \<in> set (hosts (tbl d))" using find_SomeD [OF Some] by simp_all
    have "tbl d' = tbl d\<lparr>hosts := map ?f (hosts (tbl d))\<rparr>" "h_id h = i"
      using u [symmetric] Some by (simp_all add: sql_upsert_host_def)
    then show ?thesis using h by (intro bexI [of _ "?f h"]) auto
  qed
qed


section \<open>The invariant of the pipeline\<close>

definition cache_inv :: "pipeline \<Rightarrow> tables \<Rightarrow> bool" where
  "cache_inv p t \<longleftrightarrow> (\<forall>ip i. hostCache p ip = Some i \<longrightarrow> host_row t ip i)"

definition pipe_inv :: "pstate \<Rightarrow> bool" where
  "pipe_inv s \<longleftrightarrow> wf_tables (tbl (snd s)) \<and> cache_inv (fst s) (tbl (snd s))"

lemma cache_inv_mono: "cache_inv p t \<Longrightarrow> host_step t t' \<Longrightarrow> cache_inv p t'"
  by (auto simp: cache_inv_def dest: host_stepD(2))

text \<open>What resolving hosts may change of the pipeline: the host cache grows, and nothing of the
  buffers changes.\<close>

definition resolve_step :: "pipeline \<Rightarrow> pipeline \<Rightarrow> bool" where
  "resolve_step p p' \<longleftrightarrow> hostCache p \<subseteq>\<^sub>m hostCache p' \<and> bumpedThisFlush p \<subseteq> bumpedThisFlush p'
     \<and> p_agg p' = p_agg p \<and> p_layers p' = p_layers p \<and> macByIP p' = macByIP p \<and> dnsBuf p' = dnsBuf p
     \<and> dhcpBuf p' = dhcpBuf p"

lemma resolve_step_refl [simp]: "resolve_step p p"
  by (simp add: resolve_step_def)

lemma resolve_step_trans: "resolve_step p p' \<Longrightarrow> resolve_step p' p'' \<Longrightarrow> resolve_step p p''"
  unfolding resolve_step_def by (auto intro: map_le_trans)

lemma set_mac_effect:
  assumes "set_mac ip i (p, d) = (p', d')"
  shows "p' = p" and "host_step (tbl d) (tbl d')"
  using assms host_step_SetHostMAC [of i "lookupMAC p ip" d, OF prod.collapse [symmetric]]
  by (auto simp: set_mac_def split: if_splits)

lemma resolveHost_cases [consumes 1, case_names seen failed fresh known]:
  assumes "resolveHost ip now (p, d) = (r, (p', d'))"
  obtains "ip \<in> bumpedThisFlush p" "r = Inr (case hostCache p ip of None \<Rightarrow> 0 | Some i \<Rightarrow> i)" "p' = p" "d' = d"
  | e where "ip \<notin> bumpedThisFlush p" "hostCache p ip = None" "UpsertHost ip now d = (Inl e, d')" "r = Inl e"
      "p' = p\<lparr>bumpedThisFlush := insert ip (bumpedThisFlush p)\<rparr>"
  | i d1 where "ip \<notin> bumpedThisFlush p" "hostCache p ip = None" "UpsertHost ip now d = (Inr i, d1)" "r = Inr i"
      "p' = p\<lparr>bumpedThisFlush := insert ip (bumpedThisFlush p), hostCache := (hostCache p)(ip \<mapsto> i)\<rparr>"
      "d' = snd (set_mac ip i (p', d1))"
  | i r1 d1 where "ip \<notin> bumpedThisFlush p" "hostCache p ip = Some i" "UpsertHost ip now d = (r1, d1)" "r = Inr i"
      "p' = p\<lparr>bumpedThisFlush := insert ip (bumpedThisFlush p)\<rparr>" "d' = snd (set_mac ip i (p', d1))"
proof -
  obtain r1 d1 where u: "UpsertHost ip now d = (r1, d1)" by fastforce
  have mac: "fst (set_mac ip i (q, d1)) = q" for i q
    by (simp add: set_mac_def)
  note res = assms [symmetric, unfolded resolveHost_def Let_def prod.case u]
  show thesis
  proof (cases "ip \<in> bumpedThisFlush p")
    case True
    with res show thesis by (intro that(1)) simp_all
  next
    case False
    note new = this
    show thesis
    proof (cases "hostCache p ip")
      case None
      show thesis
      proof (cases r1)
        case (Inl e)
        with None new u res show thesis by (intro that(2) [of e]) simp_all
      next
        case (Inr i)
        let ?p = "p\<lparr>bumpedThisFlush := insert ip (bumpedThisFlush p), hostCache := (hostCache p)(ip \<mapsto> i)\<rparr>"
        have "(p', d') = set_mac ip i (?p, d1)" and r: "r = Inr i" using None new res Inr by simp_all
        then have "p' = ?p" "d' = snd (set_mac ip i (?p, d1))" using mac [of i ?p] by (metis fst_conv, metis snd_conv)
        then show thesis using that(3) [OF new None _ r] u Inr by simp
      qed
    next
      case (Some i)
      let ?p = "p\<lparr>bumpedThisFlush := insert ip (bumpedThisFlush p)\<rparr>"
      have "(p', d') = set_mac ip i (?p, d1)" and r: "r = Inr i" using Some new res by simp_all
      then have "p' = ?p" "d' = snd (set_mac ip i (?p, d1))" using mac [of i ?p] by (metis fst_conv, metis snd_conv)
      then show thesis using that(4) [OF new Some u r] by simp
    qed
  qed
qed

lemma host_step_set_mac: "host_step t (tbl d) \<Longrightarrow> host_step t (tbl (snd (set_mac ip i (p, d))))"
  using set_mac_effect(2) [of ip i p d, OF prod.collapse [symmetric]] by (auto intro: host_step_trans)

lemma cache_inv_update [simp]:
  "cache_inv (p\<lparr>bumpedThisFlush := b\<rparr>) t = cache_inv p t" "cache_inv (p\<lparr>p_agg := a\<rparr>) t = cache_inv p t"
  "cache_inv (p\<lparr>dnsBuf := q\<rparr>) t = cache_inv p t" "cache_inv (p\<lparr>dhcpBuf := h\<rparr>) t = cache_inv p t"
  "cache_inv (p\<lparr>macByIP := m\<rparr>) t = cache_inv p t" "cache_inv (p\<lparr>p_layers := l\<rparr>) t = cache_inv p t"
  by (simp_all add: cache_inv_def)

lemma resolveHost_effect:
  assumes "resolveHost ip now (p, d) = (r, (p', d'))" and "cache_inv p (tbl d)"
  shows "host_step (tbl d) (tbl d') \<and> cache_inv p' (tbl d') \<and> resolve_step p p' \<and> ip \<in> bumpedThisFlush p'"
  using assms(1)
proof (cases rule: resolveHost_cases)
  case seen
  then show ?thesis using assms(2) by simp
next
  case (failed e)
  then show ?thesis
    using assms(2) host_step_UpsertHost [OF failed(3)] by (auto simp: resolve_step_def intro: cache_inv_mono)
next
  case (fresh i d1)
  have s: "host_step (tbl d) (tbl d1)" using fresh(3) by (rule host_step_UpsertHost)
  have "cache_inv p' (tbl d1)"
    using UpsertHost_row [OF fresh(3)] cache_inv_mono [OF assms(2) s] fresh(5)
    by (auto simp: cache_inv_def host_row_def)
  then have "cache_inv p' (tbl d')"
    unfolding fresh(6) by (rule cache_inv_mono) (rule host_step_set_mac, simp)
  then show ?thesis
    using fresh(2,5,6) host_step_set_mac [OF s] by (auto simp: resolve_step_def map_le_def)
next
  case (known i r1 d1)
  have s: "host_step (tbl d) (tbl d')"
    unfolding known(6) by (rule host_step_set_mac) (rule host_step_UpsertHost [OF known(3)])
  then show ?thesis using known(5) assms(2) by (auto simp: resolve_step_def intro: cache_inv_mono)
qed

lemma resolve_all_effect:
  assumes "resolve_all ip_of mk now xs (p, d) = (rs, (p', d'))" and "cache_inv p (tbl d)"
  shows "host_step (tbl d) (tbl d') \<and> cache_inv p' (tbl d') \<and> resolve_step p p'"
  using assms
proof (induction xs arbitrary: p d rs)
  case (Cons x xs)
  obtain r p1 d1 where r: "resolveHost (ip_of x) now (p, d) = (r, (p1, d1))" by (metis prod.collapse)
  note e = resolveHost_effect [OF r Cons.prems(2)]
  obtain rs1 p2 d2 where t: "resolve_all ip_of mk now xs (p1, d1) = (rs1, (p2, d2))" by (metis prod.collapse)
  then have "p2 = p'" "d2 = d'" using Cons.prems(1) r by (cases r; simp)+
  then show ?case using Cons.IH [of p1 d1 rs1] t e by (auto intro: host_step_trans resolve_step_trans)
qed simp

lemma cache_inv_same_hosts: "cache_inv p t \<Longrightarrow> hosts t' = hosts t \<Longrightarrow> cache_inv p t'"
  by (simp add: cache_inv_def host_row_def)

lemma host_row_map:
  assumes "\<And>h. h_id (f h) = h_id h \<and> h_ip (f h) = h_ip h"
  shows "host_row (t\<lparr>hosts := map f hs\<rparr>) ip i \<longleftrightarrow> (\<exists>h \<in> set hs. h_id h = i \<and> h_ip h = ip)"
  using assms by (simp add: host_row_def del: image_Collect)

lemma InsertFlows_hosts: "InsertFlows rs d = (r, d') \<Longrightarrow> hosts (tbl d') = hosts (tbl d)"
proof (cases rule: run_tx_cases [of "map insertFlowChunk (chunk flowInsertChunk rs)" d])
  case (fail e)
  then show "InsertFlows rs d = (r, d') \<Longrightarrow> ?thesis" by (auto simp: InsertFlows_def split: if_splits)
next
  case (success t)
  have "hosts t = hosts (tbl d)" using success(3) by (auto simp: tx_fold_insertFlowChunks split: if_splits)
  then show "InsertFlows rs d = (r, d') \<Longrightarrow> ?thesis" using success by (auto simp: InsertFlows_def split: if_splits)
qed

lemma InsertDNSQueries_hosts: "InsertDNSQueries rs d = (r, d') \<Longrightarrow> hosts (tbl d') = hosts (tbl d)"
proof (cases rule: run_tx_cases [of "map insertDNSChunk (chunk dnsInsertChunk rs)" d])
  case (fail e)
  then show "InsertDNSQueries rs d = (r, d') \<Longrightarrow> ?thesis" by (auto simp: InsertDNSQueries_def split: if_splits)
next
  case (success t)
  have "hosts t = hosts (tbl d)" using success(3) by (auto simp: tx_fold_insertDNSChunks split: if_splits)
  then show "InsertDNSQueries rs d = (r, d') \<Longrightarrow> ?thesis" using success by (auto simp: InsertDNSQueries_def split: if_splits)
qed

lemma keeps_InsertFlows: "keeps wf_tables (InsertFlows rs)"
  using keeps_run_tx [of wf_tables "map insertFlowChunk (chunk flowInsertChunk rs)"]
  by (simp add: keeps_def InsertFlows_def list_all_iff wf_insertFlowChunk)

lemma keeps_InsertDNSQueries: "keeps wf_tables (InsertDNSQueries rs)"
  using keeps_run_tx [of wf_tables "map insertDNSChunk (chunk dnsInsertChunk rs)"]
  by (simp add: keeps_def InsertDNSQueries_def list_all_iff wf_insertDNSChunk)

text \<open>An empty drain needs no special case: nothing is resolved and nothing inserted.\<close>

lemma flush_flows_run:
  assumes "resolve_all (\<lambda>x. k_lip (fst x)) flow_row now (sort_key (\<lambda>x. rank (fst x)) (p_agg p))
      (p\<lparr>bumpedThisFlush := {}, p_agg := NewAggregator\<rparr>, d) = (rs, (p', d'))"
  shows "flush_flows rank now (p, d) = (p', snd (InsertFlows rs d'))"
  using assms by (auto simp: flush_flows_def Drain_def Let_def InsertFlows_def)

lemma flushDNS_run:
  assumes "resolve_all dq_lip dns_row now (dnsBuf p) (p\<lparr>dnsBuf := []\<rparr>, d) = (rs, (p', d'))"
  shows "flushDNS now (p, d) = (p', snd (InsertDNSQueries rs d'))"
  using assms by (auto simp: flushDNS_def Let_def InsertDNSQueries_def)

lemma pipe_inv_flush_flows: "pipe_inv s \<Longrightarrow> pipe_inv (flush_flows rank now s)"
proof -
  assume inv: "pipe_inv s"
  obtain p d where s: "s = (p, d)" by fastforce
  let ?p = "p\<lparr>bumpedThisFlush := {}, p_agg := NewAggregator\<rparr>"
  let ?xs = "sort_key (\<lambda>x. rank (fst x)) (p_agg p)"
  obtain rs p3 d3 where r: "resolve_all (\<lambda>x. k_lip (fst x)) flow_row now ?xs (?p, d) = (rs, (p3, d3))"
    by (metis prod.collapse)
  obtain u d4 where i: "InsertFlows rs d3 = (u, d4)" by fastforce
  have "wf_tables (tbl d)" "cache_inv ?p (tbl d)" using inv by (simp_all add: pipe_inv_def s)
  then have "wf_tables (tbl d3)" "cache_inv p3 (tbl d3)"
    using resolve_all_effect [OF r] host_stepD(1) by blast+
  then have "wf_tables (tbl d4)" "cache_inv p3 (tbl d4)"
    using keepsD [OF keeps_InsertFlows i] cache_inv_same_hosts [OF _ InsertFlows_hosts [OF i]] by blast+
  then show ?thesis using flush_flows_run [OF r] i by (simp add: s pipe_inv_def)
qed

lemma pipe_inv_flushDNS: "pipe_inv s \<Longrightarrow> pipe_inv (flushDNS now s)"
proof -
  assume inv: "pipe_inv s"
  obtain p d where s: "s = (p, d)" by fastforce
  obtain rs p3 d3 where r: "resolve_all dq_lip dns_row now (dnsBuf p) (p\<lparr>dnsBuf := []\<rparr>, d) = (rs, (p3, d3))"
    by (metis prod.collapse)
  obtain u d4 where i: "InsertDNSQueries rs d3 = (u, d4)" by fastforce
  have "wf_tables (tbl d)" "cache_inv (p\<lparr>dnsBuf := []\<rparr>) (tbl d)" using inv by (simp_all add: pipe_inv_def s)
  then have "wf_tables (tbl d3)" "cache_inv p3 (tbl d3)"
    using resolve_all_effect [OF r] host_stepD(1) by blast+
  then have "wf_tables (tbl d4)" "cache_inv p3 (tbl d4)"
    using keepsD [OF keeps_InsertDNSQueries i] cache_inv_same_hosts [OF _ InsertDNSQueries_hosts [OF i]] by blast+
  then show ?thesis using flushDNS_run [OF r] i by (simp add: s pipe_inv_def)
qed

text \<open>A DHCP announcement renames hosts and nothing else of them.\<close>

lemma UpsertDHCPHostname_effect:
  assumes "UpsertDHCPHostname mac name seen d = (r, d')"
  shows "(wf_tables (tbl d) \<longrightarrow> wf_tables (tbl d')) \<and> (\<forall>ip i. host_row (tbl d) ip i \<longrightarrow> host_row (tbl d') ip i)
    \<and> flows_recent (tbl d') = flows_recent (tbl d) \<and> dns_queries (tbl d') = dns_queries (tbl d)"
proof (cases rule: run_tx_cases [of "[\<lambda>t. Inr (sql_upsert_dhcp mac name seen t), \<lambda>t. Inr (sql_set_display_name mac name t)]" d])
  case (fail e)
  then show ?thesis using assms by (simp add: UpsertDHCPHostname_def)
next
  case (success t)
  then have t: "tbl d' = sql_set_display_name mac name (sql_upsert_dhcp mac name seen (tbl d))"
    using assms by (simp add: UpsertDHCPHostname_def)
  have "wf_tables (tbl d) \<longrightarrow> wf_tables (tbl d')" unfolding t by (intro impI wf_intros)
  moreover have "host_row (tbl d) ip i \<Longrightarrow> host_row (tbl d') ip i" for ip i
    unfolding t by (simp add: sql_set_display_name_def sql_upsert_dhcp_def host_row_map) (simp add: host_row_def)
  ultimately show ?thesis unfolding t by (simp add: sql_set_display_name_def sql_upsert_dhcp_def)
qed

lemma pipe_inv_flushDHCP: "pipe_inv s \<Longrightarrow> pipe_inv (flushDHCP s)"
proof -
  assume inv: "pipe_inv s"
  obtain p d where s: "s = (p, d)" by fastforce
  have step: "wf_tables (tbl (flush_dhcp_event ev d)) \<and> cache_inv p (tbl (flush_dhcp_event ev d))"
    if "wf_tables (tbl d) \<and> cache_inv p (tbl d)" for ev d
    using that UpsertDHCPHostname_effect [of "dh_mac ev" "dh_name ev" "Unix (dh_ts ev)" d, OF prod.collapse [symmetric]]
    by (auto simp: flush_dhcp_event_def cache_inv_def)
  have "wf_tables (tbl (fold flush_dhcp_event evs d)) \<and> cache_inv p (tbl (fold flush_dhcp_event evs d))"
    if "wf_tables (tbl d) \<and> cache_inv p (tbl d)" for evs d
    using that by (induction evs arbitrary: d) (use step in auto)
  then show ?thesis using inv by (simp add: s flushDHCP_def pipe_inv_def)
qed

lemma pipe_inv_step: "pipe_inv s \<Longrightarrow> pipe_inv (pipe_step op s)"
proof (cases op)
  case (RememberMAC e)
  assume "pipe_inv s"
  then show ?thesis using RememberMAC by (cases s) (simp add: pipe_inv_def rememberMAC_def)
qed (cases s; simp add: pipe_inv_flush_flows pipe_inv_flushDNS pipe_inv_flushDHCP; simp add: pipe_inv_def)+

lemma pipe_inv_fold: "pipe_inv s \<Longrightarrow> pipe_inv (fold pipe_step ops s)"
  by (induction ops arbitrary: s) (simp_all add: pipe_inv_step)

text \<open>The pipeline never corrupts the database and never mislabels a host. From a database
  that satisfies the schema invariant, after any interleaving of ingest and flush steps and any
  driver failures, the invariant still holds and every entry of the host cache is the id of the
  host row with that address.\<close>

theorem pipeline_invariant:
  assumes "wf_tables (tbl d)" and "fold pipe_step ops (NewPipeline l, d) = (p', d')"
  shows "wf_tables (tbl d') \<and> (\<forall>ip i. hostCache p' ip = Some i \<longrightarrow>
           (\<exists>h \<in> set (hosts (tbl d')). h_id h = i \<and> h_ip h = ip))"
proof -
  have "pipe_inv (NewPipeline l, d)" using assms(1) by (simp add: pipe_inv_def cache_inv_def NewPipeline_def)
  from pipe_inv_fold [OF this, of ops] show ?thesis
    using assms(2) by (simp add: pipe_inv_def cache_inv_def host_row_def)
qed

text \<open>A flow event of the decoder for the witnesses.\<close>

definition demo_flow_event :: FlowEvent where
  "demo_flow_event = \<lparr>e_key = \<lparr>k_dir = 0, k_proto = 17, k_lip = ''10.0.0.5'', k_lport = 5353, k_rip = ''8.8.8.8'', k_rport = 53\<rparr>,
     e_ts = 60000000000, e_bytes = 3, e_local_src = True, e_mac = ''02:00:00:00:00:01''\<rparr>"

definition demo_ops :: "pipe_op list" where
  "demo_ops = [AddFlow demo_flow_event, RememberMAC demo_flow_event, FlushFlows (\<lambda>_. 0) 60, FlushDNS 60, FlushDHCP]"

definition demo_db :: db where
  "demo_db = \<lparr>tbl = empty_tables, db_faults = []\<rparr>"

lemma demo_cache: "hostCache (fst (fold pipe_step demo_ops (NewPipeline demo_layers, demo_db))) ''10.0.0.5'' = Some 1"
  by code_simp

theorem pipeline_invariant_witness:
  "wf_tables (tbl (snd (fold pipe_step demo_ops (NewPipeline demo_layers, demo_db))))
   \<and> (\<exists>h \<in> set (hosts (tbl (snd (fold pipe_step demo_ops (NewPipeline demo_layers, demo_db))))). h_id h = 1 \<and> h_ip h = ''10.0.0.5'')"
proof -
  have "wf_tables (tbl demo_db)" by (simp add: demo_db_def wf_empty_tables)
  from pipeline_invariant [OF this prod.collapse [symmetric], of demo_ops demo_layers] show ?thesis
    using demo_cache by blast
qed

section \<open>Without driver failures, a flush is exact\<close>

definition bump_inv :: "pipeline \<Rightarrow> bool" where
  "bump_inv p \<longleftrightarrow> bumpedThisFlush p \<subseteq> dom (hostCache p)"

lemma UpsertHost_ok:
  assumes "db_faults d = []"
  obtains i d' where "UpsertHost ip now d = (Inr i, d')" and "db_faults d' = []"
proof (cases "find (\<lambda>h. h_ip h = ip) (hosts (tbl d))")
  case None
  then show thesis using assms that by (simp add: UpsertHost_def exec_ok sql_upsert_host_def)
next
  case (Some h)
  then show thesis using assms that by (simp add: UpsertHost_def exec_ok sql_upsert_host_def)
qed

lemma set_mac_ok: "db_faults d = [] \<Longrightarrow> db_faults (snd (set_mac ip i (p, d))) = []"
  by (simp add: set_mac_def SetHostMAC_def exec_ok sql_set_host_mac_def)

lemma resolveHost_ok:
  assumes "resolveHost ip now (p, d) = (r, (p', d'))" and "db_faults d = []" and "bump_inv p"
  shows "\<exists>i. r = Inr i \<and> hostCache p' ip = Some i" and "db_faults d' = []" and "bump_inv p'"
proof -
  obtain j e where u: "UpsertHost ip now d = (Inr j, e)" "db_faults e = []" using UpsertHost_ok [OF assms(2)] .
  have "(\<exists>i. r = Inr i \<and> hostCache p' ip = Some i) \<and> db_faults d' = [] \<and> bump_inv p'"
    using assms(1)
  proof (cases rule: resolveHost_cases)
    case seen
    then show ?thesis using assms(2,3) by (auto simp: bump_inv_def)
  next
    case (failed e)
    then show ?thesis using u by simp
  next
    case (fresh i d1)
    then show ?thesis using u assms(3) set_mac_ok by (auto simp: bump_inv_def)
  next
    case (known i r1 d1)
    then show ?thesis using u assms(3) set_mac_ok by (auto simp: bump_inv_def)
  qed
  then show "\<exists>i. r = Inr i \<and> hostCache p' ip = Some i" and "db_faults d' = []" and "bump_inv p'"
    by blast+
qed

definition cached_id :: "pipeline \<Rightarrow> string \<Rightarrow> int" where
  "cached_id p ip = the (hostCache p ip)"

lemma resolve_all_ok:
  assumes "resolve_all ip_of mk now xs (p, d) = (rs, (p', d'))" and "db_faults d = []" and "bump_inv p" and "cache_inv p (tbl d)"
  shows "rs = map (\<lambda>x. mk (cached_id p' (ip_of x)) x) xs \<and> (\<forall>x \<in> set xs. ip_of x \<in> dom (hostCache p'))
    \<and> db_faults d' = [] \<and> bump_inv p'"
  using assms
proof (induction xs arbitrary: p d rs)
  case (Cons x xs)
  obtain r p1 d1 where r: "resolveHost (ip_of x) now (p, d) = (r, (p1, d1))" by (metis prod.collapse)
  note ok = resolveHost_ok [OF r Cons.prems(2,3)]
  note e = resolveHost_effect [OF r Cons.prems(4)]
  obtain i where i: "r = Inr i" "hostCache p1 (ip_of x) = Some i" using ok(1) by blast
  obtain rs1 where t: "resolve_all ip_of mk now xs (p1, d1) = (rs1, (p', d'))" and rs: "rs = mk i x # rs1"
    using Cons.prems(1) r i by (auto split: prod.splits)
  have "resolve_step p1 p'" using resolve_all_effect [OF t] e by blast
  then have "hostCache p' (ip_of x) = Some i" using i by (force simp: resolve_step_def map_le_def)
  then show ?case using Cons.IH [OF t] ok e rs by (auto simp: cached_id_def)
qed simp

lemma cached_host_id: "cache_inv p t \<Longrightarrow> ip \<in> dom (hostCache p) \<Longrightarrow> host_row t ip (cached_id p ip)"
  by (auto simp: cache_inv_def cached_id_def)

lemma host_row_id: "host_row t ip i \<Longrightarrow> i \<in> host_ids t"
  by (auto simp: host_row_def host_ids_def)

lemma flush_flows_ok:
  assumes "flush_flows rank now (p, d) = (p', d')" and "pipe_inv (p, d)" and "db_faults d = []"
  shows "flows_recent (tbl d') = flows_recent (tbl d)
       @ map (\<lambda>x. flow_row (cached_id p' (k_lip (fst x))) x) (sort_key (\<lambda>x. rank (fst x)) (p_agg p))"
    and "\<forall>x \<in> set (p_agg p). host_row (tbl d') (k_lip (fst x)) (cached_id p' (k_lip (fst x)))"
    and "p_agg p' = NewAggregator" and "dnsBuf p' = dnsBuf p" and "dns_queries (tbl d') = dns_queries (tbl d)"
    and "db_faults d' = []" and "bump_inv p'" and "\<forall>ip i. host_row (tbl d) ip i \<longrightarrow> host_row (tbl d') ip i"
proof -
  let ?xs = "sort_key (\<lambda>x. rank (fst x)) (p_agg p)"
  let ?p = "p\<lparr>bumpedThisFlush := {}, p_agg := NewAggregator\<rparr>"
  let ?row = "\<lambda>x. flow_row (cached_id p' (k_lip (fst x))) x"
  obtain rs q d3 where r: "resolve_all (\<lambda>x. k_lip (fst x)) flow_row now ?xs (?p, d) = (rs, (q, d3))"
    by (metis prod.collapse)
  have q: "q = p'" "d' = snd (InsertFlows rs d3)" using assms(1) flush_flows_run [OF r] by simp_all
  have c: "cache_inv ?p (tbl d)" using assms(2) by (simp add: pipe_inv_def)
  note ok = resolve_all_ok [OF r assms(3) _ c, unfolded q]
  note e = resolve_all_effect [OF r c, unfolded q]
  have rs: "rs = map ?row ?xs" and f: "db_faults d3 = []" and b: "bump_inv p'"
    and dom: "\<forall>x \<in> set (p_agg p). k_lip (fst x) \<in> dom (hostCache p')"
    using ok by (simp_all add: bump_inv_def)
  have row: "\<forall>x \<in> set (p_agg p). host_row (tbl d3) (k_lip (fst x)) (cached_id p' (k_lip (fst x)))"
    using dom e cached_host_id by blast
  have "list_all (\<lambda>r. f_host r \<in> host_ids (tbl d3)) rs"
    using row unfolding rs by (auto simp: list_all_iff flow_row_def host_row_id)
  from InsertFlows_ok [OF f this]
  have d': "d' = d3\<lparr>tbl := (tbl d3)\<lparr>flows_recent := flows_recent (tbl d3) @ rs\<rparr>\<rparr>" using q by simp
  show "flows_recent (tbl d') = flows_recent (tbl d) @ map ?row ?xs"
    using host_stepD(3) e unfolding d' rs by (simp add: host_stepD(3))
  show "\<forall>x \<in> set (p_agg p). host_row (tbl d') (k_lip (fst x)) (cached_id p' (k_lip (fst x)))"
    using row unfolding d' by (simp add: host_row_def)
  show "p_agg p' = NewAggregator" "dnsBuf p' = dnsBuf p" using e by (simp_all add: resolve_step_def)
  show "dns_queries (tbl d') = dns_queries (tbl d)" using e unfolding d' by (simp add: host_stepD(4))
  show "db_faults d' = []" using f by (simp add: d')
  show "bump_inv p'" using b .
  show "\<forall>ip i. host_row (tbl d) ip i \<longrightarrow> host_row (tbl d') ip i"
    using host_stepD(2) [of "tbl d" "tbl d3"] e unfolding d' by (simp add: host_row_def)
qed

lemma flushDNS_ok:
  assumes "flushDNS now (p, d) = (p', d')" and "pipe_inv (p, d)" and "db_faults d = []" and "bump_inv p"
  shows "dns_queries (tbl d') = dns_queries (tbl d) @ map (\<lambda>q. dns_row (cached_id p' (dq_lip q)) q) (dnsBuf p)"
    and "\<forall>q \<in> set (dnsBuf p). host_row (tbl d') (dq_lip q) (cached_id p' (dq_lip q))"
    and "dnsBuf p' = []" and "p_agg p' = p_agg p" and "flows_recent (tbl d') = flows_recent (tbl d)"
    and "db_faults d' = []" and "bump_inv p'"
    and "\<forall>ip i. host_row (tbl d) ip i \<longrightarrow> host_row (tbl d') ip i"
proof -
  let ?row = "\<lambda>q. dns_row (cached_id p' (dq_lip q)) q"
  obtain rs q d3 where r: "resolve_all dq_lip dns_row now (dnsBuf p) (p\<lparr>dnsBuf := []\<rparr>, d) = (rs, (q, d3))"
    by (metis prod.collapse)
  have q: "q = p'" "d' = snd (InsertDNSQueries rs d3)" using assms(1) flushDNS_run [OF r] by simp_all
  have c: "cache_inv (p\<lparr>dnsBuf := []\<rparr>) (tbl d)" "bump_inv (p\<lparr>dnsBuf := []\<rparr>)"
    using assms(2,4) by (simp_all add: pipe_inv_def bump_inv_def)
  note ok = resolve_all_ok [OF r assms(3) c(2,1), unfolded q]
  note e = resolve_all_effect [OF r c(1), unfolded q]
  have row: "\<forall>x \<in> set (dnsBuf p). host_row (tbl d3) (dq_lip x) (cached_id p' (dq_lip x))"
    using ok e cached_host_id by blast
  have "list_all (\<lambda>r. q_host r \<in> host_ids (tbl d3)) rs"
    using row ok by (auto simp: list_all_iff dns_row_def host_row_id)
  from InsertDNSQueries_ok [OF _ this] ok
  have d': "d' = d3\<lparr>tbl := (tbl d3)\<lparr>dns_queries := dns_queries (tbl d3) @ map ?row (dnsBuf p)\<rparr>\<rparr>" using q by simp
  show "dns_queries (tbl d') = dns_queries (tbl d) @ map ?row (dnsBuf p)"
    using e unfolding d' by (simp add: host_stepD(4))
  show "\<forall>q \<in> set (dnsBuf p). host_row (tbl d') (dq_lip q) (cached_id p' (dq_lip q))"
    using row unfolding d' by (simp add: host_row_def)
  show "\<forall>ip i. host_row (tbl d) ip i \<longrightarrow> host_row (tbl d') ip i"
    using host_stepD(2) [of "tbl d" "tbl d3"] e unfolding d' by (simp add: host_row_def)
  show "flows_recent (tbl d') = flows_recent (tbl d)" using e unfolding d' by (simp add: host_stepD(3))
  show "dnsBuf p' = []" "p_agg p' = p_agg p" using e by (simp_all add: resolve_step_def)
  show "db_faults d' = []" "bump_inv p'" using ok by (simp_all add: d')
qed

lemma flushDHCP_ok:
  assumes "flushDHCP (p, d) = (p', d')" and "db_faults d = []"
  shows "p' = p\<lparr>dhcpBuf := []\<rparr>" and "flows_recent (tbl d') = flows_recent (tbl d)" and "db_faults d' = []"
    and "dns_queries (tbl d') = dns_queries (tbl d)" and "\<forall>ip i. host_row (tbl d) ip i \<longrightarrow> host_row (tbl d') ip i"
proof -
  let ?ok = "\<lambda>d d'. flows_recent (tbl d') = flows_recent (tbl d) \<and> dns_queries (tbl d') = dns_queries (tbl d)
    \<and> (\<forall>ip i. host_row (tbl d) ip i \<longrightarrow> host_row (tbl d') ip i) \<and> db_faults d' = []"
  have step: "?ok d (flush_dhcp_event ev d)" if "db_faults d = []" for ev d
    using that UpsertDHCPHostname_effect [of "dh_mac ev" "dh_name ev" "Unix (dh_ts ev)" d, OF prod.collapse [symmetric]]
    by (auto simp: flush_dhcp_event_def UpsertDHCPHostname_def run_tx_ok)
  have all: "?ok d (fold flush_dhcp_event evs d)" if "db_faults d = []" for evs d
    using that
  proof (induction evs arbitrary: d)
    case (Cons ev evs)
    then show ?case using step [OF Cons.prems, of ev] Cons.IH [of "flush_dhcp_event ev d"] by simp
  qed simp
  have d': "d' = fold flush_dhcp_event (dhcpBuf p) d" and p': "p' = p\<lparr>dhcpBuf := []\<rparr>" using assms(1) by (simp_all add: flushDHCP_def)
  show "p' = p\<lparr>dhcpBuf := []\<rparr>" by (fact p')
  show "flows_recent (tbl d') = flows_recent (tbl d)" "db_faults d' = []" "dns_queries (tbl d') = dns_queries (tbl d)"
    "\<forall>ip i. host_row (tbl d) ip i \<longrightarrow> host_row (tbl d') ip i"
    using all [OF assms(2)] unfolding d' by simp_all
qed

section \<open>Conservation of bytes\<close>

fun flow_events :: "pipe_op list \<Rightarrow> FlowEvent list" where
  "flow_events [] = []"
| "flow_events (op # ops) = (case op of AddFlow e \<Rightarrow> e # flow_events ops | _ \<Rightarrow> flow_events ops)"

lemma flow_events_append [simp]: "flow_events (xs @ ys) = flow_events xs @ flow_events ys"
  by (induction xs) (auto split: pipe_op.splits)

definition row_key :: "FlowRecord \<Rightarrow> FlowKey" where
  "row_key r = \<lparr>k_dir = f_dir r, k_proto = f_proto r, k_lip = f_lip r, k_lport = f_lport r, k_rip = f_rip r, k_rport = f_rport r\<rparr>"

text \<open>The bytes of one flow on one side (\<^const>\<open>True\<close>: sent by the local host), in the rows of
  \<open>flows_recent\<close>, in the table of the aggregator and in a list of events.\<close>

definition row_bytes :: "bool \<Rightarrow> FlowKey \<Rightarrow> FlowRecord list \<Rightarrow> int" where
  "row_bytes sent k rs = sum_list (map (if sent then f_sent else f_recv) (filter (\<lambda>r. row_key r = k) rs))"

definition acc_bytes :: "bool \<Rightarrow> FlowAccum \<Rightarrow> int" where
  "acc_bytes sent a = (if sent then a_sent a else a_recv a)"

definition agg_bytes :: "bool \<Rightarrow> FlowKey \<Rightarrow> agg_table \<Rightarrow> int" where
  "agg_bytes sent k t = (case map_of t k of None \<Rightarrow> 0 | Some a \<Rightarrow> acc_bytes sent a)"

definition event_bytes :: "bool \<Rightarrow> FlowKey \<Rightarrow> FlowEvent list \<Rightarrow> int" where
  "event_bytes sent k es = sum_list (map e_bytes (filter (\<lambda>e. e_local_src e = sent) (of_key k es)))"

lemma row_bytes_append [simp]: "row_bytes b k (rs @ rs') = row_bytes b k rs + row_bytes b k rs'"
  by (simp add: row_bytes_def)

lemma event_bytes_append [simp]: "event_bytes b k (es @ es') = event_bytes b k es + event_bytes b k es'"
  by (simp add: event_bytes_def of_key_def)

lemma row_key_flow_row [simp]: "row_key (flow_row i x) = fst x"
  by (cases x) (simp add: row_key_def flow_row_def)

lemma flow_row_sel [simp]:
  "f_sent (flow_row i x) = a_sent (snd x)" "f_recv (flow_row i x) = a_recv (snd x)" "f_host (flow_row i x) = i"
  "f_lip (flow_row i x) = k_lip (fst x)" "f_dir (flow_row i x) = k_dir (fst x)"
  by (cases x; simp add: flow_row_def)+

lemma sum_of_key:
  "distinct (map fst t) \<Longrightarrow>
     sum_list (map (\<lambda>x. g (snd x)) (filter (\<lambda>x. fst x = k) t)) = (case map_of t k of None \<Rightarrow> 0 | Some a \<Rightarrow> g a)"
  for g :: "'a \<Rightarrow> int"
proof (induction t)
  case (Cons x t)
  have "fst x \<notin> set (map fst t)" using Cons.prems by simp
  then have "filter (\<lambda>y. fst y = fst x) t = []" unfolding filter_empty_conv by (metis list.set_map imageI)
  then show ?case using Cons by (cases x) auto
qed simp

lemma row_bytes_flushed:
  assumes "distinct (map fst t)"
  shows "row_bytes b k (map (\<lambda>x. flow_row (i x) x) (sort_key rank t)) = agg_bytes b k t"
proof -
  have "row_bytes b k (map (\<lambda>x. flow_row (i x) x) (sort_key rank t))
      = sum_list (map (\<lambda>x. acc_bytes b (snd x)) (filter (\<lambda>x. fst x = k) (sort_key rank t)))"
    by (simp add: row_bytes_def filter_map comp_def acc_bytes_def)
  also have "\<dots> = sum_list (map (\<lambda>x. acc_bytes b (snd x)) (filter (\<lambda>x. fst x = k) t))"
    by (rule sum_list_map_mset) simp
  finally show ?thesis using sum_of_key [OF assms] by (simp add: agg_bytes_def)
qed

lemma event_bytes_range:
  assumes "\<forall>e \<in> set es. 0 \<le> e_bytes e"
  shows "0 \<le> event_bytes b k es" and "event_bytes b k es \<le> sum_list (map e_bytes es)"
proof -
  show "0 \<le> event_bytes b k es" using assms by (auto simp: event_bytes_def of_key_def intro!: sum_list_nonneg)
  show "event_bytes b k es \<le> sum_list (map e_bytes es)"
    using assms by (induction es) (auto simp: event_bytes_def of_key_def)
qed

lemma agg_bytes_events:
  assumes "\<forall>e \<in> set es. 0 \<le> e_bytes e" and "sum_list (map e_bytes es) < 2 ^ 63"
  shows "agg_bytes b k (fold Add es NewAggregator) = event_bytes b k es"
proof -
  have "int64 (event_bytes b k es) = event_bytes b k es"
    using event_bytes_range [OF assms(1), of b k] assms(2) by (intro int64_id) linarith+
  then show ?thesis
    by (cases b) (auto simp: agg_bytes_def Add_all acc_bytes_def accum_of_def event_bytes_def)
qed


text \<open>Inductive form: the live table aggregates the events since the last drain.\<close>

definition conserves :: "tables \<Rightarrow> FlowEvent list \<Rightarrow> pstate \<Rightarrow> bool" where
  "conserves t0 es s \<longleftrightarrow>
     (\<exists>pre rest new. es = pre @ rest \<and> p_agg (fst s) = fold Add rest NewAggregator
        \<and> (\<forall>b k. row_bytes b k new = event_bytes b k pre) \<and> flows_recent (tbl (snd s)) = flows_recent t0 @ new
        \<and> (\<forall>r \<in> set new. host_row (tbl (snd s)) (f_lip r) (f_host r)))"

definition quiet :: "pstate \<Rightarrow> bool" where
  "quiet s \<longleftrightarrow> pipe_inv s \<and> db_faults (snd s) = [] \<and> bump_inv (fst s)"

text \<open>A step that leaves the table, the rows and the hosts' identities alone conserves.\<close>

lemma conserves_mono:
  assumes "conserves t0 es (p, d)" and "p_agg p' = p_agg p" and "flows_recent (tbl d') = flows_recent (tbl d)"
    and "\<forall>ip i. host_row (tbl d) ip i \<longrightarrow> host_row (tbl d') ip i"
  shows "conserves t0 es (p', d')"
  using assms unfolding conserves_def by fastforce

lemma conserves_flush_flows:
  assumes "conserves t0 es (p, d)" and "quiet (p, d)" and "flush_flows rank now (p, d) = (p', d')"
    and "\<forall>e \<in> set es. 0 \<le> e_bytes e" and "sum_list (map e_bytes es) < 2 ^ 63"
  shows "conserves t0 es (p', d')"
proof -
  obtain pre rest new where es: "es = pre @ rest" and agg: "p_agg p = fold Add rest NewAggregator"
    and rows: "\<forall>b k. row_bytes b k new = event_bytes b k pre"
    and new: "flows_recent (tbl d) = flows_recent t0 @ new" "\<forall>r \<in> set new. host_row (tbl d) (f_lip r) (f_host r)"
    using assms(1) unfolding conserves_def fst_conv snd_conv by blast
  have q: "pipe_inv (p, d)" "db_faults d = []" using assms(2) by (simp_all add: quiet_def)
  note ok = flush_flows_ok [OF assms(3) q]
  let ?add = "map (\<lambda>x. flow_row (cached_id p' (k_lip (fst x))) x) (sort_key (\<lambda>x. rank (fst x)) (p_agg p))"
  have pos: "0 \<le> sum_list (map e_bytes pre)" using assms(4) es by (intro sum_list_nonneg) auto
  have "sum_list (map e_bytes rest) < 2 ^ 63" using pos assms(5) es by simp
  then have "row_bytes b k ?add = event_bytes b k rest" for b k
    using row_bytes_flushed [of "p_agg p" b k] agg_bytes_events [of rest b k] distinct_Add_all [of rest] assms(4) es
    by (simp add: agg)
  then have "\<forall>b k. row_bytes b k (new @ ?add) = event_bytes b k es"
    using rows es by simp
  moreover have "flows_recent (tbl d') = flows_recent t0 @ (new @ ?add)" using ok(1) new by simp
  moreover have "\<forall>r \<in> set (new @ ?add). host_row (tbl d') (f_lip r) (f_host r)"
    using ok(2) new(2) ok(8) by auto
  ultimately show ?thesis
    unfolding conserves_def using ok(3) by (intro exI [of _ es] exI [of _ "[]"] exI [of _ "new @ ?add"]) simp
qed


lemma quiet_step:
  assumes "quiet s"
  shows "quiet (pipe_step op s)"
proof -
  obtain p d where s: "s = (p, d)" by fastforce
  have inv: "pipe_inv (pipe_step op s)" using assms by (intro pipe_inv_step) (simp add: quiet_def)
  have q: "pipe_inv (p, d)" "db_faults d = []" "bump_inv p" using assms by (simp_all add: quiet_def s)
  have "db_faults (snd (pipe_step op s)) = [] \<and> bump_inv (fst (pipe_step op s))"
  proof (cases op)
    case (FlushFlows rank now)
    then show ?thesis using flush_flows_ok(6,7) [OF prod.collapse [symmetric] q(1,2)] by (simp add: s)
  next
    case (FlushDNS now)
    then show ?thesis using flushDNS_ok(6,7) [OF prod.collapse [symmetric] q] by (simp add: s)
  next
    case FlushDHCP
    then show ?thesis using flushDHCP_ok(1,3) [OF prod.collapse [symmetric] q(2)] q(3) by (simp add: s bump_inv_def)
  qed (use q in \<open>simp_all add: s bump_inv_def rememberMAC_def\<close>)
  with inv show ?thesis by (simp add: quiet_def)
qed

lemma conserves_step:
  assumes "conserves t0 es (p, d)" and "quiet (p, d)" and "pipe_step op (p, d) = (p', d')"
    and "\<forall>e \<in> set es. 0 \<le> e_bytes e" and "sum_list (map e_bytes es) < 2 ^ 63"
  shows "conserves t0 (es @ flow_events [op]) (p', d')"
proof -
  have q: "pipe_inv (p, d)" "db_faults d = []" "bump_inv p" using assms(2) by (simp_all add: quiet_def)
  show ?thesis
  proof (cases op)
    case (AddFlow e)
    obtain pre rest new where "es = pre @ rest" "p_agg p = fold Add rest NewAggregator"
      "\<forall>b k. row_bytes b k new = event_bytes b k pre" "flows_recent (tbl d) = flows_recent t0 @ new"
      "\<forall>r \<in> set new. host_row (tbl d) (f_lip r) (f_host r)"
      using assms(1) unfolding conserves_def fst_conv snd_conv by blast
    then show ?thesis
      using assms(3) AddFlow unfolding conserves_def
      by (intro exI [of _ pre] exI [of _ "rest @ [e]"] exI [of _ new]) auto
  next
    case (FlushFlows rank now)
    then show ?thesis using conserves_flush_flows [OF assms(1,2) _ assms(4,5)] assms(3) by simp
  next
    case (FlushDNS now)
    then have "flushDNS now (p, d) = (p', d')" using assms(3) by simp
    from flushDNS_ok [OF this q] show ?thesis using FlushDNS by (auto intro!: conserves_mono [OF assms(1)])
  next
    case FlushDHCP
    then have "flushDHCP (p, d) = (p', d')" using assms(3) by simp
    from flushDHCP_ok [OF this q(2)] show ?thesis using FlushDHCP by (auto intro!: conserves_mono [OF assms(1)])
  qed (use assms(1,3) in \<open>auto intro!: conserves_mono [OF assms(1)] simp: rememberMAC_def\<close>)
qed

lemma conserves_run:
  assumes "wf_tables (tbl d)" and "db_faults d = []"
    and "\<forall>e \<in> set (flow_events ops). 0 \<le> e_bytes e" and "sum_list (map e_bytes (flow_events ops)) < 2 ^ 63"
  shows "quiet (fold pipe_step ops (NewPipeline l, d))
    \<and> conserves (tbl d) (flow_events ops) (fold pipe_step ops (NewPipeline l, d))"
  using assms(3,4)
proof (induction ops rule: rev_induct)
  case Nil
  show ?case
    using assms(1,2) by (auto simp: quiet_def pipe_inv_def cache_inv_def bump_inv_def NewPipeline_def conserves_def row_bytes_def event_bytes_def of_key_def)
next
  case (snoc op ops)
  have nn: "0 \<le> sum_list (map e_bytes (flow_events [op]))" using snoc.prems(1) by (intro sum_list_nonneg) auto
  then have "sum_list (map e_bytes (flow_events ops)) < 2 ^ 63" using snoc.prems(2) by simp
  note IH = snoc.IH [OF _ this]
  obtain p1 d1 where s: "fold pipe_step ops (NewPipeline l, d) = (p1, d1)" by fastforce
  obtain p2 d2 where s2: "pipe_step op (p1, d1) = (p2, d2)" by fastforce
  have 1: "quiet (p1, d1)" "conserves (tbl d) (flow_events ops) (p1, d1)" using IH snoc.prems(1) s by simp_all
  show ?case
    using quiet_step [OF 1(1), of op] conserves_step [OF 1(2,1) s2] s s2 snoc.prems(1) \<open>sum_list (map e_bytes (flow_events ops)) < 2 ^ 63\<close>
    by simp
qed

lemma conserved_bytes:
  assumes "wf_tables (tbl d)" and "db_faults d = []"
    and "\<forall>e \<in> set (flow_events ops). 0 \<le> e_bytes e" and "sum_list (map e_bytes (flow_events ops)) < 2 ^ 63"
    and "fold pipe_step ops (NewPipeline l, d) = (p', d')"
  shows "\<exists>new. flows_recent (tbl d') = flows_recent (tbl d) @ new
     \<and> (\<forall>sent k. row_bytes sent k new + agg_bytes sent k (p_agg p') = event_bytes sent k (flow_events ops))
     \<and> (\<forall>r \<in> set new. \<exists>h \<in> set (hosts (tbl d')). h_id h = f_host r \<and> h_ip h = f_lip r)"
proof -
  obtain pre rest new where c: "flow_events ops = pre @ rest" "p_agg p' = fold Add rest NewAggregator"
    "\<forall>b k. row_bytes b k new = event_bytes b k pre" "flows_recent (tbl d') = flows_recent (tbl d) @ new"
    "\<forall>r \<in> set new. host_row (tbl d') (f_lip r) (f_host r)"
    using conserves_run [OF assms(1-4), of l] unfolding assms(5) conserves_def fst_conv snd_conv by blast
  have "0 \<le> sum_list (map e_bytes pre)" using assms(3) c(1) by (intro sum_list_nonneg) auto
  then have "sum_list (map e_bytes rest) < 2 ^ 63" using assms(4) c(1) by simp
  then have "agg_bytes b k (p_agg p') = event_bytes b k rest" for b k
    using agg_bytes_events [of rest b k] assms(3) c(1,2) by simp
  then show ?thesis using c by (intro exI [of _ new]) (auto simp: host_row_def)
qed

text \<open>C5: no byte is lost, invented or attributed to the wrong flow between the decoder and the
  database. While the driver does not fail and the traffic fits \<open>int64\<close>, after any interleaving
  of ingest and flush steps the bytes of every flow, on either side, in the new rows of
  \<open>flows_recent\<close> plus those still in the aggregator are exactly the bytes of its events; the old
  rows are untouched and every new row belongs to the host with its local address.\<close>

theorem pipeline_conserves_bytes:
  assumes "wf_tables (tbl d)" and "db_faults d = []"
    and "\<forall>e \<in> set (flow_events ops). 0 \<le> e_bytes e" and "sum_list (map e_bytes (flow_events ops)) < 2 ^ 63"
    and "fold pipe_step ops (NewPipeline l, d) = (p', d')"
  shows "\<exists>new. flows_recent (tbl d') = flows_recent (tbl d) @ new
     \<and> (\<forall>sent k. row_bytes sent k new + agg_bytes sent k (p_agg p') = event_bytes sent k (flow_events ops))
     \<and> (\<forall>r \<in> set new. \<exists>h \<in> set (hosts (tbl d')). h_id h = f_host r \<and> h_ip h = f_lip r)"
  using assms by (rule conserved_bytes)

theorem pipeline_conserves_bytes_witness:
  "\<exists>new. flows_recent (tbl (snd (fold pipe_step demo_ops (NewPipeline demo_layers, demo_db)))) = flows_recent (tbl demo_db) @ new
     \<and> row_bytes True (e_key demo_flow_event) new
         + agg_bytes True (e_key demo_flow_event) (p_agg (fst (fold pipe_step demo_ops (NewPipeline demo_layers, demo_db)))) = 3"
proof -
  have "wf_tables (tbl demo_db)" "db_faults demo_db = []" by (simp_all add: demo_db_def wf_empty_tables)
  moreover have "flow_events demo_ops = [demo_flow_event]" by (simp add: demo_ops_def)
  moreover have "event_bytes True (e_key demo_flow_event) [demo_flow_event] = 3" "e_bytes demo_flow_event = 3"
    by (simp_all add: event_bytes_def of_key_def demo_flow_event_def)
  ultimately show ?thesis
    using pipeline_conserves_bytes [OF _ _ _ _ prod.collapse [symmetric], of demo_db demo_ops demo_layers] by force
qed

section \<open>The whole run\<close>

text \<open>The operations of a sequence of packets and ticks, with the decoder's layers threaded
  through.\<close>

fun event_ops :: "decode_env \<Rightarrow> IPNet \<Rightarrow> pipe_event list \<Rightarrow> layers \<Rightarrow> pipe_op list" where
  "event_ops env lan [] l = []"
| "event_ops env lan (Packet pkt wall # evs) l =
     packet_ops (Decode env lan wall pkt l) @ event_ops env lan evs (snd (Decode env lan wall pkt l))"
| "event_ops env lan (FlushTick rank now # evs) l = flush_ops rank (Unix now) @ event_ops env lan evs l"

lemma flush_flows_layers: "p_layers (fst (flush_flows rank now (p, d))) = p_layers p" if "cache_inv p (tbl d)"
proof -
  obtain rs q d3 where r: "resolve_all (\<lambda>x. k_lip (fst x)) flow_row now (sort_key (\<lambda>x. rank (fst x)) (p_agg p))
      (p\<lparr>bumpedThisFlush := {}, p_agg := NewAggregator\<rparr>, d) = (rs, (q, d3))" by (metis prod.collapse)
  then show ?thesis using flush_flows_run [OF r] resolve_all_effect [OF r] that by (simp add: resolve_step_def)
qed

lemma flushDNS_layers: "p_layers (fst (flushDNS now (p, d))) = p_layers p" if "cache_inv p (tbl d)"
proof -
  obtain rs q d3 where r: "resolve_all dq_lip dns_row now (dnsBuf p) (p\<lparr>dnsBuf := []\<rparr>, d) = (rs, (q, d3))"
    by (metis prod.collapse)
  then show ?thesis using flushDNS_run [OF r] resolve_all_effect [OF r] that by (simp add: resolve_step_def)
qed

lemma pipe_step_layers:
  "pipe_inv s \<Longrightarrow> p_layers (fst (pipe_step op s)) = (case op of Decoded l \<Rightarrow> l | _ \<Rightarrow> p_layers (fst s))"
  by (cases s; cases op) (simp_all add: pipe_inv_def flush_flows_layers flushDNS_layers flushDHCP_def rememberMAC_def)

lemma packet_layers: "pipe_inv s \<Longrightarrow> p_layers (fst (fold pipe_step (packet_ops (r, l)) s)) = l"
  by (auto simp: packet_ops_def pipe_step_layers pipe_inv_step split: option.splits)

lemma flush_layers: "pipe_inv s \<Longrightarrow> p_layers (fst (fold pipe_step (flush_ops rank now) s)) = p_layers (fst s)"
  by (simp add: flush_ops_def pipe_step_layers pipe_inv_step del: pipe_step.simps)

lemma on_events_ops:
  "pipe_inv s \<Longrightarrow> fold (on_event env lan) evs s = fold pipe_step (event_ops env lan evs (p_layers (fst s))) s"
proof (induction evs arbitrary: s)
  case (Cons ev evs)
  show ?case
  proof (cases ev)
    case (Packet pkt wall)
    let ?s = "ingest env lan wall pkt s"
    have "pipe_inv ?s" using Cons.prems by (simp add: ingest_def pipe_inv_fold)
    moreover have "p_layers (fst ?s) = snd (Decode env lan wall pkt (p_layers (fst s)))"
      using packet_layers [OF Cons.prems, of "fst (Decode env lan wall pkt (p_layers (fst s)))" "snd (Decode env lan wall pkt (p_layers (fst s)))"] by (simp add: ingest_def)
    ultimately show ?thesis using Cons.IH [of ?s] Packet by (simp add: ingest_def)
  next
    case (FlushTick rank now)
    have "pipe_inv (flush rank now s)" using Cons.prems by (simp add: flush_def pipe_inv_fold)
    then show ?thesis using Cons.IH [of "flush rank now s"] FlushTick flush_layers [OF Cons.prems] by (simp add: flush_def)
  qed
qed simp

text \<open>The flow events of the packets, in the order of their arrival.\<close>

fun decoded_flows :: "decode_env \<Rightarrow> IPNet \<Rightarrow> pipe_event list \<Rightarrow> layers \<Rightarrow> FlowEvent list" where
  "decoded_flows env lan [] l = []"
| "decoded_flows env lan (Packet pkt wall # evs) l =
     (case Decode env lan wall pkt l of
        (r, l') \<Rightarrow> List.map_filter id [res_flow r, res_flow2 r] @ decoded_flows env lan evs l')"
| "decoded_flows env lan (FlushTick rank now # evs) l = decoded_flows env lan evs l"

lemma flow_events_ops: "flow_events (event_ops env lan evs l) = decoded_flows env lan evs l"
  by (induction env lan evs l rule: event_ops.induct)
    (auto simp: packet_ops_def flush_ops_def map_filter_def split: prod.splits option.splits)

lemma decoded_flow:
  assumes "e \<in> set (decoded_flows env lan evs l)"
  shows "0 \<le> e_bytes e" and "k_dir (e_key e) = DirLANToWAN \<Longrightarrow> e_local_src e"
proof -
  have "0 \<le> e_bytes e \<and> (k_dir (e_key e) = DirLANToWAN \<longrightarrow> e_local_src e)"
    using assms
  proof (induction env lan evs l rule: decoded_flows.induct)
    case (2 env lan pkt wall evs l)
    obtain r l' where d: "Decode env lan wall pkt l = (r, l')" by fastforce
    show ?case
      using "2.prems" "2.IH" [OF d [symmetric]] d
      by (auto simp: map_filter_def Decode_def no_result_def buildFlowEvent_def Let_def dir_defs split: if_splits option.splits)
  qed auto
  then show "0 \<le> e_bytes e" and "k_dir (e_key e) = DirLANToWAN \<Longrightarrow> e_local_src e" by simp_all
qed

lemma capture_conserves:
  assumes "wf_tables (tbl d)" and "db_faults d = []"
    and "sum_list (map e_bytes (decoded_flows env lan evs l)) < 2 ^ 63"
    and "pipeline_Run env lan evs rank now (NewPipeline l, d) = (p', d')"
  shows "p_agg p' = NewAggregator \<and> (\<exists>new. flows_recent (tbl d') = flows_recent (tbl d) @ new
     \<and> (\<forall>sent k. row_bytes sent k new = event_bytes sent k (decoded_flows env lan evs l))
     \<and> (\<forall>r \<in> set new. \<exists>h \<in> set (hosts (tbl d')). h_id h = f_host r \<and> h_ip h = f_lip r))"
proof -
  let ?ops = "event_ops env lan evs l"
  have "pipe_inv (NewPipeline l, d)" "p_layers (NewPipeline l) = l"
    using assms(1) by (simp_all add: pipe_inv_def cache_inv_def NewPipeline_def)
  then have run: "fold pipe_step (?ops @ flush_ops rank (Unix now)) (NewPipeline l, d) = (p', d')"
    using assms(4) by (simp add: pipeline_Run_def flush_def on_events_ops)
  have ev: "flow_events (?ops @ flush_ops rank (Unix now)) = decoded_flows env lan evs l"
    by (simp add: flow_events_ops flush_ops_def)
  have 0: "\<forall>e \<in> set (flow_events ?ops). 0 \<le> e_bytes e" using decoded_flow(1) by (auto simp: flow_events_ops)
  have q: "quiet (fold pipe_step ?ops (NewPipeline l, d))"
    using conserves_run [OF assms(1,2) 0, of l] assms(3) unfolding flow_events_ops by blast
  obtain p1 d1 where 1: "fold pipe_step ?ops (NewPipeline l, d) = (p1, d1)" by fastforce
  obtain p2 d2 where 2: "flush_flows rank (Unix now) (p1, d1) = (p2, d2)" by fastforce
  obtain p3 d3 where 3: "flushDNS (Unix now) (p2, d2) = (p3, d3)" by fastforce
  have 4: "flushDHCP (p3, d3) = (p', d')" using run 1 2 3 by (simp add: flush_ops_def)
  have q1: "quiet (p2, d2)" "quiet (p3, d3)"
    using quiet_step [OF q, of "FlushFlows rank (Unix now)"] quiet_step [of "(p2, d2)" "FlushDNS (Unix now)"] 1 2 3 by simp_all
  have "p_agg p2 = NewAggregator" using flush_flows_ok(3) [OF 2] q 1 by (simp add: quiet_def)
  then have "p_agg p' = NewAggregator"
    using flushDNS_ok(4) [OF 3] flushDHCP_ok(1) [OF 4] q1 by (simp add: quiet_def)
  moreover have "agg_bytes b k NewAggregator = 0" for b k by (simp add: agg_bytes_def NewAggregator_def)
  ultimately show ?thesis
    using conserved_bytes [OF assms(1,2) _ _ run, unfolded ev] assms(3) 0 [unfolded flow_events_ops] by simp
qed

text \<open>C4: end to end, what the capture writes is what it decoded. Run from a fresh pipeline over
  any sequence of packets and flush ticks with the final flush, while the driver does not fail and
  the traffic fits \<open>int64\<close>: nothing stays in the aggregator, the rows added to \<open>flows_recent\<close> have
  for every flow and side exactly the bytes of its decoded events, and every row names the host
  with its local address.\<close>

theorem capture_end_to_end:
  assumes "wf_tables (tbl d)" and "db_faults d = []"
    and "sum_list (map e_bytes (decoded_flows env lan evs l)) < 2 ^ 63"
    and "pipeline_Run env lan evs rank now (NewPipeline l, d) = (p', d')"
  shows "p_agg p' = NewAggregator \<and> (\<exists>new. flows_recent (tbl d') = flows_recent (tbl d) @ new
     \<and> (\<forall>sent k. row_bytes sent k new = event_bytes sent k (decoded_flows env lan evs l))
     \<and> (\<forall>r \<in> set new. \<exists>h \<in> set (hosts (tbl d')). h_id h = f_host r \<and> h_ip h = f_lip r))"
  using assms by (rule capture_conserves)

theorem capture_end_to_end_witness:
  "\<exists>new. flows_recent (tbl (snd (pipeline_Run demo_env demo_lan [Packet demo_packet 0] (\<lambda>_. 0) 60000000000
                                   (NewPipeline demo_layers, demo_db)))) = flows_recent (tbl demo_db) @ new
     \<and> row_bytes True (e_key demo_flow_event) new = 3"
proof -
  have 1: "decoded_flows demo_env demo_lan [Packet demo_packet 0] demo_layers = [demo_flow_event]" by code_simp
  have 2: "wf_tables (tbl demo_db)" "db_faults demo_db = []" by (simp_all add: demo_db_def wf_empty_tables)
  have 3: "event_bytes True (e_key demo_flow_event) [demo_flow_event] = 3" "e_bytes demo_flow_event = 3"
    by (simp_all add: event_bytes_def of_key_def demo_flow_event_def)
  show ?thesis
    using capture_end_to_end [OF 2 _ prod.collapse [symmetric], of demo_env demo_lan "[Packet demo_packet 0]" demo_layers "\<lambda>_. 0" 60000000000]
      1 3 by force
qed

section \<open>A failed host upsert\<close>

text \<open>Once the upsert of an address has failed in a flush, later items of the address resolve to
  the id 0.\<close>

lemma resolveHost_other:
  assumes "resolveHost ip' now (p, d) = (r, (p', d'))" and "ip \<in> bumpedThisFlush p" and "hostCache p ip = None"
  shows "hostCache p' ip = None" and "ip \<in> bumpedThisFlush p'" and "ip' = ip \<Longrightarrow> r = Inr 0"
  using assms(1) by (cases rule: resolveHost_cases; use assms(2,3) in auto)+

lemma resolve_all_orphan:
  assumes "resolve_all ip_of mk now xs (p, d) = (rs, (p', d'))" and "ip \<in> bumpedThisFlush p" and "hostCache p ip = None"
    and "x \<in> set xs" and "ip_of x = ip"
  shows "mk 0 x \<in> set rs"
  using assms
proof (induction xs arbitrary: p d rs)
  case (Cons y ys)
  obtain r p1 d1 where r: "resolveHost (ip_of y) now (p, d) = (r, (p1, d1))" by (metis prod.collapse)
  note o = resolveHost_other [OF r Cons.prems(2,3)]
  obtain rs1 p2 d2 where t: "resolve_all ip_of mk now ys (p1, d1) = (rs1, (p2, d2))" by (metis prod.collapse)
  have IH: "x \<in> set ys \<Longrightarrow> mk 0 x \<in> set rs1" using Cons.IH [of p1 d1 rs1] t o Cons.prems(1,5) r by (cases r) auto
  show ?case
    using Cons.prems(1,4,5) r t o(3) IH by (cases r) auto
qed simp

lemma zero_not_host: "wf_tables t \<Longrightarrow> 0 \<notin> host_ids t"
  by (force simp: wf_tables_def wf_hosts_def host_ids_def)

lemma InsertFlows_orphan:
  assumes "wf_tables (tbl d)" and "r \<in> set rs" and "f_host r = 0"
  shows "tbl (snd (InsertFlows rs d)) = tbl d"
proof (cases rule: run_tx_cases [of "map insertFlowChunk (chunk flowInsertChunk rs)" d])
  case (fail e)
  then show ?thesis by (simp add: InsertFlows_def)
next
  case (success t)
  then have "list_all (\<lambda>r. f_host r \<in> host_ids (tbl d)) rs"
    by (simp add: tx_fold_insertFlowChunks concat_chunk flowInsertChunk_def split: if_splits)
  then show ?thesis using assms zero_not_host [OF assms(1)] by (force simp: list_all_iff)
qed

text \<open>One transient driver failure can cost a whole flush. When the upsert of the first
  drained flow's host fails and that host, not seen before, has a second flow in the same drain,
  the second one is queued under the host id 0; the batch insert then violates its foreign key and
  no flow of any host is stored, although the driver never fails again. The drained table is
  gone, so these flows are lost.\<close>

theorem failed_upsert_loses_batch:
  assumes "wf_tables (tbl d)" and "db_faults d = [True]" and "cache_inv p (tbl d)"
    and "sort_key (\<lambda>x. rank (fst x)) (p_agg p) = x # xs" and "y \<in> set xs"
    and "k_lip (fst y) = k_lip (fst x)" and "hostCache p (k_lip (fst x)) = None"
    and "flush_flows rank now (p, d) = (p', d')"
  shows "flows_recent (tbl d') = flows_recent (tbl d) \<and> p_agg p' = NewAggregator"
proof -
  let ?ip = "k_lip (fst x)" and ?p = "p\<lparr>bumpedThisFlush := {}, p_agg := NewAggregator\<rparr>"
  let ?p1 = "?p\<lparr>bumpedThisFlush := {?ip}\<rparr>" and ?d1 = "d\<lparr>db_faults := []\<rparr>"
  have "UpsertHost ?ip now d = (Inl ErrIO, ?d1)" using assms(2) by (simp add: UpsertHost_def exec_def driver_call_def)
  then have x: "resolveHost ?ip now (?p, d) = (Inl ErrIO, (?p1, ?d1))" using assms(7) by (simp add: resolveHost_def)
  obtain rs q d3 where r: "resolve_all (\<lambda>x. k_lip (fst x)) flow_row now xs (?p1, ?d1) = (rs, (q, d3))" by (metis prod.collapse)
  have run: "flush_flows rank now (p, d) = (q, snd (InsertFlows rs d3))"
    using flush_flows_run [of now rank p d rs q d3] x r assms(4) by simp
  have e: "host_step (tbl d) (tbl d3)" "resolve_step ?p1 q" using resolve_all_effect [OF r] assms(3) by simp_all
  have "flow_row 0 y \<in> set rs" using resolve_all_orphan [OF r, of ?ip y] assms(5,6,7) by simp
  then have "tbl (snd (InsertFlows rs d3)) = tbl d3"
    using InsertFlows_orphan [of d3 "flow_row 0 y" rs] host_stepD(1) [OF e(1) assms(1)] by simp
  then show ?thesis
    using run assms(8) e host_stepD(3) [OF e(1)] by (auto simp: resolve_step_def)
qed

definition orphan_demo :: pipeline where
  "orphan_demo = fst (fold pipe_step [AddFlow demo_flow_event,
     AddFlow (demo_flow_event\<lparr>e_key := (e_key demo_flow_event)\<lparr>k_lport := 5354\<rparr>\<rparr>),
     AddFlow (demo_flow_event\<lparr>e_key := (e_key demo_flow_event)\<lparr>k_lip := ''10.0.0.6''\<rparr>\<rparr>)] (NewPipeline demo_layers, demo_db))"

theorem failed_upsert_loses_batch_witness:
  "length (p_agg orphan_demo) = 3
   \<and> flows_recent (tbl (snd (flush_flows (\<lambda>_. 0) 60 (orphan_demo, demo_db\<lparr>db_faults := [True]\<rparr>)))) = []"
proof -
  let ?d = "demo_db\<lparr>db_faults := [True]\<rparr>"
  have len: "length (p_agg orphan_demo) = 3" by code_simp
  let ?t = "sort_key (\<lambda>x. 0 :: nat) (p_agg orphan_demo)"
  obtain x y z where t: "p_agg orphan_demo = [x, y, z]"
    using len by (auto simp: length_Suc_conv numeral_3_eq_3)
  have k: "map (\<lambda>x. k_lip (fst x)) (p_agg orphan_demo) = [''10.0.0.5'', ''10.0.0.5'', ''10.0.0.6'']" by code_simp
  have 1: "sort_key (\<lambda>x. (\<lambda>_. 0 :: nat) (fst x)) (p_agg orphan_demo) = x # [y, z]"
    unfolding t by simp
  have 2: "wf_tables (tbl ?d)" "db_faults ?d = [True]" by (simp_all add: demo_db_def wf_empty_tables)
  have 3: "hostCache orphan_demo = Map.empty"
    by (simp add: orphan_demo_def NewPipeline_def demo_db_def)
  then have 4: "cache_inv orphan_demo (tbl ?d)" by (simp add: cache_inv_def)
  have "flows_recent (tbl (snd (flush_flows (\<lambda>_. 0) 60 (orphan_demo, ?d)))) = flows_recent (tbl ?d)"
    using failed_upsert_loses_batch [OF 2 4 1 _ _ _ prod.collapse [symmetric], of y 60] k 3 t by simp
  then show ?thesis using len by (simp add: demo_db_def empty_tables_def)
qed

section \<open>What every captured row inherits from its events\<close>

lemma upsert_Ball:
  assumes "\<forall>x \<in> set xs. P x" and "P (k, f None)" and "\<And>v. P (k, v) \<Longrightarrow> P (k, f (Some v))"
  shows "\<forall>x \<in> set (upsert k f xs). P x"
  using assms by (induction k f xs rule: upsert.induct) auto

lemma resolve_all_rows:
  "resolve_all ip_of mk now xs s = (rs, s') \<Longrightarrow> r \<in> set rs \<Longrightarrow> \<exists>x \<in> set xs. \<exists>i. r = mk i x"
proof (induction xs arbitrary: s rs s')
  case (Cons x xs)
  obtain r0 s1 where r: "resolveHost (ip_of x) now s = (r0, s1)" by (metis prod.collapse)
  obtain rs1 s2 where t: "resolve_all ip_of mk now xs s1 = (rs1, s2)" by (metis prod.collapse)
  show ?case using Cons.prems r t Cons.IH [OF t] by (cases r0) auto
qed simp

lemma InsertFlows_rows: "set (flows_recent (tbl (snd (InsertFlows rs d)))) \<subseteq> set (flows_recent (tbl d)) \<union> set rs"
proof (cases rule: run_tx_cases [of "map insertFlowChunk (chunk flowInsertChunk rs)" d])
  case (fail e)
  then show ?thesis by (auto simp: InsertFlows_def)
next
  case (success t)
  have "flows_recent t = flows_recent (tbl d) @ rs"
    using success(3) by (auto simp: tx_fold_insertFlowChunks concat_chunk flowInsertChunk_def split: if_splits)
  then show ?thesis using success by (auto simp: InsertFlows_def)
qed

lemma InsertDNSQueries_flows: "flows_recent (tbl (snd (InsertDNSQueries rs d))) = flows_recent (tbl d)"
proof (cases rule: run_tx_cases [of "map insertDNSChunk (chunk dnsInsertChunk rs)" d])
  case (fail e)
  then show ?thesis by (auto simp: InsertDNSQueries_def)
next
  case (success t)
  have "flows_recent t = flows_recent (tbl d)" using success(3) by (auto simp: tx_fold_insertDNSChunks split: if_splits)
  then show ?thesis using success by (auto simp: InsertDNSQueries_def)
qed

lemma flushDNS_flows:
  assumes "pipe_inv (p, d)"
  shows "flows_recent (tbl (snd (flushDNS now (p, d)))) = flows_recent (tbl d) \<and> p_agg (fst (flushDNS now (p, d))) = p_agg p"
proof -
  obtain rs q d3 where r: "resolve_all dq_lip dns_row now (dnsBuf p) (p\<lparr>dnsBuf := []\<rparr>, d) = (rs, (q, d3))"
    by (metis prod.collapse)
  then show ?thesis
    using resolve_all_effect [OF r] assms flushDNS_run [OF r]
    by (simp add: InsertDNSQueries_flows pipe_inv_def host_stepD(3) resolve_step_def)
qed

lemma flushDHCP_flows: "flows_recent (tbl (snd (flushDHCP (p, d)))) = flows_recent (tbl d) \<and> p_agg (fst (flushDHCP (p, d))) = p_agg p"
proof -
  have step: "flows_recent (tbl (flush_dhcp_event ev d)) = flows_recent (tbl d)" for ev d
    using UpsertDHCPHostname_effect [of "dh_mac ev" "dh_name ev" "Unix (dh_ts ev)" d, OF prod.collapse [symmetric]]
    by (simp add: flush_dhcp_event_def)
  have "flows_recent (tbl (fold flush_dhcp_event evs d)) = flows_recent (tbl d)" for evs d
    by (induction evs arbitrary: d) (simp_all add: step)
  then show ?thesis by (simp add: flushDHCP_def)
qed

text \<open>A predicate on events that starts and survives in the accumulators of the aggregator and shows in the
  rows that a flush writes holds of every row a run adds. No driver failure matters: a row that
  is lost satisfies nothing.\<close>

locale row_property =
  fixes ev :: "FlowEvent \<Rightarrow> bool"
    and acc :: "FlowKey \<Rightarrow> FlowAccum \<Rightarrow> bool"
    and row :: "FlowRecord \<Rightarrow> bool"
  assumes acc_new: "ev e \<Longrightarrow> acc (e_key e) (add_event e None)"
    and acc_add: "ev e \<Longrightarrow> acc (e_key e) a \<Longrightarrow> acc (e_key e) (add_event e (Some a))"
    and acc_row: "acc k a \<Longrightarrow> row (flow_row i (k, a))"
begin

definition holds :: "pstate \<Rightarrow> bool" where
  "holds s \<longleftrightarrow> (\<forall>x \<in> set (p_agg (fst s)). acc (fst x) (snd x)) \<and> (\<forall>r \<in> set (flows_recent (tbl (snd s))). row r)"

lemma holds_Add: "\<forall>x \<in> set t. acc (fst x) (snd x) \<Longrightarrow> ev e \<Longrightarrow> \<forall>x \<in> set (Add e t). acc (fst x) (snd x)"
  unfolding Add_def by (rule upsert_Ball) (simp_all add: acc_new acc_add)

lemma holds_flush_flows:
  assumes "holds (p, d)" and "pipe_inv (p, d)"
  shows "holds (flush_flows rank now (p, d))"
proof -
  obtain rs q d3 where r: "resolve_all (\<lambda>x. k_lip (fst x)) flow_row now (sort_key (\<lambda>x. rank (fst x)) (p_agg p))
      (p\<lparr>bumpedThisFlush := {}, p_agg := NewAggregator\<rparr>, d) = (rs, (q, d3))" by (metis prod.collapse)
  have e: "host_step (tbl d) (tbl d3)" "p_agg q = NewAggregator"
    using resolve_all_effect [OF r] assms(2) by (simp_all add: pipe_inv_def resolve_step_def)
  have "row r" if "r \<in> set rs" for r
    using resolve_all_rows [OF r that] assms(1) acc_row by (auto simp: holds_def)
  then show ?thesis
    using flush_flows_run [OF r] e InsertFlows_rows [of rs d3] assms(1)
    by (auto simp: holds_def NewAggregator_def host_stepD(3))
qed

lemma holds_step:
  assumes "holds s" and "pipe_inv s" and "\<forall>e \<in> set (flow_events [op]). ev e"
  shows "holds (pipe_step op s)"
proof -
  obtain p d where s: "s = (p, d)" by fastforce
  show ?thesis
  proof (cases op)
    case (AddFlow e)
    then show ?thesis using assms(1,3) holds_Add [of "p_agg p" e] by (simp add: s holds_def)
  next
    case (FlushFlows rank now)
    then show ?thesis using assms(1,2) holds_flush_flows by (simp add: s)
  next
    case (FlushDNS now)
    then show ?thesis using assms(1,2) flushDNS_flows [of p d now] by (simp add: s holds_def)
  next
    case FlushDHCP
    then show ?thesis using assms(1) flushDHCP_flows [of p d] by (simp add: s holds_def)
  qed (use assms(1) in \<open>simp_all add: s holds_def rememberMAC_def\<close>)
qed

lemma holds_fold:
  assumes "holds s" and "pipe_inv s" and "\<forall>e \<in> set (flow_events ops). ev e"
  shows "holds (fold pipe_step ops s)"
  using assms
proof (induction ops arbitrary: s)
  case (Cons op ops)
  have "\<forall>e \<in> set (flow_events [op]). ev e" "\<forall>e \<in> set (flow_events ops). ev e" using Cons.prems(3) by (cases op; simp)+
  then show ?case using Cons.IH [of "pipe_step op s"] holds_step [of s op] Cons.prems(1,2) pipe_inv_step by simp
qed simp

lemma rows_of_run:
  assumes "wf_tables (tbl d)" and "\<forall>r \<in> set (flows_recent (tbl d)). row r" and "\<forall>e \<in> set (decoded_flows env lan evs l). ev e"
    and "pipeline_Run env lan evs rank now (NewPipeline l, d) = (p', d')"
  shows "\<forall>r \<in> set (flows_recent (tbl d')). row r"
proof -
  let ?ops = "event_ops env lan evs l @ flush_ops rank (Unix now)"
  have inv: "pipe_inv (NewPipeline l, d)" "p_layers (NewPipeline l) = l" "holds (NewPipeline l, d)"
    using assms(1,2) by (simp_all add: pipe_inv_def cache_inv_def NewPipeline_def holds_def NewAggregator_def)
  then have "fold pipe_step ?ops (NewPipeline l, d) = (p', d')"
    using assms(4) by (simp add: pipeline_Run_def flush_def on_events_ops)
  moreover have "\<forall>e \<in> set (flow_events ?ops). ev e" using assms(3) by (simp add: flow_events_ops flush_ops_def)
  ultimately show ?thesis using holds_fold [OF inv(3,1), of ?ops] by (simp add: holds_def)
qed

end

text \<open>Outbound rows never carry received bytes; the rows of a capture lie in the time window of its packets.\<close>

interpretation outbound: row_property "\<lambda>e. k_dir (e_key e) = DirLANToWAN \<longrightarrow> e_local_src e"
  "\<lambda>k a. k_dir k = DirLANToWAN \<longrightarrow> a_recv a = 0" "\<lambda>r. f_dir r = DirLANToWAN \<longrightarrow> f_recv r = 0"
  by unfold_locales (auto simp: add_event_def Let_def)

interpretation window: row_property "\<lambda>e. lo \<le> Unix (e_ts e) \<and> Unix (e_ts e) \<le> hi"
  "\<lambda>k a. lo \<le> a_last a \<and> a_last a \<le> hi" "\<lambda>r. lo \<le> f_last r \<and> f_last r \<le> hi" for lo hi
  by unfold_locales (auto simp: add_event_def Let_def flow_row_def)

lemma capture_outbound_rows:
  assumes "wf_tables (tbl d)" and "\<forall>r \<in> set (flows_recent (tbl d)). f_dir r = DirLANToWAN \<longrightarrow> f_recv r = 0"
    and "pipeline_Run env lan evs rank now (NewPipeline l, d) = (p', d')"
  shows "\<forall>r \<in> set (flows_recent (tbl d')). f_dir r = DirLANToWAN \<longrightarrow> f_recv r = 0"
  by (rule outbound.rows_of_run [OF assms(1,2) _ assms(3)]) (simp add: decoded_flow(2))

end
