(* ===== verification/Auth_Password.thy ===== *)
theory Auth_Password
  imports Store_Ops
begin

text \<open>
  \<open>auth/password.go\<close>: the encoded argon2id hash and its verification, with what it uses of
  \<open>encoding/base64\<close> (the unpadded standard and URL alphabets) and \<open>fmt.Sscanf\<close> (literals and
  \<open>%d\<close>). The key derivation function \<open>argon2.IDKey\<close> is an argument \<open>idkey\<close> of the definitions;
  the random source is the argument \<open>salt\<close>, \<^const>\<open>None\<close> when reading it fails.
\<close>

section \<open>encoding/base64, without padding\<close>

datatype b64_alphabet = RawStdEncoding | RawURLEncoding

definition b64_char :: "b64_alphabet \<Rightarrow> nat \<Rightarrow> char" where
  "b64_char a v =
     (if v < 26 then char_of (65 + v)
      else if v < 52 then char_of (97 + (v - 26))
      else if v < 62 then char_of (48 + (v - 52))
      else if v = 62 then (case a of RawStdEncoding \<Rightarrow> CHR ''+'' | RawURLEncoding \<Rightarrow> CHR ''-'')
      else (case a of RawStdEncoding \<Rightarrow> CHR ''/'' | RawURLEncoding \<Rightarrow> CHR ''_''))"

definition b64_val :: "b64_alphabet \<Rightarrow> char \<Rightarrow> nat option" where
  "b64_val a c =
     (let n = of_char c :: nat
      in if 65 \<le> n \<and> n \<le> 90 then Some (n - 65)
         else if 97 \<le> n \<and> n \<le> 122 then Some (n - 71)
         else if 48 \<le> n \<and> n \<le> 57 then Some (n + 4)
         else if c = b64_char a 62 then Some 62
         else if c = b64_char a 63 then Some 63
         else None)"

fun EncodeToString :: "b64_alphabet \<Rightarrow> byte list \<Rightarrow> string" where
  "EncodeToString a [] = []"
| "EncodeToString a [x] =
     (let v = unat x * 65536 in [b64_char a (v div 262144), b64_char a (v div 4096 mod 64)])"
| "EncodeToString a [x, y] =
     (let v = unat x * 65536 + unat y * 256
      in [b64_char a (v div 262144), b64_char a (v div 4096 mod 64), b64_char a (v div 64 mod 64)])"
| "EncodeToString a (x # y # z # bs) =
     (let v = unat x * 65536 + unat y * 256 + unat z
      in b64_char a (v div 262144) # b64_char a (v div 4096 mod 64) # b64_char a (v div 64 mod 64)
         # b64_char a (v mod 64) # EncodeToString a bs)"

fun b64_decode :: "nat list \<Rightarrow> byte list option" where
  "b64_decode [] = Some []"
| "b64_decode [a] = None"
| "b64_decode [a, b] = (let v = a * 262144 + b * 4096 in Some [of_nat (v div 65536)])"
| "b64_decode [a, b, c] =
     (let v = a * 262144 + b * 4096 + c * 64 in Some [of_nat (v div 65536), of_nat (v div 256 mod 256)])"
| "b64_decode (a # b # c # d # vs) =
     (let v = a * 262144 + b * 4096 + c * 64 + d
      in map_option (\<lambda>bs. of_nat (v div 65536) # of_nat (v div 256 mod 256) # of_nat (v mod 256) # bs) (b64_decode vs))"

text \<open>The decoder skips line breaks; any other character outside the alphabet is an error.\<close>

definition DecodeString :: "b64_alphabet \<Rightarrow> string \<Rightarrow> byte list option" where
  "DecodeString a s =
     Option.bind (those (map (b64_val a) (filter (\<lambda>c. c \<noteq> CHR 0x0A \<and> c \<noteq> CHR 0x0D) s))) b64_decode"

lemma b64_char_code:
  "v < 26 \<Longrightarrow> of_char (b64_char a v) = 65 + v"
  "26 \<le> v \<Longrightarrow> v < 52 \<Longrightarrow> of_char (b64_char a v) = 71 + v"
  "52 \<le> v \<Longrightarrow> v < 62 \<Longrightarrow> of_char (b64_char a v) = v - 4"
  by (simp_all add: b64_char_def)

lemma b64_char_special:
  "b64_char RawStdEncoding 62 = CHR ''+''" "b64_char RawURLEncoding 62 = CHR ''-''"
  "b64_char RawStdEncoding 63 = CHR ''/''" "b64_char RawURLEncoding 63 = CHR ''_''"
  by (simp_all add: b64_char_def)

lemma b64_range:
  fixes v :: nat
  assumes "v < 64"
  obtains "v < 26" | "26 \<le> v" "v < 52" | "52 \<le> v" "v < 62" | "v = 62" | "v = 63"
  using assms by linarith

lemma b64_val_char [simp]:
  assumes "v < 64"
  shows "b64_val a (b64_char a v) = Some v"
  using assms
proof (cases rule: b64_range)
  case 4
  then show ?thesis by (cases a) (simp_all add: b64_char_special b64_val_def)
next
  case 5
  then show ?thesis by (cases a) (simp_all add: b64_char_special b64_val_def)
qed (auto simp: b64_val_def b64_char_code Let_def)

lemma b64_char_clean:
  assumes "v < 64"
  shows "b64_char a v \<notin> {CHR 0x0A, CHR 0x0D, CHR ''$''}"
proof -
  have "of_char (b64_char a v) \<notin> {10, 13, 36 :: nat}"
    using assms
  proof (cases rule: b64_range)
    case 4
    then show ?thesis by (cases a) (simp_all add: b64_char_special)
  next
    case 5
    then show ?thesis by (cases a) (simp_all add: b64_char_special)
  qed (auto simp: b64_char_code)
  then show ?thesis by auto
qed

text \<open>The six-bit values of the encoding, and that decoding them gives the bytes back.\<close>

fun b64_vals :: "byte list \<Rightarrow> nat list" where
  "b64_vals [] = []"
| "b64_vals [x] = (let v = unat x * 65536 in [v div 262144, v div 4096 mod 64])"
| "b64_vals [x, y] =
     (let v = unat x * 65536 + unat y * 256 in [v div 262144, v div 4096 mod 64, v div 64 mod 64])"
| "b64_vals (x # y # z # bs) =
     (let v = unat x * 65536 + unat y * 256 + unat z
      in v div 262144 # v div 4096 mod 64 # v div 64 mod 64 # v mod 64 # b64_vals bs)"

lemma EncodeToString_vals: "EncodeToString a bs = map (b64_char a) (b64_vals bs)"
  by (induction bs rule: b64_vals.induct) (simp_all add: Let_def)

lemma byte_bound: "unat (x :: byte) < 256"
  using unsigned_less [of x] by simp

lemma b64_vals_bound: "list_all (\<lambda>v. v < 64) (b64_vals bs)"
proof (induction bs rule: b64_vals.induct)
  case (2 x)
  show ?case using byte_bound [of x] by (simp add: Let_def div_less_iff_less_mult)
next
  case (3 x y)
  show ?case using byte_bound [of x] byte_bound [of y] by (simp add: Let_def div_less_iff_less_mult)
next
  case (4 x y z bs)
  then show ?case using byte_bound [of x] byte_bound [of y] byte_bound [of z] by (simp add: Let_def div_less_iff_less_mult)
qed simp

text \<open>Recomposing a number from its base-64 digits.\<close>

lemma recompose:
  fixes v :: nat
  shows "v div 262144 * 262144 + v div 4096 mod 64 * 4096 + v div 64 mod 64 * 64 + v mod 64 = v"
proof -
  have "v = v div 64 * 64 + v mod 64" by simp
  moreover have "v div 64 = v div 4096 * 64 + v div 64 mod 64" using div_mult2_eq [of v 64 64] by simp
  moreover have "v div 4096 = v div 262144 * 64 + v div 4096 mod 64" using div_mult2_eq [of v 4096 64] by simp
  ultimately show ?thesis by linarith
qed

lemma b64_decode_digits:
  fixes v :: nat
  shows "v mod 4096 = 0 \<Longrightarrow> b64_decode [v div 262144, v div 4096 mod 64] = Some [of_nat (v div 65536)]"
    and "v mod 64 = 0 \<Longrightarrow> b64_decode [v div 262144, v div 4096 mod 64, v div 64 mod 64]
           = Some [of_nat (v div 65536), of_nat (v div 256 mod 256)]"
    and "b64_decode (v div 262144 # v div 4096 mod 64 # v div 64 mod 64 # v mod 64 # vs)
           = map_option (\<lambda>bs. of_nat (v div 65536) # of_nat (v div 256 mod 256) # of_nat (v mod 256) # bs) (b64_decode vs)"
proof -
  have "v div 64 mod 64 = 0 \<and> v mod 64 = 0" if z: "v mod 4096 = 0"
  proof -
    from z obtain k where "v = 64 * (64 * k)" by (auto elim!: dvdE simp: mod_eq_0_iff_dvd)
    then show ?thesis by simp
  qed
  then have "v mod 4096 = 0 \<Longrightarrow> v div 262144 * 262144 + v div 4096 mod 64 * 4096 = v" using recompose [of v] by simp
  then show "v mod 4096 = 0 \<Longrightarrow> b64_decode [v div 262144, v div 4096 mod 64] = Some [of_nat (v div 65536)]"
    by (simp add: Let_def)
  show "v mod 64 = 0 \<Longrightarrow> b64_decode [v div 262144, v div 4096 mod 64, v div 64 mod 64]
      = Some [of_nat (v div 65536), of_nat (v div 256 mod 256)]"
    using recompose [of v] by (simp add: Let_def)
  show "b64_decode (v div 262144 # v div 4096 mod 64 # v div 64 mod 64 # v mod 64 # vs)
      = map_option (\<lambda>bs. of_nat (v div 65536) # of_nat (v div 256 mod 256) # of_nat (v mod 256) # bs) (b64_decode vs)"
    unfolding b64_decode.simps Let_def recompose ..
qed

lemma byte_digits:
  fixes x y z :: byte
  shows "(unat x * 65536 + unat y * 256 + unat z) div 65536 = unat x"
    and "(unat x * 65536 + unat y * 256 + unat z) div 256 mod 256 = unat y"
    and "(unat x * 65536 + unat y * 256 + unat z) mod 256 = unat z"
proof -
  have b: "unat y < 256" "unat z < 256" by (rule byte_bound)+
  show "(unat x * 65536 + unat y * 256 + unat z) div 65536 = unat x" using b by (intro div_nat_eqI) simp_all
  have "(unat x * 65536 + unat y * 256 + unat z) div 256 = unat x * 256 + unat y" using b by (intro div_nat_eqI) simp_all
  then show "(unat x * 65536 + unat y * 256 + unat z) div 256 mod 256 = unat y" using b by simp
  have "unat x * 65536 + unat y * 256 + unat z = (unat x * 256 + unat y) * 256 + unat z" by simp
  then show "(unat x * 65536 + unat y * 256 + unat z) mod 256 = unat z" using b by (simp only: mod_mult_self3 mod_less)
qed

lemma b64_decode_vals: "b64_decode (b64_vals bs) = Some bs"
proof (induction bs rule: b64_vals.induct)
  case (2 x)
  show ?case unfolding b64_vals.simps Let_def by (subst b64_decode_digits(1)) simp_all
next
  case (3 x y)
  have "unat x * 65536 + unat y * 256 = (unat x * 1024 + unat y * 4) * 64" by simp
  then have "(unat x * 65536 + unat y * 256) mod 64 = 0" by (simp only: mod_mult_self2_is_0)
  then show ?case
    unfolding b64_vals.simps Let_def using byte_digits [of x y 0] by (subst b64_decode_digits(2)) simp_all
next
  case (4 x y z bs)
  then show ?case unfolding b64_vals.simps Let_def b64_decode_digits(3) byte_digits by simp
qed simp

lemma those_map_Some: "(\<And>x. x \<in> set xs \<Longrightarrow> f x = Some (g x)) \<Longrightarrow> those (map f xs) = Some (map g xs)"
  by (induction xs) simp_all

lemma DecodeString_EncodeToString: "DecodeString a (EncodeToString a bs) = Some bs"
proof -
  have v: "\<And>v. v \<in> set (b64_vals bs) \<Longrightarrow> v < 64" using b64_vals_bound [of bs] by (simp add: list_all_iff)
  then have "filter (\<lambda>c. c \<noteq> CHR 0x0A \<and> c \<noteq> CHR 0x0D) (EncodeToString a bs) = EncodeToString a bs"
    using b64_char_clean [of _ a] by (fastforce simp: EncodeToString_vals intro!: filter_True)
  moreover have "those (map (b64_val a) (EncodeToString a bs)) = Some (b64_vals bs)"
    using those_map_Some [of "b64_vals bs" "\<lambda>v. b64_val a (b64_char a v)" "\<lambda>v. v"] v by (simp add: EncodeToString_vals comp_def)
  ultimately show ?thesis by (simp add: DecodeString_def b64_decode_vals)
qed

lemma EncodeToString_no_dollar: "CHR ''$'' \<notin> set (EncodeToString a bs)"
  using b64_vals_bound [of bs] b64_char_clean [of _ a] by (force simp: EncodeToString_vals list_all_iff)

section \<open>fmt.Sscanf\<close>

text \<open>\<open>%d\<close> skips blanks (a line break is an error), then reads digits as far as they go; what
  follows the last verb is ignored.\<close>

fun SkipSpace :: "string \<Rightarrow> string option" where
  "SkipSpace [] = Some []"
| "SkipSpace (c # cs) = (if c = CHR 0x0A then None else if isSpace c then SkipSpace cs else Some (c # cs))"

definition scan_lit :: "string \<Rightarrow> string \<Rightarrow> string option" where
  "scan_lit lit s = (if HasPrefix s lit then Some (drop (length lit) s) else None)"

definition scan_uint :: "nat \<Rightarrow> string \<Rightarrow> (nat \<times> string) option" where
  "scan_uint bits s =
     Option.bind (SkipSpace s) (\<lambda>s1.
       map_option (\<lambda>n. (n, dropWhile isDigit s1)) (ParseUint bits (takeWhile isDigit s1)))"

definition scan_int :: "string \<Rightarrow> (int \<times> string) option" where
  "scan_int s =
     Option.bind (SkipSpace s) (\<lambda>s1.
       let sgn = takeWhile (\<lambda>c. c = CHR ''+'' \<or> c = CHR ''-'') (take 1 s1); rest = drop (length sgn) s1
       in map_option (\<lambda>n. (n, dropWhile isDigit rest)) (ParseInt64 (sgn @ takeWhile isDigit rest)))"

section \<open>password.go\<close>

definition argonTime :: nat where "argonTime = 1"
definition argonMemory :: nat where "argonMemory = 64 * 1024"
definition argonThreads :: nat where "argonThreads = 4"
definition argonKeyLen :: nat where "argonKeyLen = 32"
definition saltLen :: nat where "saltLen = 16"

text \<open>\<open>argon2.Version\<close>, the constant of the format documented at \<open>HashPassword\<close>.\<close>

definition argon2_Version :: int where "argon2_Version = 19"

type_synonym kdf = "byte list \<Rightarrow> byte list \<Rightarrow> nat \<Rightarrow> nat \<Rightarrow> nat \<Rightarrow> nat \<Rightarrow> byte list"

definition bytes_of_string :: "string \<Rightarrow> byte list" where
  "bytes_of_string s = map (\<lambda>c. of_nat (of_char c)) s"

definition HashPassword :: "kdf \<Rightarrow> byte list option \<Rightarrow> string \<Rightarrow> go_error + string" where
  "HashPassword idkey rnd password =
     (case rnd of
        None \<Rightarrow> Inl ErrIO
      | Some salt \<Rightarrow>
          (let hash = idkey (bytes_of_string password) salt argonTime argonMemory argonThreads argonKeyLen
           in Inr (''$argon2id$v='' @ Itoa argon2_Version @ ''$m='' @ nat_str argonMemory @ '',t='' @ nat_str argonTime
                @ '',p='' @ nat_str argonThreads @ ''$'' @ EncodeToString RawStdEncoding salt
                @ ''$'' @ EncodeToString RawStdEncoding hash)))"

definition scan_version :: "string \<Rightarrow> int option" where
  "scan_version s = map_option fst (Option.bind (scan_lit ''v='' s) scan_int)"

definition scan_params :: "string \<Rightarrow> (nat \<times> nat \<times> nat) option" where
  "scan_params s =
     Option.bind (Option.bind (scan_lit ''m='' s) (scan_uint 32)) (\<lambda>(memory, s1).
       Option.bind (Option.bind (scan_lit '',t='' s1) (scan_uint 32)) (\<lambda>(t, s2).
         Option.bind (Option.bind (scan_lit '',p='' s2) (scan_uint 8)) (\<lambda>(threads, _).
           Some (memory, t, threads))))"

definition VerifyPassword :: "kdf \<Rightarrow> string \<Rightarrow> string \<Rightarrow> go_error + bool" where
  "VerifyPassword idkey password encoded =
     (let parts = split_on CHR ''$'' encoded in
      if length parts \<noteq> 6 \<or> parts ! 1 \<noteq> ''argon2id'' then Inl ErrHashFormat
      else case scan_version (parts ! 2) of None \<Rightarrow> Inl ErrHashFormat | Some version \<Rightarrow>
           case scan_params (parts ! 3) of None \<Rightarrow> Inl ErrHashFormat | Some (memory, t, threads) \<Rightarrow>
           case DecodeString RawStdEncoding (parts ! 4) of None \<Rightarrow> Inl ErrHashFormat | Some salt \<Rightarrow>
           case DecodeString RawStdEncoding (parts ! 5) of None \<Rightarrow> Inl ErrHashFormat | Some wantHash \<Rightarrow>
           Inr (idkey (bytes_of_string password) salt t memory threads (length wantHash) = wantHash))"

section \<open>Properties\<close>

definition encode_hash :: "byte list \<Rightarrow> byte list \<Rightarrow> string" where
  "encode_hash salt hash = join_with CHR ''$''
     [[], ''argon2id'', ''v=19'', ''m=65536,t=1,p=4'', EncodeToString RawStdEncoding salt, EncodeToString RawStdEncoding hash]"

lemma HashPassword_parts:
  "HashPassword idkey (Some salt) pw
     = Inr (encode_hash salt (idkey (bytes_of_string pw) salt argonTime argonMemory argonThreads argonKeyLen))"
proof -
  have d: "digit_char 1 = CHR ''1''" "digit_char (Suc 0) = CHR ''1''" "digit_char 3 = CHR ''3''" "digit_char 4 = CHR ''4''" "digit_char 5 = CHR ''5''"
    "digit_char 6 = CHR ''6''" "digit_char 9 = CHR ''9''"
    by code_simp+
  have n: "Itoa argon2_Version = ''19''" "nat_str argonMemory = ''65536''" "nat_str argonTime = ''1''" "nat_str argonThreads = ''4''"
    by (simp_all add: Itoa_def argon2_Version_def argonMemory_def argonTime_def argonThreads_def nat_str.simps d)
  show ?thesis by (simp add: HashPassword_def encode_hash_def n Let_def)
qed

lemma split_encode_hash:
  "split_on CHR ''$'' (encode_hash salt hash) =
     [[], ''argon2id'', ''v=19'', ''m=65536,t=1,p=4'', EncodeToString RawStdEncoding salt, EncodeToString RawStdEncoding hash]"
  unfolding encode_hash_def by (rule split_on_join) (simp_all add: EncodeToString_no_dollar)

lemma VerifyPassword_encode:
  "VerifyPassword idkey pw (encode_hash salt hash)
     = Inr (idkey (bytes_of_string pw) salt argonTime argonMemory argonThreads (length hash) = hash)"
proof -
  have "scan_version ''v=19'' = Some 19" "scan_params ''m=65536,t=1,p=4'' = Some (argonMemory, argonTime, argonThreads)"
    by (simp_all add: scan_version_def scan_params_def scan_lit_def HasPrefix_def scan_int_def scan_uint_def isSpace_def
        isDigit_def digit_val_def ParseInt64_def ParseUint_def argonMemory_def argonTime_def argonThreads_def)
  then show ?thesis by (simp add: VerifyPassword_def split_encode_hash DecodeString_EncodeToString)
qed

text \<open>C17: a password verifies against a hash exactly when it derives the same key. For a key
  derivation function that returns as many bytes as it is asked for, the string that
  \<open>HashPassword\<close> makes is accepted by \<open>VerifyPassword\<close> without error, and the answer for any
  password is whether its key with the same salt and parameters is the key of the original; in
  particular the right password is accepted.\<close>

theorem VerifyPassword_HashPassword:
  assumes "\<And>p s t m th n. length (idkey p s t m th n) = n"
    and "HashPassword idkey (Some salt) pw = Inr enc"
  shows "VerifyPassword idkey pw' enc
           = Inr (idkey (bytes_of_string pw') salt argonTime argonMemory argonThreads argonKeyLen
                  = idkey (bytes_of_string pw) salt argonTime argonMemory argonThreads argonKeyLen)
    \<and> VerifyPassword idkey pw enc = Inr True"
  using assms(2) unfolding HashPassword_parts by (auto simp: VerifyPassword_encode assms(1))

theorem VerifyPassword_HashPassword_witness:
  "\<exists>enc. HashPassword (\<lambda>p s t m th n. take n (p @ replicate n 0)) (Some (replicate 16 7)) ''hunter2hunter2'' = Inr enc
     \<and> VerifyPassword (\<lambda>p s t m th n. take n (p @ replicate n 0)) ''hunter2hunter2'' enc = Inr True
     \<and> VerifyPassword (\<lambda>p s t m th n. take n (p @ replicate n 0)) ''wrong'' enc = Inr False"
proof -
  let ?k = "\<lambda>p s t m th n. take n (p @ replicate n 0) :: byte list"
  have l: "length (?k p s t m th n) = n" for p s t m th n by simp
  obtain enc where e: "HashPassword ?k (Some (replicate 16 7)) ''hunter2hunter2'' = Inr enc"
    unfolding HashPassword_parts by blast
  have "?k (bytes_of_string ''wrong'') (replicate 16 7) argonTime argonMemory argonThreads argonKeyLen
      \<noteq> ?k (bytes_of_string ''hunter2hunter2'') (replicate 16 7) argonTime argonMemory argonThreads argonKeyLen"
    by code_simp
  then show ?thesis using VerifyPassword_HashPassword [of ?k, OF l e] e by (intro exI [of _ enc]) simp
qed

end
