(* ===== verification/Auth_Session.thy ===== *)
theory Auth_Session
  imports Auth_Password
begin

text \<open>
  \<open>auth/session.go\<close>: login, validation, elevation and logout over the session table. Every
  \<open>time.Now()\<close> is an argument, one per call; the random bytes of a token are the argument
  \<open>rnd\<close>, \<^const>\<open>None\<close> when the random source fails.
\<close>

definition SessionIdleTimeout :: duration where "SessionIdleTimeout = 24 * Hour"
definition ElevationDuration :: duration where "ElevationDuration = 15 * Minute"

definition NewToken :: "byte list option \<Rightarrow> go_error + string" where
  "NewToken rnd = (case rnd of None \<Rightarrow> Inl ErrIO | Some b \<Rightarrow> Inr (EncodeToString RawURLEncoding b))"

definition Login :: "kdf \<Rightarrow> byte list option \<Rightarrow> gotime \<Rightarrow> gotime \<Rightarrow> string \<Rightarrow> string \<Rightarrow> string dbm" where
  "Login idkey rnd now1 now2 username password d =
     (case UserByUsername username d of
        (Inl e, d1) \<Rightarrow> (Inl e, d1)
      | (Inr u, d1) \<Rightarrow>
          (case VerifyPassword idkey password (u_hash u) of
             Inl e \<Rightarrow> (Inl e, d1)
           | Inr ok \<Rightarrow>
               if \<not> ok then (Inl ErrInvalidCredentials, d1)
               else (case NewToken rnd of
                       Inl e \<Rightarrow> (Inl e, d1)
                     | Inr token \<Rightarrow>
                         (case CreateSession token (u_id u) (Unix now1) (Unix (now2 + SessionIdleTimeout)) d1 of
                            (Inl e, d2) \<Rightarrow> (Inl e, d2)
                          | (Inr _, d2) \<Rightarrow> (Inr token, d2)))))"

definition Validate :: "gotime \<Rightarrow> string \<Rightarrow> Session dbm" where
  "Validate now token d =
     (case SessionByToken token d of
        (Inl e, d1) \<Rightarrow> (Inl e, d1)
      | (Inr s, d1) \<Rightarrow> if ss_expires s < Unix now then (Inl ErrNotFound, d1) else (Inr s, d1))"

definition verifyPasswordForUser :: "kdf \<Rightarrow> int \<Rightarrow> string \<Rightarrow> bool dbm" where
  "verifyPasswordForUser idkey userID password d =
     (case PasswordHashByUserID userID d of
        (Inl e, d1) \<Rightarrow> (Inl e, d1)
      | (Inr hash, d1) \<Rightarrow> (VerifyPassword idkey password hash, d1))"

definition Elevate :: "kdf \<Rightarrow> gotime \<Rightarrow> gotime \<Rightarrow> string \<Rightarrow> string \<Rightarrow> unit dbm" where
  "Elevate idkey now1 now2 token password d =
     (case Validate now1 token d of
        (Inl e, d1) \<Rightarrow> (Inl e, d1)
      | (Inr s, d1) \<Rightarrow>
          (case verifyPasswordForUser idkey (ss_user s) password d1 of
             (Inl e, d2) \<Rightarrow> (Inl e, d2)
           | (Inr ok, d2) \<Rightarrow>
               if \<not> ok then (Inl ErrInvalidCredentials, d2)
               else ElevateSession (ss_token s) (Unix (now2 + ElevationDuration)) d2))"

definition IsElevated :: "gotime \<Rightarrow> Session \<Rightarrow> bool" where
  "IsElevated now s \<longleftrightarrow> (case ss_elevated s of None \<Rightarrow> False | Some e \<Rightarrow> Unix now < e)"

definition Logout :: "string \<Rightarrow> unit dbm" where
  "Logout token = DeleteSession token"

section \<open>What each operation does\<close>

text \<open>Validating reads only.\<close>

lemma SessionByToken_tbl: "SessionByToken token d = (r, d') \<Longrightarrow> tbl d' = tbl d"
  unfolding SessionByToken_def by (rule query_tblD)

lemma Validate_tbl: "Validate now token d = (r, d') \<Longrightarrow> tbl d' = tbl d"
  by (auto simp: Validate_def split: prod.splits sum.splits if_splits dest: SessionByToken_tbl)

lemma query_InrD: "query f d = (Inr a, d') \<Longrightarrow> f (tbl d) = Inr a"
  by (auto simp: query_def split: prod.splits if_splits)

lemma Validate_session:
  assumes "Validate now token d = (Inr s, d')"
  shows "session_of (tbl d) token = Some s \<and> Unix now \<le> ss_expires s"
  using assms
  by (auto simp: Validate_def SessionByToken_def split: prod.splits sum.splits if_splits option.splits dest!: query_InrD)

lemma session_of_row:
  assumes "session_of t token = Some s"
  shows "\<exists>r \<in> set (sessions t). s_token r = token \<and> ss_token s = token \<and> ss_user s = s_user r
     \<and> ss_expires s = s_expires r \<and> ss_created s = s_created r \<and> ss_elevated s = s_elevated r
     \<and> (\<exists>u \<in> set (users t). u_id u = s_user r \<and> ss_role s = u_role u)"
proof -
  obtain r where r: "find (\<lambda>s. s_token s = token) (sessions t) = Some r"
    using assms by (cases "find (\<lambda>s. s_token s = token) (sessions t)") (simp_all add: session_of_def)
  obtain u where u: "find (\<lambda>u. u_id u = s_user r) (users t) = Some u"
    using assms r by (cases "find (\<lambda>u. u_id u = s_user r) (users t)") (simp_all add: session_of_def)
  show ?thesis
    using assms r u find_SomeD [OF r] find_SomeD [OF u] by (intro bexI [of _ r]) (auto simp: session_of_def)
qed

lemma find_user_tbl: "find_user P d = (r, d') \<Longrightarrow> tbl d' = tbl d"
  unfolding find_user_def by (rule query_tblD)

lemma find_user_result:
  assumes "find_user P d = (Inr u, d')"
  shows "u \<in> set (users (tbl d)) \<and> P u \<and> tbl d' = tbl d"
proof -
  have "find P (users (tbl d)) = Some u"
    using query_InrD [OF assms [unfolded find_user_def]] by (simp split: option.splits)
  then show ?thesis using find_SomeD find_user_tbl [OF assms] by metis
qed

lemma Login_cases [consumes 1, case_names fail success]:
  assumes "Login idkey rnd now1 now2 username password d = (r, d')"
  obtains (fail) e where "r = Inl e" "tbl d' = tbl d"
  | (success) u b token where "u \<in> set (users (tbl d))" "u_name u = username" "VerifyPassword idkey password (u_hash u) = Inr True"
      "rnd = Some b" "token = EncodeToString RawURLEncoding b" "r = Inr token"
      "token \<notin> s_token ` set (sessions (tbl d))"
      "tbl d' = (tbl d)\<lparr>sessions := sessions (tbl d) @ [\<lparr>s_token = token, s_user = u_id u, s_created = Unix now1,
         s_expires = Unix (now2 + SessionIdleTimeout), s_elevated = None\<rparr>]\<rparr>"
proof -
  obtain r1 d1 where 1: "UserByUsername username d = (r1, d1)" by fastforce
  have t1: "tbl d1 = tbl d" using 1 unfolding UserByUsername_def by (rule find_user_tbl)
  show thesis
  proof (cases "\<exists>e. r = Inl e \<and> tbl d' = tbl d1")
    case True
    then show thesis using fail t1 by auto
  next
    case False
    then obtain u where r1: "r1 = Inr u" using assms 1 by (cases r1) (auto simp: Login_def)
    have u: "u \<in> set (users (tbl d))" "u_name u = username"
      using find_user_result [of "\<lambda>u. u_name u = username" d u d1] 1 r1 by (simp_all add: UserByUsername_def)
    have v: "VerifyPassword idkey password (u_hash u) = Inr True"
      using assms 1 r1 False by (auto simp: Login_def split: sum.splits if_splits)
    then obtain b where b: "rnd = Some b"
      using assms 1 r1 False by (cases rnd) (auto simp: Login_def NewToken_def)
    let ?tok = "EncodeToString RawURLEncoding b"
    obtain r2 d2 where 2: "CreateSession ?tok (u_id u) (Unix now1) (Unix (now2 + SessionIdleTimeout)) d1 = (r2, d2)" by fastforce
    have res: "(r, d') = (case r2 of Inl e \<Rightarrow> (Inl e, d2) | Inr _ \<Rightarrow> (Inr ?tok, d2))"
      using assms [symmetric] 1 2 r1 v b by (cases r2) (simp_all add: Login_def NewToken_def)
    show thesis
    proof (cases rule: exec_cases [of "sql_create_session ?tok (u_id u) (Unix now1) (Unix (now2 + SessionIdleTimeout))" d1])
      case (fail e)
      then show thesis using res 2 False by (simp add: CreateSession_def)
    next
      case (success a t)
      have f: "?tok \<notin> s_token ` set (sessions (tbl d1))"
        and t: "t = (tbl d1)\<lparr>sessions := sessions (tbl d1) @ [\<lparr>s_token = ?tok, s_user = u_id u, s_created = Unix now1,
           s_expires = Unix (now2 + SessionIdleTimeout), s_elevated = None\<rparr>]\<rparr>"
        using success(1) by (auto simp: sql_create_session_def split: if_splits)
      have "r = Inr ?tok" "tbl d' = t" using res 2 success(2,3) by (simp_all add: CreateSession_def)
      then show thesis using that(2) [OF u v b refl _ f [unfolded t1]] t t1 by simp
    qed
  qed
qed

lemma verifyPasswordForUser_result:
  assumes "verifyPasswordForUser idkey i password d = (r, d')"
  shows "tbl d' = tbl d"
    and "r = Inr True \<Longrightarrow> \<exists>u \<in> set (users (tbl d)). u_id u = i \<and> VerifyPassword idkey password (u_hash u) = Inr True"
proof -
  obtain r1 d1 where 1: "PasswordHashByUserID i d = (r1, d1)" by fastforce
  have t1: "tbl d1 = tbl d" using 1 unfolding PasswordHashByUserID_def by (rule query_tblD)
  show "tbl d' = tbl d" using assms 1 t1 by (cases r1) (simp_all add: verifyPasswordForUser_def)
  show "\<exists>u \<in> set (users (tbl d)). u_id u = i \<and> VerifyPassword idkey password (u_hash u) = Inr True" if ok: "r = Inr True"
  proof -
    obtain h where h: "r1 = Inr h" "VerifyPassword idkey password h = Inr True"
      using assms [symmetric] 1 ok by (cases r1) (auto simp: verifyPasswordForUser_def)
    have "(case find (\<lambda>u. u_id u = i) (users (tbl d)) of None \<Rightarrow> Inl ErrNotFound | Some u \<Rightarrow> Inr (u_hash u)) = Inr h"
      using 1 h(1) unfolding PasswordHashByUserID_def by (auto dest: query_InrD)
    then show ?thesis using h(2) by (auto split: option.splits dest!: find_SomeD)
  qed
qed

lemma Elevate_cases [consumes 1, case_names fail success]:
  assumes "Elevate idkey now1 now2 token password d = (r, d')"
  obtains (fail) e where "r = Inl e" "tbl d' = tbl d"
  | (success) s u where "session_of (tbl d) token = Some s" "Unix now1 \<le> ss_expires s"
      "u \<in> set (users (tbl d))" "u_id u = ss_user s" "VerifyPassword idkey password (u_hash u) = Inr True"
      "r = Inr ()" "tbl d' = sql_elevate_session token (Unix (now2 + ElevationDuration)) (tbl d)"
proof -
  obtain r1 d1 where 1: "Validate now1 token d = (r1, d1)" by fastforce
  have t1: "tbl d1 = tbl d" using 1 by (rule Validate_tbl)
  show thesis
  proof (cases r1)
    case (Inl e)
    then show thesis using assms [symmetric] 1 t1 fail by (simp add: Elevate_def)
  next
    case (Inr s)
    have s: "session_of (tbl d) token = Some s" "Unix now1 \<le> ss_expires s" using Validate_session 1 Inr by auto
    have tok: "ss_token s = token" using session_of_row [OF s(1)] by auto
    obtain r2 d2 where 2: "verifyPasswordForUser idkey (ss_user s) password d1 = (r2, d2)" by fastforce
    have t2: "tbl d2 = tbl d" using verifyPasswordForUser_result(1) [OF 2] t1 by simp
    show thesis
    proof (cases "r2 = Inr True")
      case False
      then have "(\<exists>e. r2 = Inl e) \<or> r2 = Inr False" by (cases r2) auto
      then show thesis using assms 1 2 Inr t2 fail by (auto simp: Elevate_def)
    next
      case True
      then obtain u where u: "u \<in> set (users (tbl d))" "u_id u = ss_user s" "VerifyPassword idkey password (u_hash u) = Inr True"
        using verifyPasswordForUser_result(2) [OF 2] t1 by auto
      have e: "(r, d') = ElevateSession token (Unix (now2 + ElevationDuration)) d2"
        using assms 1 2 Inr True tok by (simp add: Elevate_def)
      show thesis
      proof (cases rule: exec_cases [of "\<lambda>t. Inr ((), sql_elevate_session token (Unix (now2 + ElevationDuration)) t)" d2])
        case (fail x)
        have "r = Inl x" "tbl d' = tbl d" using fail e t2 unfolding ElevateSession_def by (metis fst_conv, metis snd_conv)
        then show thesis by (rule that(1))
      next
        case (success a t)
        have "r = Inr ()" "tbl d' = t" using success(2,3) e unfolding ElevateSession_def by (metis fst_conv old.unit.exhaust, metis snd_conv)
        moreover have "t = sql_elevate_session token (Unix (now2 + ElevationDuration)) (tbl d)" using success(1) t2 by simp
        ultimately show thesis using that(2) [OF s u] by simp
      qed
    qed
  qed
qed

lemma Logout_result:
  assumes "Logout token d = (r, d')"
  shows "tbl d' = tbl d \<or> tbl d' = (tbl d)\<lparr>sessions := filter (\<lambda>s. s_token s \<noteq> token) (sessions (tbl d))\<rparr>"
  by (cases rule: exec_cases [of "\<lambda>t. Inr ((), t\<lparr>sessions := filter (\<lambda>s. s_token s \<noteq> token) (sessions t)\<rparr>)" d])
    (use assms in \<open>auto simp: Logout_def DeleteSession_def\<close>)

lemma keeps_wf_auth:
  "Login idkey rnd now1 now2 username password d = (r, d') \<Longrightarrow> wf_tables (tbl d) \<Longrightarrow> wf_tables (tbl d')"
  "Elevate idkey now1 now2 token password d = (r2, d') \<Longrightarrow> wf_tables (tbl d) \<Longrightarrow> wf_tables (tbl d')"
  "Logout token d = (r3, d') \<Longrightarrow> wf_tables (tbl d) \<Longrightarrow> wf_tables (tbl d')"
proof -
  show "wf_tables (tbl d')" if "Login idkey rnd now1 now2 username password d = (r, d')" "wf_tables (tbl d)"
    using that by (cases rule: Login_cases) (auto simp: wf_defs)
  show "wf_tables (tbl d')" if "Elevate idkey now1 now2 token password d = (r2, d')" "wf_tables (tbl d)"
    using that by (cases rule: Elevate_cases) (auto intro: wf_intros)
  show "wf_tables (tbl d')" if "Logout token d = (r3, d')" "wf_tables (tbl d)"
    using Logout_result [OF that(1)] that(2) by (auto intro: wf_intros)
qed

section \<open>Properties\<close>

lemma session_of_append:
  assumes "tok \<notin> s_token ` set (sessions t)" and "u \<in> set (users t)" and "wf_tables t" and "s_user r = u_id u" and "s_token r = tok"
  shows "session_of (t\<lparr>sessions := sessions t @ [r]\<rparr>) k =
    (if k = tok then Some \<lparr>ss_token = tok, ss_user = u_id u, ss_role = u_role u, ss_created = s_created r,
       ss_expires = s_expires r, ss_elevated = s_elevated r\<rparr> else session_of t k)"
proof -
  have d: "distinct (map u_id (users t))" using assms(3) by (simp add: wf_defs)
  have "find (\<lambda>x. u_id x = u_id u) us = Some u" if "u \<in> set us" "distinct (map u_id us)" for us
    using that by (induction us) (auto simp: image_iff)
  then have u: "find (\<lambda>x. u_id x = u_id u) (users t) = Some u" using assms(2) d by blast
  have n: "find (\<lambda>s. s_token s = tok) (sessions t) = None" using assms(1) by (auto simp: find_None_iff)
  have o: "k \<noteq> tok \<Longrightarrow> find (\<lambda>s. s_token s = k) (sessions t @ [r]) = find (\<lambda>s. s_token s = k) (sessions t)"
    using assms(5) by (cases "find (\<lambda>s. s_token s = k) (sessions t)") simp_all
  show ?thesis using u n o assms(4,5) by (auto simp: session_of_def split: option.splits)
qed

text \<open>C18: a login is sound. When \<open>Login\<close> returns a token, a user with that name exists and the
  password verifies against the stored hash; the token was not in use, it now names a session of
  that user and role that is not elevated and expires 24 hours after the clock reading, and every
  other session is as before. When it returns an error, the database is unchanged.\<close>

theorem Login_sound:
  assumes "wf_tables (tbl d)" and "Login idkey rnd now1 now2 username password d = (r, d')"
  shows "case r of
      Inl _ \<Rightarrow> tbl d' = tbl d
    | Inr token \<Rightarrow> session_of (tbl d) token = None
        \<and> (\<exists>u \<in> set (users (tbl d)). u_name u = username \<and> VerifyPassword idkey password (u_hash u) = Inr True
             \<and> (\<forall>k. session_of (tbl d') k =
                  (if k = token then Some \<lparr>ss_token = token, ss_user = u_id u, ss_role = u_role u, ss_created = Unix now1,
                                            ss_expires = Unix now2 + 86400, ss_elevated = None\<rparr>
                   else session_of (tbl d) k)))"
  using assms(2)
proof (cases rule: Login_cases)
  case (fail e)
  then show ?thesis by simp
next
  case (success u b token)
  have "Unix (now2 + SessionIdleTimeout) = Unix now2 + 86400"
    by (simp add: Unix_def SessionIdleTimeout_def duration_defs)
  moreover have "session_of (tbl d) token = None"
    using success(7) session_of_row [of "tbl d" token] by (cases "session_of (tbl d) token") auto
  ultimately show ?thesis
    using success(1,2,3,6) session_of_append [OF success(7,1) assms(1)] unfolding success(8) by auto
qed

lemma find_unique:
  "x \<in> set xs \<Longrightarrow> distinct (map f xs) \<Longrightarrow> find (\<lambda>y. f y = f x) xs = Some x"
  by (induction xs) (auto simp: image_iff)

lemma Login_ok:
  assumes "db_faults d = []" and "wf_tables (tbl d)" and "u \<in> set (users (tbl d))"
    and "VerifyPassword idkey password (u_hash u) = Inr True"
    and "EncodeToString RawURLEncoding b \<notin> s_token ` set (sessions (tbl d))"
  shows "\<exists>d'. Login idkey (Some b) now1 now2 (u_name u) password d = (Inr (EncodeToString RawURLEncoding b), d')"
proof -
  have "find (\<lambda>x. u_name x = u_name u) (users (tbl d)) = Some u"
    using assms(2,3) by (intro find_unique) (simp_all add: wf_defs)
  then show ?thesis
    using assms by (simp add: Login_def UserByUsername_def find_user_def NewToken_def CreateSession_def exec_ok sql_create_session_def)
qed

text \<open>An instance for the witnesses: a key derivation that pads the password, one administrator.\<close>

definition demo_kdf :: kdf where
  "demo_kdf p s t m th n = take n (p @ replicate n 0)"

definition demo_admin :: User where
  "demo_admin = \<lparr>u_id = 1, u_name = ''root'', u_hash = encode_hash (replicate 16 7) (take 32 (bytes_of_string ''hunter2hunter2'' @ replicate 32 0)),
     u_role = RoleAdmin, u_created = 0\<rparr>"

definition auth_demo :: db where
  "auth_demo = \<lparr>tbl = empty_tables\<lparr>users := [demo_admin], user_seq := 2\<rparr>, db_faults = []\<rparr>"

lemma auth_demo_ok: "wf_tables (tbl auth_demo)" "db_faults auth_demo = []" "demo_admin \<in> set (users (tbl auth_demo))"
  "sessions (tbl auth_demo) = []"
  by (simp_all add: auth_demo_def wf_defs empty_tables_def demo_admin_def)

lemma demo_password: "VerifyPassword demo_kdf ''hunter2hunter2'' (u_hash demo_admin) = Inr True"
  by (simp add: demo_admin_def VerifyPassword_encode demo_kdf_def bytes_of_string_def)

theorem Login_sound_witness:
  "\<exists>token d'. Login demo_kdf (Some [1, 2, 3]) 0 0 ''root'' ''hunter2hunter2'' auth_demo = (Inr token, d')
     \<and> session_of (tbl d') token = Some \<lparr>ss_token = token, ss_user = 1, ss_role = RoleAdmin, ss_created = 0, ss_expires = 86400, ss_elevated = None\<rparr>"
proof -
  obtain d' where l: "Login demo_kdf (Some [1, 2, 3]) 0 0 (u_name demo_admin) ''hunter2hunter2'' auth_demo
      = (Inr (EncodeToString RawURLEncoding [1, 2, 3]), d')"
    using Login_ok [OF auth_demo_ok(2,1,3) demo_password, of "[1, 2, 3]"] auth_demo_ok(4) by auto
  from Login_sound [OF auth_demo_ok(1) this] show ?thesis
    using l by (auto simp: demo_admin_def auth_demo_def Unix_def)
qed

end
