(* ===== verification/Config.thy ===== *)
theory Config
  imports Auth_Session Go_Net
begin

text \<open>
  Package \<open>config\<close> (\<open>config.go\<close>, \<open>interfaces.go\<close>, \<open>paths.go\<close>, \<open>firstrun.go\<close>) and the start of
  the program, \<open>cmd/run.go\<close>. Standard input is the list of lines still to be read, the password
  prompt a second list; the loops of the wizard recurse over them, so a wizard that is given
  finitely many lines always ends. The file system, the network interfaces and the outcome of
  opening the capture socket are arguments.
\<close>

section \<open>Setting keys\<close>

definition KeyCaptureInterface :: string where "KeyCaptureInterface = ''capture_interface''"
definition KeyLANSubnetCIDR :: string where "KeyLANSubnetCIDR = ''lan_subnet_cidr''"
definition KeyRetentionDays :: string where "KeyRetentionDays = ''retention_days''"
definition KeyTLSCertPath :: string where "KeyTLSCertPath = ''tls_cert_path''"
definition KeyTLSKeyPath :: string where "KeyTLSKeyPath = ''tls_key_path''"
definition KeyHTTPListenAddr :: string where "KeyHTTPListenAddr = ''http_listen_addr''"
definition KeyFlushIntervalSecs :: string where "KeyFlushIntervalSecs = ''flush_interval_seconds''"
definition KeySetupComplete :: string where "KeySetupComplete = ''setup_complete''"

lemmas key_defs = KeyCaptureInterface_def KeyLANSubnetCIDR_def KeyRetentionDays_def KeyTLSCertPath_def
  KeyTLSKeyPath_def KeyHTTPListenAddr_def KeyFlushIntervalSecs_def KeySetupComplete_def

section \<open>config.go\<close>

record Settings =
  st_iface :: string
  st_subnet :: string
  st_retention :: int
  st_cert :: string
  st_key :: string
  st_listen :: string
  st_flush :: int

definition DefaultHTTPListenAddr :: string where "DefaultHTTPListenAddr = '':8443''"
definition DefaultFlushInterval :: int where "DefaultFlushInterval = 10"

definition valueOr :: "string \<Rightarrow> string \<Rightarrow> string" where
  "valueOr v def = (if v = [] then def else v)"

text \<open>Indexing a Go map with an absent key gives the empty string.\<close>

definition go_index :: "(string \<rightharpoonup> string) \<Rightarrow> string \<Rightarrow> string" where
  "go_index kv k = (case kv k of None \<Rightarrow> [] | Some v \<Rightarrow> v)"

definition settings_of :: "(string \<rightharpoonup> string) \<Rightarrow> go_error + Settings" where
  "settings_of kv =
     (case Atoi (valueOr (go_index kv KeyRetentionDays) ''30'') of
        None \<Rightarrow> Inl (ErrSetup ''parse retention_days'')
      | Some days \<Rightarrow>
          (case Atoi (valueOr (go_index kv KeyFlushIntervalSecs) (Itoa DefaultFlushInterval)) of
             None \<Rightarrow> Inl (ErrSetup ''parse flush_interval_seconds'')
           | Some secs \<Rightarrow>
               Inr \<lparr>st_iface = go_index kv KeyCaptureInterface, st_subnet = go_index kv KeyLANSubnetCIDR,
                    st_retention = days, st_cert = go_index kv KeyTLSCertPath, st_key = go_index kv KeyTLSKeyPath,
                    st_listen = valueOr (go_index kv KeyHTTPListenAddr) DefaultHTTPListenAddr, st_flush = secs\<rparr>))"

definition Load :: "Settings dbm" where
  "Load d = (case AllSettings d of (Inl e, d1) \<Rightarrow> (Inl e, d1) | (Inr kv, d1) \<Rightarrow> (settings_of kv, d1))"

definition IsSetupComplete :: "bool dbm" where
  "IsSetupComplete d =
     (case GetSetting KeySetupComplete d of
        (Inl e, d1) \<Rightarrow> (Inl e, d1)
      | (Inr v, d1) \<Rightarrow> (Inr (v = Some ''1''), d1))"

section \<open>interfaces.go\<close>

record iface =
  if_name :: string
  if_loopback :: bool

text \<open>\<open>ifs\<close> is the outcome of \<open>net.Interfaces()\<close>, \<open>stat\<close> whether a path exists.\<close>

definition ListCaptureInterfaces :: "go_error + iface list \<Rightarrow> (string \<Rightarrow> bool) \<Rightarrow> go_error + iface list" where
  "ListCaptureInterfaces ifs stat =
     (case ifs of
        Inl e \<Rightarrow> Inl e
      | Inr xs \<Rightarrow> Inr (filter (\<lambda>i. \<not> if_loopback i \<and> stat (''/sys/class/net/'' @ if_name i)) xs))"

section \<open>paths.go\<close>

text \<open>\<open>filepath.Clean\<close> and \<open>filepath.Join\<close> for slash-separated paths.\<close>

fun clean_step :: "bool \<Rightarrow> string \<Rightarrow> string list \<Rightarrow> string list" where
  "clean_step rooted seg out =
     (if seg = [] \<or> seg = ''.'' then out
      else if seg = ''..'' then
        (if out \<noteq> [] \<and> last out \<noteq> ''..'' then butlast out
         else if rooted then out else out @ [''..''])
      else out @ [seg])"

definition path_Clean :: "string \<Rightarrow> string" where
  "path_Clean p =
     (let rooted = (HasPrefix p ''/''); segs = fold (clean_step rooted) (split_on CHR ''/'' p) []
      in if p = [] then ''.''
         else if rooted then ''/'' @ join_with CHR ''/'' segs
         else if segs = [] then ''.'' else join_with CHR ''/'' segs)"

definition path_Join :: "string list \<Rightarrow> string" where
  "path_Join ps = (case filter (\<lambda>p. p \<noteq> []) ps of [] \<Rightarrow> [] | qs \<Rightarrow> path_Clean (join_with CHR ''/'' qs))"

definition systemDataDir :: string where "systemDataDir = ''/var/lib/shadowstat''"

text \<open>The calls to the operating system: the effective user, whether a path exists, whether a
  directory or a file can be created, and the environment.\<close>

record os_env =
  os_euid :: int
  os_stat :: "string \<Rightarrow> bool"
  os_mkdir :: "string \<Rightarrow> bool"
  os_create :: "string \<Rightarrow> bool"
  os_xdg :: string
  os_home :: "string option"

definition dirWritable :: "os_env \<Rightarrow> string \<Rightarrow> bool" where
  "dirWritable os dir =
     (if \<not> os_stat os dir then os_mkdir os dir
      else os_create os (path_Join [dir, ''.shadowstat-write-test'']))"

definition ResolveDataDir :: "os_env \<Rightarrow> string \<Rightarrow> go_error + string" where
  "ResolveDataDir os override =
     (if override \<noteq> [] then
        (if os_mkdir os override then Inr override else Inl (ErrSetup ''create data dir''))
      else if (os_euid os = 0 \<or> dirWritable os systemDataDir) \<and> os_mkdir os systemDataDir then Inr systemDataDir
      else
        (case (if os_xdg os \<noteq> [] then Some (os_xdg os)
               else map_option (\<lambda>home. path_Join [home, ''.local'', ''share'']) (os_home os)) of
           None \<Rightarrow> Inl (ErrSetup ''resolve home directory'')
         | Some base \<Rightarrow>
             (let dir = path_Join [base, ''shadowstat'']
              in if os_mkdir os dir then Inr dir else Inl (ErrSetup ''create data dir''))))"

definition DBPath :: "string \<Rightarrow> string" where "DBPath dataDir = path_Join [dataDir, ''shadowstat.db'']"
definition CertPath :: "string \<Rightarrow> string" where "CertPath dataDir = path_Join [dataDir, ''cert.pem'']"
definition KeyPath :: "string \<Rightarrow> string" where "KeyPath dataDir = path_Join [dataDir, ''key.pem'']"

section \<open>net.ParseCIDR\<close>

definition CIDRMask :: "nat \<Rightarrow> nat \<Rightarrow> byte list" where
  "CIDRMask ones bits =
     map (\<lambda>i. if 8 * i + 8 \<le> ones then 255
              else if ones \<le> 8 * i then 0
              else of_nat (256 - 2 ^ (8 - (ones - 8 * i)))) [0 ..< bits div 8]"

text \<open>\<open>dtoi\<close> reads a decimal number below \<open>0xFFFFFF\<close>; leading zeros are allowed.\<close>

definition dtoi :: "string \<Rightarrow> nat option" where
  "dtoi s = (if s = [] then None
             else case digits_val 0 s of None \<Rightarrow> None | Some n \<Rightarrow> if n < 0xFFFFFF then Some n else None)"

definition ParseCIDR :: "string \<Rightarrow> IPNet option" where
  "ParseCIDR s =
     (if CHR ''/'' \<notin> set s then None
      else
        (let addr = takeWhile (\<lambda>c. c \<noteq> CHR ''/'') s; mask = tl (dropWhile (\<lambda>c. c \<noteq> CHR ''/'') s);
             bits = (if CHR '':'' \<in> set addr then 128 else 32)
         in case (ParseIP addr, dtoi mask) of
              (Some a, Some n) \<Rightarrow>
                if n \<le> bits then
                  (let m = CIDRMask n bits; m16 = (if bits = 32 then replicate 12 255 @ m else m)
                   in Some \<lparr>net_ip = (if bits = 32 then drop 12 else id) (map2 (AND) a m16), net_mask = m\<rparr>)
                else None
            | _ \<Rightarrow> None))"

section \<open>firstrun.go\<close>

definition minPasswordLen :: nat where "minPasswordLen = 12"

definition retentionChoices :: "(string \<times> int) list" where
  "retentionChoices = [(''1 week'', 7), (''1 month'', 30), (''90 days'', 90), (''1 year'', 365)]"

text \<open>A prompt consumes lines until it accepts one; at the end of the input it fails.\<close>

type_synonym 'a prompt = "string list \<Rightarrow> (go_error + 'a) \<times> string list"

fun prompt_loop :: "(string \<Rightarrow> 'a option) \<Rightarrow> 'a prompt" where
  "prompt_loop accept [] = (Inl ErrIO, [])"
| "prompt_loop accept (l # ls) =
     (case accept (TrimSpace l) of Some a \<Rightarrow> (Inr a, ls) | None \<Rightarrow> prompt_loop accept ls)"

definition menu_index :: "nat \<Rightarrow> string \<Rightarrow> nat option" where
  "menu_index n line =
     (case Atoi line of None \<Rightarrow> None | Some idx \<Rightarrow> if idx < 1 \<or> idx > int n then None else Some (nat (idx - 1)))"

definition promptInterface :: "go_error + iface list \<Rightarrow> string prompt" where
  "promptInterface ifs ls =
     (case ifs of
        Inl e \<Rightarrow> (Inl e, ls)
      | Inr xs \<Rightarrow>
          if xs = [] then (Inl (ErrSetup ''no candidate network interfaces found''), ls)
          else prompt_loop (\<lambda>line. if line = [] then Some (if_name (xs ! 0))
                                   else map_option (\<lambda>i. if_name (xs ! i)) (menu_index (length xs) line)) ls)"

definition promptSubnet :: "string prompt" where
  "promptSubnet = prompt_loop (\<lambda>line. if ParseCIDR line = None then None else Some line)"

definition promptRetention :: "int prompt" where
  "promptRetention =
     prompt_loop (\<lambda>line. if line = [] then Some (snd (retentionChoices ! 1))
                         else map_option (\<lambda>i. snd (retentionChoices ! i)) (menu_index (length retentionChoices) line))"

definition promptUsername :: "string prompt" where
  "promptUsername = prompt_loop (\<lambda>line. if line = [] then None else Some line)"

text \<open>\<open>term.ReadPassword\<close> reads without trimming; each attempt reads a password and, when it is long
  enough, its confirmation.\<close>

fun promptPassword :: "string prompt" where
  "promptPassword [] = (Inl ErrIO, [])"
| "promptPassword (pw1 # pws) =
     (if length pw1 < minPasswordLen then promptPassword pws
      else (case pws of
              [] \<Rightarrow> (Inl ErrIO, [])
            | pw2 # rest \<Rightarrow> if pw1 \<noteq> pw2 then promptPassword rest else (Inr pw1, rest)))"

record wizard_io =
  io_tty :: bool
  io_lines :: "string list"
  io_passwords :: "string list"

record answers =
  an_iface :: string
  an_subnet :: string
  an_days :: int
  an_user :: string
  an_password :: string

definition ask :: "go_error + iface list \<Rightarrow> wizard_io \<Rightarrow> go_error + answers" where
  "ask ifs io =
     (case promptInterface ifs (io_lines io) of (Inl e, _) \<Rightarrow> Inl e | (Inr i, l1) \<Rightarrow>
      case promptSubnet l1 of (Inl e, _) \<Rightarrow> Inl e | (Inr s, l2) \<Rightarrow>
      case promptRetention l2 of (Inl e, _) \<Rightarrow> Inl e | (Inr days, l3) \<Rightarrow>
      case promptUsername l3 of (Inl e, _) \<Rightarrow> Inl e | (Inr u, l4) \<Rightarrow>
      case promptPassword (io_passwords io) of (Inl e, _) \<Rightarrow> Inl e | (Inr pw, _) \<Rightarrow>
      Inr \<lparr>an_iface = i, an_subnet = s, an_days = days, an_user = u, an_password = pw\<rparr>)"

definition wizard_settings :: "answers \<Rightarrow> (string \<times> string) list" where
  "wizard_settings an =
     [(KeyCaptureInterface, an_iface an), (KeyLANSubnetCIDR, an_subnet an), (KeyRetentionDays, Itoa (an_days an)),
      (KeyHTTPListenAddr, DefaultHTTPListenAddr), (KeyFlushIntervalSecs, Itoa DefaultFlushInterval)]"

text \<open>\<open>rank\<close> is the order in which Go iterates over the map of settings.\<close>

definition RunFirstRunWizard :: "kdf \<Rightarrow> byte list option \<Rightarrow> (string \<Rightarrow> nat) \<Rightarrow> gotime \<Rightarrow> go_error + iface list \<Rightarrow> wizard_io \<Rightarrow> unit dbm" where
  "RunFirstRunWizard idkey rnd rank now ifs io d =
     (if \<not> io_tty io then (Inl (ErrSetup ''no interactive terminal''), d)
      else case ask ifs io of Inl e \<Rightarrow> (Inl e, d) | Inr an \<Rightarrow>
           case HashPassword idkey rnd (an_password an) of Inl e \<Rightarrow> (Inl e, d) | Inr hash \<Rightarrow>
           case CreateUser (an_user an) hash RoleAdmin (Unix now) d of (Inl e, d1) \<Rightarrow> (Inl e, d1) | (Inr _, d1) \<Rightarrow>
           case SetSettings (sort_key (\<lambda>kv. rank (fst kv)) (wizard_settings an)) d1 of (Inl e, d2) \<Rightarrow> (Inl e, d2) | (Inr _, d2) \<Rightarrow>
           SetSetting KeySetupComplete ''1'' d2)"

section \<open>cmd/run.go\<close>

definition exitNoInteractiveSetup :: nat where "exitNoInteractiveSetup = 10"

text \<open>How a start ends: with an exit code, with the panic of \<open>time.NewTicker\<close> on a non-positive
  interval, or running.\<close>

datatype start = Exit nat | TickerPanic | Running Settings IPNet duration

record run_env =
  re_datadir :: "go_error + string"
  re_first :: bool
  re_open :: bool
  re_capture :: "string \<Rightarrow> bool"
  re_server :: "string \<Rightarrow> bool"

text \<open>\<open>re_datadir\<close> is the outcome of \<open>ResolveDataDir\<close>, \<open>re_first\<close> whether the database file was
  absent, \<open>re_open\<close>, \<open>re_capture\<close> and \<open>re_server\<close> whether the database, the capture socket on an
  interface and the web server on an address could be opened. The interval is the multiplication
  of \<open>time.Duration\<close>, which wraps.\<close>

definition start_services :: "run_env \<Rightarrow> Settings \<Rightarrow> start" where
  "start_services re s =
     (case ParseCIDR (st_subnet s) of None \<Rightarrow> Exit 1 | Some lan \<Rightarrow>
      if \<not> re_capture re (st_iface s) then Exit 1
      else if \<not> re_server re (st_listen s) then Exit 1
      else (let flushEvery = int64 (st_flush s * Second)
            in if flushEvery \<le> 0 then TickerPanic else Running s lan flushEvery))"

definition runCmd :: "run_env \<Rightarrow> kdf \<Rightarrow> byte list option \<Rightarrow> (string \<Rightarrow> nat) \<Rightarrow> gotime \<Rightarrow> go_error + iface list \<Rightarrow> wizard_io \<Rightarrow> db \<Rightarrow> start \<times> db" where
  "runCmd re idkey rnd rank now ifs io d =
     (case re_datadir re of Inl _ \<Rightarrow> (Exit 1, d) | Inr _ \<Rightarrow>
      if \<not> re_open re then (Exit 1, d)
      else case IsSetupComplete d of (Inl _, d1) \<Rightarrow> (Exit 1, d1) | (Inr setupDone, d1) \<Rightarrow>
           (let needed = re_first re \<or> \<not> setupDone in
            if needed \<and> \<not> io_tty io then (Exit exitNoInteractiveSetup, d1)
            else case (if needed then RunFirstRunWizard idkey rnd rank now ifs io d1 else (Inr (), d1)) of
                   (Inl _, d2) \<Rightarrow> (Exit 1, d2)
                 | (Inr _, d2) \<Rightarrow>
                     (case Load d2 of (Inl _, d3) \<Rightarrow> (Exit 1, d3) | (Inr s, d3) \<Rightarrow> (start_services re s, d3))))"

section \<open>The prompts\<close>

lemma prompt_loop_accepts: "prompt_loop accept ls = (Inr a, rest) \<Longrightarrow> \<exists>l. accept l = Some a"
  by (induction ls) (auto split: option.splits)

lemma promptPassword_long: "promptPassword pws = (Inr pw, rest) \<Longrightarrow> minPasswordLen \<le> length pw"
  by (induction pws rule: promptPassword.induct) (auto split: if_splits list.splits)

text \<open>The answers that the wizard accepts.\<close>

definition valid_answers :: "go_error + iface list \<Rightarrow> answers \<Rightarrow> bool" where
  "valid_answers ifs an \<longleftrightarrow>
     (\<exists>xs. ifs = Inr xs \<and> an_iface an \<in> if_name ` set xs) \<and> ParseCIDR (an_subnet an) \<noteq> None
     \<and> an_days an \<in> {7, 30, 90, 365} \<and> an_user an \<noteq> [] \<and> minPasswordLen \<le> length (an_password an)"

lemma menu_index_bound: "menu_index n line = Some i \<Longrightarrow> i < n"
  by (auto simp: menu_index_def split: option.splits if_splits)

lemma promptInterface_valid:
  assumes "promptInterface ifs ls = (Inr i, rest)"
  shows "\<exists>xs. ifs = Inr xs \<and> i \<in> if_name ` set xs"
proof -
  obtain xs where xs: "ifs = Inr xs" "xs \<noteq> []"
    using assms by (auto simp: promptInterface_def split: sum.splits if_splits)
  then obtain l where "(if l = [] then Some (if_name (xs ! 0)) else map_option (\<lambda>i. if_name (xs ! i)) (menu_index (length xs) l)) = Some i"
    using assms prompt_loop_accepts by (fastforce simp: promptInterface_def)
  then show ?thesis using xs menu_index_bound [of "length xs" l] by (auto split: if_splits)
qed

lemma promptRetention_valid: "promptRetention ls = (Inr days, rest) \<Longrightarrow> days \<in> {7, 30, 90, 365}"
proof -
  assume r: "promptRetention ls = (Inr days, rest)"
  obtain l where l: "(if l = [] then Some (snd (retentionChoices ! 1))
      else map_option (\<lambda>i. snd (retentionChoices ! i)) (menu_index (length retentionChoices) l)) = Some days"
    by (rule exE [OF prompt_loop_accepts [OF r [unfolded promptRetention_def]]])
  have all: "list_all (\<lambda>c. snd c \<in> {7, 30, 90, 365}) retentionChoices" by (simp add: retentionChoices_def)
  show ?thesis
  proof (cases "l = []")
    case True
    then show ?thesis using l by (auto simp: retentionChoices_def)
  next
    case False
    then obtain i where i: "menu_index (length retentionChoices) l = Some i" "days = snd (retentionChoices ! i)" using l by auto
    then have "retentionChoices ! i \<in> set retentionChoices" using menu_index_bound nth_mem by blast
    then show ?thesis using all i(2) unfolding list_all_iff by blast
  qed
qed

lemma ask_valid:
  assumes "ask ifs io = Inr an"
  shows "valid_answers ifs an"
proof -
  obtain r1 l1 where 1: "promptInterface ifs (io_lines io) = (r1, l1)" by fastforce
  obtain r2 l2 where 2: "promptSubnet l1 = (r2, l2)" by fastforce
  obtain r3 l3 where 3: "promptRetention l2 = (r3, l3)" by fastforce
  obtain r4 l4 where 4: "promptUsername l3 = (r4, l4)" by fastforce
  obtain r5 l5 where 5: "promptPassword (io_passwords io) = (r5, l5)" by fastforce
  note res = assms [unfolded ask_def 1 prod.case]
  obtain i where i: "r1 = Inr i" using res by (cases r1) simp_all
  note res = res [unfolded i sum.case 2 prod.case]
  obtain s where s: "r2 = Inr s" using res by (cases r2) simp_all
  note res = res [unfolded s sum.case 3 prod.case]
  obtain n where n: "r3 = Inr n" using res by (cases r3) simp_all
  note res = res [unfolded n sum.case 4 prod.case]
  obtain u where u: "r4 = Inr u" using res by (cases r4) simp_all
  note res = res [unfolded u sum.case 5 prod.case]
  obtain pw where pw: "r5 = Inr pw" using res by (cases r5) simp_all
  have an: "an = \<lparr>an_iface = i, an_subnet = s, an_days = n, an_user = u, an_password = pw\<rparr>" using res pw by simp
  have "ParseCIDR s \<noteq> None"
    using prompt_loop_accepts [OF 2 [unfolded promptSubnet_def s]] by (auto split: if_splits)
  moreover have "u \<noteq> []"
    using prompt_loop_accepts [OF 4 [unfolded promptUsername_def u]] by (auto split: if_splits)
  ultimately show ?thesis
    using promptInterface_valid [OF 1 [unfolded i]] promptRetention_valid [OF 3 [unfolded n]] promptPassword_long [OF 5 [unfolded pw]]
    unfolding valid_answers_def an by simp
qed

section \<open>Properties\<close>

lemma CreateUser_cases [consumes 1, case_names fail success]:
  assumes "CreateUser name hash role created d = (r, d')"
  obtains (fail) e where "r = Inl e" "tbl d' = tbl d"
  | (success) "name \<notin> u_name ` set (users (tbl d))" "r = Inr (user_seq (tbl d))"
      "tbl d' = (tbl d)\<lparr>users := users (tbl d) @ [\<lparr>u_id = user_seq (tbl d), u_name = name, u_hash = hash, u_role = role, u_created = created\<rparr>],
         user_seq := user_seq (tbl d) + 1\<rparr>"
proof (cases rule: exec_cases [of "sql_create_user name hash role created" d])
  case (fail e)
  then show thesis using assms that(1) by (simp add: CreateUser_def)
next
  case (success a t)
  have "name \<notin> u_name ` set (users (tbl d))" "a = user_seq (tbl d)"
    "t = (tbl d)\<lparr>users := users (tbl d) @ [\<lparr>u_id = user_seq (tbl d), u_name = name, u_hash = hash, u_role = role, u_created = created\<rparr>],
         user_seq := user_seq (tbl d) + 1\<rparr>"
    using success(1) by (auto simp: sql_create_user_def split: if_splits)
  then show thesis using that(2) success(2,3) assms by (simp add: CreateUser_def)
qed

lemma fold_settings_users: "users (fold sql_set_setting kv t) = users t"
  by (induction kv arbitrary: t) (simp_all add: sql_set_setting_def)

lemma SetSettings_users: "SetSettings kv d = (r, d') \<Longrightarrow> users (tbl d') = users (tbl d)"
proof (cases rule: run_tx_cases [of "(\<lambda>t. Inr t) # map (\<lambda>p t. Inr (sql_set_setting p t)) kv" d])
  case (fail e)
  then show "SetSettings kv d = (r, d') \<Longrightarrow> ?thesis" by (simp add: SetSettings_def)
next
  case (success t)
  have "users t = users (tbl d)" using success(3) by (auto simp: tx_fold_set_settings fold_settings_users)
  then show "SetSettings kv d = (r, d') \<Longrightarrow> ?thesis" using success by (simp add: SetSettings_def)
qed

lemma SetSetting_users: "SetSetting k v d = (r, d') \<Longrightarrow> users (tbl d') = users (tbl d)"
  by (cases rule: exec_cases [of "\<lambda>t. Inr ((), sql_set_setting (k, v) t)" d])
    (auto simp: SetSetting_def sql_set_setting_def)

lemma map_of_sort_key:
  assumes "distinct (map fst xs)"
  shows "map_of (sort_key f xs) = map_of xs"
proof -
  have "distinct (map fst (sort_key f xs))"
    using assms mset_eq_imp_distinct_iff [of "map fst (sort_key f xs)" "map fst xs"] by simp
  then show ?thesis using assms by (simp add: map_of_inject_set)
qed

lemma distinct_keys: "distinct (map fst (wizard_settings an))"
  by (simp add: wizard_settings_def key_defs)

text \<open>After a successful wizard without driver failures: its answers, its user and its settings.\<close>

lemma wizard_effect:
  assumes "db_faults d = []" and "RunFirstRunWizard idkey (Some salt) rank now ifs io d = (Inr (), d')"
  obtains an hash where "valid_answers ifs an" "HashPassword idkey (Some salt) (an_password an) = Inr hash"
    "\<lparr>u_id = user_seq (tbl d), u_name = an_user an, u_hash = hash, u_role = RoleAdmin, u_created = Unix now\<rparr> \<in> set (users (tbl d'))"
    "map_of (settings (tbl d')) = (map_of (settings (tbl d)) ++ map_of (wizard_settings an))(KeySetupComplete \<mapsto> ''1'')"
    "db_faults d' = []"
proof -
  obtain an where an: "ask ifs io = Inr an"
    using assms(2) by (auto simp: RunFirstRunWizard_def split: if_splits sum.splits)
  obtain hash where h: "HashPassword idkey (Some salt) (an_password an) = Inr hash" by (simp add: HashPassword_parts)
  obtain r1 d1 where c: "CreateUser (an_user an) hash RoleAdmin (Unix now) d = (r1, d1)" by fastforce
  obtain i where i: "r1 = Inr i"
    using assms(2) an h c by (cases r1) (auto simp: RunFirstRunWizard_def split: if_splits)
  have f1: "db_faults d1 = []" using c assms(1) by (auto simp: CreateUser_def exec_ok split: sum.splits)
  let ?kv = "sort_key (\<lambda>kv. rank (fst kv)) (wizard_settings an)"
  let ?t2 = "fold sql_set_setting ?kv (tbl d1)"
  have d': "d' = d1\<lparr>tbl := sql_set_setting (KeySetupComplete, ''1'') ?t2\<rparr>"
    using assms(2) an h c i f1
    by (auto simp: RunFirstRunWizard_def SetSettings_ok SetSetting_def exec_ok split: if_splits)
  have dk: "distinct (map fst ?kv)"
    using distinct_keys [of an] mset_eq_imp_distinct_iff [of "map fst ?kv" "map fst (wizard_settings an)"] by simp
  from c have t1: "\<lparr>u_id = user_seq (tbl d), u_name = an_user an, u_hash = hash, u_role = RoleAdmin, u_created = Unix now\<rparr> \<in> set (users (tbl d1))"
    "settings (tbl d1) = settings (tbl d)"
    by (cases rule: CreateUser_cases; simp add: i)+
  have s: "map_of (settings (tbl d')) = (map_of (settings (tbl d)) ++ map_of (wizard_settings an))(KeySetupComplete \<mapsto> ''1'')"
    using t1(2) by (simp add: d' settings_table.look_ins map_of_fold_settings [OF dk] map_of_sort_key [OF distinct_keys])
  have "users (tbl d') = users (tbl d1)" by (simp add: d' sql_set_setting_def fold_settings_users)
  then show thesis using that [OF ask_valid [OF an] h _ s] t1(1) f1 d' by simp
qed

lemma wizard_keys:
  "map_of (wizard_settings an) KeyCaptureInterface = Some (an_iface an)" "map_of (wizard_settings an) KeyLANSubnetCIDR = Some (an_subnet an)"
  "map_of (wizard_settings an) KeyRetentionDays = Some (Itoa (an_days an))"
  "map_of (wizard_settings an) KeyHTTPListenAddr = Some DefaultHTTPListenAddr"
  "map_of (wizard_settings an) KeyFlushIntervalSecs = Some (Itoa DefaultFlushInterval)"
  by (simp_all add: wizard_settings_def key_defs)

lemma key_ne_complete:
  "KeyCaptureInterface \<noteq> KeySetupComplete" "KeyLANSubnetCIDR \<noteq> KeySetupComplete" "KeyRetentionDays \<noteq> KeySetupComplete"
  "KeyHTTPListenAddr \<noteq> KeySetupComplete" "KeyFlushIntervalSecs \<noteq> KeySetupComplete"
  by (simp_all add: key_defs)

lemma Itoa_nonempty [simp]: "Itoa n \<noteq> []"
  by (simp add: Itoa_def)

lemma Load_ok: "db_faults d = [] \<Longrightarrow> Load d = (settings_of (map_of (settings (tbl d))), d)"
  by (simp add: Load_def AllSettings_def)

lemma IsSetupComplete_ok: "db_faults d = [] \<Longrightarrow> IsSetupComplete d = (Inr (map_of (settings (tbl d)) KeySetupComplete = Some ''1''), d)"
  by (simp add: IsSetupComplete_def GetSetting_def)


definition demo_io :: wizard_io where
  "demo_io = \<lparr>io_tty = True, io_lines = [''1'', ''10.0.0.0/8'', [], ''root''], io_passwords = [''hunter2hunter2'', ''hunter2hunter2'']\<rparr>"

definition demo_ifaces :: "go_error + iface list" where
  "demo_ifaces = Inr [\<lparr>if_name = ''eth0'', if_loopback = False\<rparr>]"

definition demo_run :: run_env where
  "demo_run = \<lparr>re_datadir = Inr ''/var/lib/shadowstat'', re_first = False, re_open = True, re_capture = (\<lambda>_. True), re_server = (\<lambda>_. True)\<rparr>"

lemma demo_ask: "ask demo_ifaces demo_io = Inr \<lparr>an_iface = ''eth0'', an_subnet = ''10.0.0.0/8'', an_days = 30, an_user = ''root'', an_password = ''hunter2hunter2''\<rparr>"
proof -
  have t: "TrimSpace ''1'' = ''1''" "TrimSpace ''10.0.0.0/8'' = ''10.0.0.0/8''" "TrimSpace [] = []" "TrimSpace ''root'' = ''root''"
    by code_simp+
  have "ParseIP ''10.0.0.0'' = Some (v4InV6Prefix @ [10, 0, 0, 0])" by code_simp
  then have c: "ParseCIDR ''10.0.0.0/8'' \<noteq> None"
    by (simp add: ParseCIDR_def dtoi_def isDigit_def digit_val_def Let_def)
  have "Atoi ''1'' = Some 1" by (simp add: ParseInt64_def ParseUint_def isDigit_def digit_val_def)
  then have "menu_index 1 ''1'' = Some 0" by (simp add: menu_index_def)
  then have "promptInterface demo_ifaces (io_lines demo_io) = (Inr ''eth0'', [''10.0.0.0/8'', [], ''root''])"
    by (simp add: promptInterface_def demo_ifaces_def demo_io_def t)
  moreover have "promptSubnet [''10.0.0.0/8'', [], ''root''] = (Inr ''10.0.0.0/8'', [[], ''root''])"
    using c by (auto simp: promptSubnet_def t)
  moreover have "promptRetention [[], ''root''] = (Inr 30, [''root''])"
    by (simp add: promptRetention_def retentionChoices_def t)
  moreover have "promptUsername [''root''] = (Inr ''root'', [])" by (simp add: promptUsername_def t)
  moreover have "promptPassword (io_passwords demo_io) = (Inr ''hunter2hunter2'', [])"
    by (simp add: demo_io_def minPasswordLen_def)
  ultimately show ?thesis by (simp add: ask_def)
qed

lemma wizard_ok:
  assumes "db_faults d = []" and "io_tty io" and "ask ifs io = Inr an" and "an_user an \<notin> u_name ` set (users (tbl d))"
  shows "\<exists>d'. RunFirstRunWizard idkey (Some salt) rank now ifs io d = (Inr (), d')"
  using assms
  by (simp add: RunFirstRunWizard_def HashPassword_parts CreateUser_def exec_ok sql_create_user_def SetSettings_ok SetSetting_def)


lemma wizard_writes_user_first:
  assumes "RunFirstRunWizard idkey rnd rank now ifs io d = (r, d')"
  shows "tbl d' = tbl d \<or> (\<exists>an. ask ifs io = Inr an \<and> an_user an \<in> u_name ` set (users (tbl d')))"
proof (cases "io_tty io \<and> (\<exists>an. ask ifs io = Inr an) \<and> rnd \<noteq> None")
  case False
  then have "d' = d"
    using assms by (auto simp: RunFirstRunWizard_def HashPassword_def split: if_splits sum.splits option.splits)
  then show ?thesis by simp
next
  case True
  then obtain an salt where an: "io_tty io" "ask ifs io = Inr an" "rnd = Some salt" by auto
  obtain hash where h: "HashPassword idkey rnd (an_password an) = Inr hash" by (simp add: an HashPassword_parts)
  obtain r1 d1 where c: "CreateUser (an_user an) hash RoleAdmin (Unix now) d = (r1, d1)" by fastforce
  from c show ?thesis
  proof (cases rule: CreateUser_cases)
    case (fail e)
    then show ?thesis using assms [symmetric] an h c by (simp add: RunFirstRunWizard_def)
  next
    case success
    let ?kv = "sort_key (\<lambda>kv. rank (fst kv)) (wizard_settings an)"
    obtain r2 d2 where s: "SetSettings ?kv d1 = (r2, d2)" by fastforce
    obtain r3 d3 where t: "SetSetting KeySetupComplete ''1'' d2 = (r3, d3)" by fastforce
    have "d' = d2 \<or> d' = d3"
      using assms [symmetric] an h c success(2) s t by (cases r2) (simp_all add: RunFirstRunWizard_def)
    then have "users (tbl d') = users (tbl d1)"
      using SetSettings_users [OF s] SetSetting_users [OF t] by auto
    then have "an_user an \<in> u_name ` set (users (tbl d'))" using success(3) by simp
    then show ?thesis using an(2) by blast
  qed
qed

text \<open>The setup is not one transaction. If the wizard fails after it has written anything, the
  account it created stays, and every later run that gives the same answers fails too and changes
  nothing, whatever the driver does: the operator can finish the setup only under another name.\<close>

theorem interrupted_setup_blocks_retry:
  assumes "RunFirstRunWizard idkey rnd rank now ifs io d = (Inl e, d1)" and "tbl d1 \<noteq> tbl d" and "tbl d2 = tbl d1"
  shows "\<exists>e' d3. RunFirstRunWizard idkey rnd' rank' now' ifs io d2 = (Inl e', d3) \<and> tbl d3 = tbl d1"
proof -
  obtain an where an: "ask ifs io = Inr an" "an_user an \<in> u_name ` set (users (tbl d2))"
    using wizard_writes_user_first [OF assms(1)] assms(2,3) by auto
  show ?thesis
  proof (cases rnd')
    case None
    then show ?thesis using an assms(3) by (auto simp: RunFirstRunWizard_def HashPassword_def)
  next
    case (Some salt)
    obtain hash where h: "HashPassword idkey rnd' (an_password an) = Inr hash" by (simp add: Some HashPassword_parts)
    obtain r1 d3 where c: "CreateUser (an_user an) hash RoleAdmin (Unix now') d2 = (r1, d3)" by fastforce
    from c obtain e' where "r1 = Inl e'" "tbl d3 = tbl d2" by (cases rule: CreateUser_cases) (use an(2) in auto)
    then show ?thesis using an(1) h c assms(3) by (auto simp: RunFirstRunWizard_def)
  qed
qed

theorem interrupted_setup_blocks_retry_witness:
  "\<exists>e d1 e' d3. RunFirstRunWizard demo_kdf (Some (replicate 16 7)) (\<lambda>_. 0) 0 demo_ifaces demo_io \<lparr>tbl = empty_tables, db_faults = [False, True]\<rparr> = (Inl e, d1)
     \<and> db_faults d1 = []
     \<and> RunFirstRunWizard demo_kdf (Some (replicate 16 7)) (\<lambda>_. 0) 0 demo_ifaces demo_io d1 = (Inl e', d3)"
proof -
  let ?d = "\<lparr>tbl = empty_tables, db_faults = [False, True]\<rparr>"
  let ?run = "RunFirstRunWizard demo_kdf (Some (replicate 16 7)) (\<lambda>_. 0) 0 demo_ifaces demo_io"
  obtain hash where h: "HashPassword demo_kdf (Some (replicate 16 7)) ''hunter2hunter2'' = Inr hash" by (simp add: HashPassword_parts)
  have tty: "io_tty demo_io" by (simp add: demo_io_def)
  have "\<exists>d1. ?run ?d = (Inl ErrIO, d1) \<and> tbl d1 \<noteq> tbl ?d \<and> db_faults d1 = []"
    by (simp add: RunFirstRunWizard_def demo_ask h tty CreateUser_def exec_def driver_call_def sql_create_user_def empty_tables_def
        SetSettings_def run_tx_def)
  then obtain d1 where r: "?run ?d = (Inl ErrIO, d1)" "tbl d1 \<noteq> tbl ?d" "db_faults d1 = []" by blast
  from interrupted_setup_blocks_retry [OF r(1,2) refl, of "Some (replicate 16 7)" "\<lambda>_. 0" 0]
  show ?thesis using r by blast
qed

section \<open>Settings that stop the program\<close>

lemma runCmd_configured:
  assumes "db_faults d = []" and "map_of (settings (tbl d)) KeySetupComplete = Some ''1''"
    and "re_datadir re = Inr dir" and "re_open re" and "\<not> re_first re"
  shows "runCmd re idkey rnd rank now ifs io d =
    (case settings_of (map_of (settings (tbl d))) of Inl _ \<Rightarrow> Exit 1 | Inr s \<Rightarrow> start_services re s, d)"
  using assms by (simp add: runCmd_def IsSetupComplete_ok Load_ok split: sum.splits)

lemma unparsable_setting_exits:
  assumes "Atoi (valueOr (go_index kv KeyRetentionDays) ''30'') = None
     \<or> Atoi (valueOr (go_index kv KeyFlushIntervalSecs) (Itoa DefaultFlushInterval)) = None"
  shows "\<exists>e. settings_of kv = Inl e"
  using assms by (auto simp: settings_of_def split: option.splits)

end
