(* ===== verification/Store_Rollup.thy ===== *)
theory Store_Rollup
  imports Store_Ops
begin

text \<open>
  \<open>store/rollup.go\<close> and the series queries of \<open>store/flows.go\<close>: the four rollup tiers, the two
  \<^verbatim>\<open>INSERT ... SELECT ... GROUP BY ... ON CONFLICT DO UPDATE\<close> statements that fill them, pruning, and
  the queries the graphs read. A rollup table is keyed by (host, direction, bucket) and its cells
  are added up on conflict; \<open>cell\<close> reads a missing row as zero, so that the lemmas are equations
  between sums.
\<close>

section \<open>Rollup cells\<close>

definition sum_on_conflict :: "'k \<times> counters \<Rightarrow> ('k \<times> counters) list \<Rightarrow> ('k \<times> counters) list" where
  "sum_on_conflict kc tab = upsert (fst kc) (\<lambda>old. case old of None \<Rightarrow> snd kc | Some c \<Rightarrow> c + snd kc) tab"

definition cell :: "('k \<times> counters) list \<Rightarrow> 'k \<Rightarrow> counters" where
  "cell tab k = (case map_of tab k of None \<Rightarrow> 0 | Some c \<Rightarrow> c)"

interpretation rollup_cells: keyed_table sum_on_conflict map_of fst
  "\<lambda>kc old. case old of None \<Rightarrow> snd kc | Some c \<Rightarrow> c + snd kc" "\<lambda>tab. distinct (map fst tab)"
  by unfold_locales (simp_all add: sum_on_conflict_def map_of_upsert distinct_upsert)

lemma cell_sum_on_conflict:
  "cell (sum_on_conflict kc tab) k = cell tab k + (if fst kc = k then snd kc else 0)"
  by (auto simp: sum_on_conflict_def cell_def map_of_upsert split: option.splits)

lemma cell_fold_sum:
  "cell (fold sum_on_conflict kcs tab) k = cell tab k + sum_list (map snd (filter (\<lambda>kc. fst kc = k) kcs))"
  by (induction kcs arbitrary: tab) (simp_all add: cell_sum_on_conflict ac_simps)

lemma keys_fold_sum: "fst ` set (fold sum_on_conflict kcs tab) = fst ` set tab \<union> fst ` set kcs"
  by (induction kcs arbitrary: tab) (auto simp: sum_on_conflict_def keys_upsert)


section \<open>rollup.go\<close>

definition rollupTables :: "string \<rightharpoonup> string" where
  "rollupTables = map_of [(''1m'', ''rollup_1m''), (''5m'', ''rollup_5m''), (''1h'', ''rollup_1h''), (''1d'', ''rollup_1d'')]"

text \<open>SQLite's integer division truncates toward zero.\<close>

definition sql_div :: "int \<Rightarrow> int \<Rightarrow> int" where
  "sql_div a b = sgn a * sgn b * (\<bar>a\<bar> div \<bar>b\<bar>)"

definition bucket :: "int \<Rightarrow> int \<Rightarrow> int" where
  "bucket w ts = sql_div ts w * w"

definition flow_counters :: "FlowRecord \<Rightarrow> counters" where
  "flow_counters f = Counters (f_sent f) (f_recv f) (f_psent f) (f_precv f)"

definition flow_key :: "FlowRecord \<Rightarrow> rollup_key" where
  "flow_key f = (f_host f, f_dir f, bucket 60 (f_last f))"

text \<open>The aggregated rows of \<^verbatim>\<open>SELECT key, SUM(...) ... GROUP BY key\<close>.\<close>

definition select_sums :: "('a \<Rightarrow> 'k) \<Rightarrow> ('a \<Rightarrow> counters) \<Rightarrow> 'a list \<Rightarrow> ('k \<times> counters) list" where
  "select_sums key v rows = map (\<lambda>g. (fst g, sum_list (map v (snd g)))) (group_by key rows)"

definition insert_sums :: "string \<Rightarrow> (rollup_key \<times> counters) list \<Rightarrow> tables \<Rightarrow> go_error + (unit \<times> tables)" where
  "insert_sums dst kcs t =
     (if list_all (\<lambda>kc. fst (fst kc) \<in> host_ids t) kcs
      then Inr ((), t\<lparr>rollups := (rollups t)(dst := fold sum_on_conflict kcs (rollups t dst))\<rparr>)
      else Inl ErrConstraint)"

definition sql_rollup_flows :: "int \<Rightarrow> int \<Rightarrow> tables \<Rightarrow> go_error + (unit \<times> tables)" where
  "sql_rollup_flows from to t =
     insert_sums ''rollup_1m''
       (select_sums flow_key flow_counters (filter (\<lambda>f. from \<le> f_last f \<and> f_last f < to) (flows_recent t))) t"

definition RollupFromFlowsRecent :: "int \<Rightarrow> int \<Rightarrow> unit dbm" where
  "RollupFromFlowsRecent from to = exec (sql_rollup_flows from to)"

text \<open>
  In \<open>RollupFromFiner\<close> the name \<open>bucket_ts\<close> of the \<^verbatim>\<open>GROUP BY\<close> is the column of the source
  table, which SQLite prefers to the alias of the same name: the rows are grouped by the fine
  bucket, and rows of the same coarse bucket meet in the conflict clause.
\<close>

definition coarse_key :: "int \<Rightarrow> rollup_key \<Rightarrow> rollup_key" where
  "coarse_key w k = (case k of (h, dir, ts) \<Rightarrow> (h, dir, bucket w ts))"

definition sql_rollup_finer :: "string \<Rightarrow> string \<Rightarrow> int \<Rightarrow> int \<Rightarrow> int \<Rightarrow> tables \<Rightarrow> go_error + (unit \<times> tables)" where
  "sql_rollup_finer src dst w from to t =
     insert_sums dst
       (map (\<lambda>kc. (coarse_key w (fst kc), snd kc))
         (select_sums fst snd (filter (\<lambda>((h, dir, ts), c). from \<le> ts \<and> ts < to) (rollups t src)))) t"

definition RollupFromFiner :: "string \<Rightarrow> string \<Rightarrow> int \<Rightarrow> int \<Rightarrow> int \<Rightarrow> unit dbm" where
  "RollupFromFiner srcGranularity dstGranularity bucketWidth from to d =
     (case rollupTables srcGranularity of
        None \<Rightarrow> (Inl (ErrUnknownGranularity srcGranularity), d)
      | Some srcTable \<Rightarrow>
          (case rollupTables dstGranularity of
             None \<Rightarrow> (Inl (ErrUnknownGranularity dstGranularity), d)
           | Some dstTable \<Rightarrow> exec (sql_rollup_finer srcTable dstTable bucketWidth from to) d))"

definition sql_prune_rollup :: "string \<Rightarrow> int \<Rightarrow> tables \<Rightarrow> tables" where
  "sql_prune_rollup table cutoff t =
     t\<lparr>rollups := (rollups t)(table := filter (\<lambda>((h, dir, ts), c). \<not> ts < cutoff) (rollups t table))\<rparr>"

definition PruneRollup :: "string \<Rightarrow> int \<Rightarrow> unit dbm" where
  "PruneRollup granularity cutoff d =
     (case rollupTables granularity of
        None \<Rightarrow> (Inl (ErrUnknownGranularity granularity), d)
      | Some table \<Rightarrow> exec (\<lambda>t. Inr ((), sql_prune_rollup table cutoff t)) d)"

definition IncrementalVacuum :: "unit dbm" where
  "IncrementalVacuum = exec (\<lambda>t. Inr ((), t))"

section \<open>Series and flow detail\<close>

record SeriesPoint =
  sp_bucket :: int
  sp_sent :: int
  sp_recv :: int

text \<open>\<open>directionClause\<close>: a negative direction leaves the rows unfiltered.\<close>

definition directionClause :: "int \<Rightarrow> int \<Rightarrow> bool" where
  "directionClause direction dir \<longleftrightarrow> (if direction < 0 then True else dir = direction)"

text \<open>\<^verbatim>\<open>SELECT b, SUM(bytes_sent), SUM(bytes_recv) ... GROUP BY b ORDER BY b\<close>.\<close>

definition series :: "('a \<Rightarrow> int) \<Rightarrow> ('a \<Rightarrow> counters) \<Rightarrow> 'a list \<Rightarrow> SeriesPoint list" where
  "series key v rows =
     map (\<lambda>b. let c = sum_list (map v (filter (\<lambda>r. key r = b) rows))
              in \<lparr>sp_bucket = b, sp_sent = c_sent c, sp_recv = c_recv c\<rparr>) (sort (remdups (map key rows)))"

definition flow_series :: "int \<Rightarrow> int \<Rightarrow> int \<Rightarrow> int \<Rightarrow> tables \<Rightarrow> SeriesPoint list" where
  "flow_series hostID from to direction t =
     series (\<lambda>f. bucket 60 (f_last f)) flow_counters
       (filter (\<lambda>f. f_host f = hostID \<and> from \<le> f_last f \<and> f_last f \<le> to \<and> directionClause direction (f_dir f))
         (flows_recent t))"

definition HostSeriesFromFlowsRecent :: "int \<Rightarrow> int \<Rightarrow> int \<Rightarrow> int \<Rightarrow> SeriesPoint list dbm" where
  "HostSeriesFromFlowsRecent hostID from to direction =
     query (\<lambda>t. Inr (flow_series hostID from to direction t))"

definition rollup_series :: "string \<Rightarrow> int \<Rightarrow> int \<Rightarrow> int \<Rightarrow> int \<Rightarrow> tables \<Rightarrow> SeriesPoint list" where
  "rollup_series table hostID from to direction t =
     series (\<lambda>r. snd (snd (fst r))) snd
       (filter (\<lambda>((h, dir, ts), c). h = hostID \<and> from \<le> ts \<and> ts \<le> to \<and> directionClause direction dir)
         (rollups t table))"

definition HostSeriesFromRollup :: "string \<Rightarrow> int \<Rightarrow> int \<Rightarrow> int \<Rightarrow> int \<Rightarrow> SeriesPoint list dbm" where
  "HostSeriesFromRollup granularity hostID from to direction d =
     (case rollupTables granularity of
        None \<Rightarrow> (Inl (ErrUnknownGranularity granularity), d)
      | Some table \<Rightarrow> query (\<lambda>t. Inr (rollup_series table hostID from to direction t)) d)"

definition SparklineSeries :: "int \<Rightarrow> int \<Rightarrow> int \<Rightarrow> SeriesPoint list dbm" where
  "SparklineSeries hostID from to = query (\<lambda>t. Inr (rollup_series ''rollup_1m'' hostID from to (- 1) t))"

record FlowDetail =
  fd_rip :: string
  fd_rport :: int
  fd_proto :: int
  fd_dir :: int
  fd_first :: int
  fd_last :: int
  fd_sent :: int
  fd_recv :: int
  fd_psent :: int
  fd_precv :: int

definition flow_detail :: "FlowRecord \<Rightarrow> FlowDetail" where
  "flow_detail f = \<lparr>fd_rip = f_rip f, fd_rport = f_rport f, fd_proto = f_proto f, fd_dir = f_dir f,
     fd_first = f_first f, fd_last = f_last f, fd_sent = f_sent f, fd_recv = f_recv f,
     fd_psent = f_psent f, fd_precv = f_precv f\<rparr>"

definition HostFlows :: "int \<Rightarrow> int \<Rightarrow> int \<Rightarrow> nat \<Rightarrow> FlowDetail list dbm" where
  "HostFlows hostID from to limit =
     query (\<lambda>t. Inr (map flow_detail (take limit (sort_key (\<lambda>f. - f_last f)
       (filter (\<lambda>f. f_host f = hostID \<and> from \<le> f_last f \<and> f_last f \<le> to) (flows_recent t))))))"

section \<open>Buckets\<close>

lemma sql_div_nonneg: "0 \<le> a \<Longrightarrow> 0 < b \<Longrightarrow> sql_div a b = a div b"
  by (cases "a = 0") (simp_all add: sql_div_def)

lemma bucket_nonneg: "0 \<le> ts \<Longrightarrow> 0 < w \<Longrightarrow> bucket w ts = ts div w * w"
  by (simp add: bucket_def sql_div_nonneg)

lemma bucket_bounds:
  assumes "0 \<le> ts" and "0 < w"
  shows "bucket w ts \<le> ts" "ts < bucket w ts + w" "0 \<le> bucket w ts"
proof -
  have "ts div w * w + ts mod w = ts" "0 \<le> ts mod w" "ts mod w < w"
    using assms by simp_all
  then show "bucket w ts \<le> ts" "ts < bucket w ts + w"
    unfolding bucket_nonneg [OF assms] by linarith+
  show "0 \<le> bucket w ts"
    using assms by (simp add: bucket_nonneg pos_imp_zdiv_nonneg_iff)
qed

lemma bucket_unique:
  assumes "0 \<le> k" "0 < w" "k * w \<le> ts" "ts < (k + 1) * w"
  shows "bucket w ts = k * w"
proof -
  have "0 \<le> ts" using assms by (meson mult_nonneg_nonneg order_trans less_imp_le)
  moreover have "ts div w = k"
    using assms by (intro int_div_pos_eq [of _ _ _ "ts - k * w"]) (auto simp: algebra_simps)
  ultimately show ?thesis using assms(2) by (simp add: bucket_nonneg)
qed

lemma bucket_bucket:
  assumes "0 \<le> ts" and "0 < w" and "0 < m"
  shows "bucket (m * w) (bucket w ts) = bucket (m * w) ts"
proof -
  have "bucket w ts div (m * w) = ts div (m * w)"
    using assms
    by (metis bucket_nonneg mult.commute nonzero_mult_div_cancel_right zdiv_zmult2_eq less_le)
  then show ?thesis
    using assms bucket_bounds(3) [of ts w] by (simp add: bucket_nonneg [of _ "m * w"])
qed

section \<open>What the rollup statements add\<close>

lemma sum_filter_sum_on_conflict:
  "sum_list (map snd (filter (\<lambda>x. P (fst x)) (sum_on_conflict kc tab)))
   = sum_list (map snd (filter (\<lambda>x. P (fst x)) tab)) + (if P (fst kc) then snd kc else 0)"
proof -
  have "sum_list (map snd (filter (\<lambda>x. P (fst x)) (upsert k (\<lambda>old. case old of None \<Rightarrow> c | Some o' \<Rightarrow> o' + c) tab)))
    = sum_list (map snd (filter (\<lambda>x. P (fst x)) tab)) + (if P k then c else 0)" for k and c :: counters
    by (induction tab) (auto simp: ac_simps)
  then show ?thesis by (simp add: sum_on_conflict_def)
qed

lemma sum_filter_fold_sum:
  "sum_list (map snd (filter (\<lambda>x. P (fst x)) (fold sum_on_conflict kcs tab)))
   = sum_list (map snd (filter (\<lambda>x. P (fst x)) tab)) + sum_list (map snd (filter (\<lambda>x. P (fst x)) kcs))"
  by (induction kcs arbitrary: tab) (simp_all add: sum_filter_sum_on_conflict ac_simps)

lemma sum_select_sums:
  "sum_list (map snd (filter (\<lambda>kc. P (fst kc)) (select_sums key v xs))) = sum_list (map v (filter (\<lambda>x. P (key x)) xs))"
proof -
  have "filter (\<lambda>kc. P (fst kc)) (select_sums key v xs)
      = map (\<lambda>g. (fst g, sum_list (map v (snd g)))) (filter (\<lambda>g. P (fst g)) (group_by key xs))"
    by (simp add: select_sums_def filter_map comp_def)
  then show ?thesis
    using sum_group_by [of v key "filter (\<lambda>x. P (key x)) xs"]
    by (simp add: filter_group_by comp_def)
qed

lemma keys_select_sums: "fst ` set (select_sums key v xs) = key ` set xs"
  by (simp add: select_sums_def group_by_def image_image)

lemma insert_sums_InrD:
  assumes "insert_sums dst kcs t = Inr (u, t')"
  shows "t' = t\<lparr>rollups := (rollups t)(dst := fold sum_on_conflict kcs (rollups t dst))\<rparr>"
    "fst ` fst ` set kcs \<subseteq> host_ids t"
  using assms by (auto simp: insert_sums_def list_all_iff split: if_splits)

lemma insert_sums_other: "insert_sums dst kcs t = Inr (u, t') \<Longrightarrow> g \<noteq> dst \<Longrightarrow> rollups t' g = rollups t g"
  by (auto dest: insert_sums_InrD)

lemma key_refs_fold_sum [simp]:
  "key_refs ids (fold sum_on_conflict kcs tab) \<longleftrightarrow> key_refs ids tab \<and> fst ` fst ` set kcs \<subseteq> ids"
  by (auto simp: key_refs_def keys_fold_sum image_Un)

lemma wf_insert_sums:
  assumes "wf_tables t" and "insert_sums dst kcs t = Inr (u, t')"
  shows "wf_tables t'"
  using assms(1) insert_sums_InrD [OF assms(2)]
  by (simp add: wf_defs rollup_cells.ok_fold)

lemma wf_sql_rollup_flows [wf_intros]: "stmt_keeps wf_tables (sql_rollup_flows from to)"
  by (rule stmt_keepsI) (auto simp: sql_rollup_flows_def dest: wf_insert_sums)

lemma wf_sql_rollup_finer [wf_intros]: "stmt_keeps wf_tables (sql_rollup_finer src dst w from to)"
  by (rule stmt_keepsI) (auto simp: sql_rollup_finer_def dest: wf_insert_sums)

lemma wf_sql_prune_rollup [wf_intros]: "wf_tables t \<Longrightarrow> wf_tables (sql_prune_rollup g c t)"
  by (auto simp: sql_prune_rollup_def wf_defs distinct_map_filter key_refs_filter)

text \<open>On a well-formed database the two statements meet no constraint.\<close>

lemma sql_rollup_flows_total:
  assumes "wf_tables t"
  shows "\<exists>t'. sql_rollup_flows from to t = Inr ((), t')"
proof -
  have "\<forall>f \<in> set (flows_recent t). f_host f \<in> host_ids t"
    using assms by (simp add: wf_defs)
  then have "list_all (\<lambda>kc. fst (fst kc) \<in> host_ids t)
      (select_sums flow_key flow_counters (filter (\<lambda>f. from \<le> f_last f \<and> f_last f < to) (flows_recent t)))"
    by (auto simp: list_all_iff select_sums_def group_by_def flow_key_def)
  then show ?thesis by (simp add: sql_rollup_flows_def insert_sums_def)
qed

lemma sql_rollup_finer_total:
  assumes "wf_tables t"
  shows "\<exists>t'. sql_rollup_finer src dst w from to t = Inr ((), t')"
proof -
  have "fst ` fst ` set (rollups t src) \<subseteq> host_ids t"
    using assms by (simp add: wf_defs key_refs_def)
  then have "list_all (\<lambda>kc. fst (fst kc) \<in> host_ids t) (map (\<lambda>kc. (coarse_key w (fst kc), snd kc))
      (select_sums fst snd (filter (\<lambda>((h, dir, ts), c). from \<le> ts \<and> ts < to) (rollups t src))))"
    by (force simp: list_all_iff select_sums_def group_by_def coarse_key_def)
  then show ?thesis by (simp add: sql_rollup_finer_def insert_sums_def)
qed

text \<open>The flows and the fine rows that a statement adds to one cell.\<close>

definition flows_into :: "int \<Rightarrow> int \<Rightarrow> rollup_key \<Rightarrow> tables \<Rightarrow> counters" where
  "flows_into from to k t =
     sum_list (map flow_counters (filter (\<lambda>f. from \<le> f_last f \<and> f_last f < to \<and> flow_key f = k) (flows_recent t)))"

definition fine_into :: "string \<Rightarrow> int \<Rightarrow> int \<Rightarrow> int \<Rightarrow> rollup_key \<Rightarrow> tables \<Rightarrow> counters" where
  "fine_into src w from to k t =
     sum_list (map snd (filter (\<lambda>((h, dir, ts), c). from \<le> ts \<and> ts < to \<and> (h, dir, bucket w ts) = k) (rollups t src)))"

lemma sql_rollup_flows_cell:
  assumes "sql_rollup_flows from to t = Inr (u, t')"
  shows "cell (rollups t' ''rollup_1m'') k = cell (rollups t ''rollup_1m'') k + flows_into from to k t"
    and "t' = t\<lparr>rollups := (rollups t)(''rollup_1m'' := rollups t' ''rollup_1m'')\<rparr>"
proof -
  let ?rows = "filter (\<lambda>f. from \<le> f_last f \<and> f_last f < to) (flows_recent t)"
  note t' = insert_sums_InrD(1) [OF assms [unfolded sql_rollup_flows_def]]
  have "sum_list (map snd (filter (\<lambda>kc. fst kc = k) (select_sums flow_key flow_counters ?rows))) = flows_into from to k t"
    unfolding sum_select_sums [where P = "\<lambda>x. x = k"] flows_into_def by (simp add: conj_ac)
  then show "cell (rollups t' ''rollup_1m'') k = cell (rollups t ''rollup_1m'') k + flows_into from to k t"
    by (simp add: t' cell_fold_sum)
  show "t' = t\<lparr>rollups := (rollups t)(''rollup_1m'' := rollups t' ''rollup_1m'')\<rparr>"
    by (simp add: t')
qed

lemma sql_rollup_finer_cell:
  assumes "sql_rollup_finer src dst w from to t = Inr (u, t')"
  shows "cell (rollups t' dst) k = cell (rollups t dst) k + fine_into src w from to k t"
    and "t' = t\<lparr>rollups := (rollups t)(dst := rollups t' dst)\<rparr>"
proof -
  let ?rows = "filter (\<lambda>((h, dir, ts), c). from \<le> ts \<and> ts < to) (rollups t src)"
  let ?kcs = "map (\<lambda>kc. (coarse_key w (fst kc), snd kc)) (select_sums fst snd ?rows)"
  note t' = insert_sums_InrD(1) [OF assms [unfolded sql_rollup_finer_def]]
  have "map snd (filter (\<lambda>kc. fst kc = k) ?kcs) = map snd (filter (\<lambda>kc. coarse_key w (fst kc) = k) (select_sums fst snd ?rows))"
    by (simp add: filter_map comp_def)
  then have "sum_list (map snd (filter (\<lambda>kc. fst kc = k) ?kcs)) = sum_list (map snd (filter (\<lambda>x. coarse_key w (fst x) = k) ?rows))"
    using sum_select_sums [where P = "\<lambda>x. coarse_key w x = k" and key = fst and v = snd and xs = ?rows] by argo
  also have "\<dots> = fine_into src w from to k t"
    unfolding fine_into_def filter_filter
    by (rule arg_cong [where f = "\<lambda>xs. sum_list (map snd xs)"]) (auto simp: coarse_key_def intro: filter_cong)
  finally show "cell (rollups t' dst) k = cell (rollups t dst) k + fine_into src w from to k t"
    by (simp add: t' cell_fold_sum)
  show "t' = t\<lparr>rollups := (rollups t)(dst := rollups t' dst)\<rparr>"
    by (simp add: t')
qed

section \<open>Properties\<close>

lemma sum_filter_keys:
  assumes "\<And>x. x \<in> set xs \<Longrightarrow> P x = Q x"
  shows "sum_list (map v (filter P xs)) = sum_list (map v (filter Q xs))"
  using assms by (metis (mono_tags, lifting) filter_cong)

text \<open>Equal buckets and equal sums per bucket give equal series.\<close>

lemma series_cong:
  assumes "key ` set xs = key' ` set ys"
    and "\<And>b. b \<in> key ` set xs \<Longrightarrow>
      sum_list (map v (filter (\<lambda>x. key x = b) xs)) = sum_list (map v' (filter (\<lambda>y. key' y = b) ys))"
  shows "series key v xs = series key' v' ys"
proof -
  have "sort (remdups (map key xs)) = sort (remdups (map key' ys))"
    using assms(1) by (simp flip: sorted_list_of_set_sort_remdups)
  moreover have "set (sort (remdups (map key' ys))) = key ` set xs"
    using assms(1) by simp
  ultimately show ?thesis
    unfolding series_def by (intro map_cong) (auto simp: assms(2))
qed

lemma in_range_bucket:
  assumes "0 \<le> ts" and "0 < w" and "w dvd from" and "w dvd to"
  shows "from \<le> bucket w ts \<and> bucket w ts < to \<longleftrightarrow> from \<le> ts \<and> ts < to"
proof -
  obtain a b where ab: "from = a * w" "to = b * w"
    using assms(3,4) by (metis dvd_def mult.commute)
  have "bucket w ts = ts div w * w" using assms by (simp add: bucket_nonneg)
  then show ?thesis
    using ab assms(2) mult_le_iff_le_div [of w a ts] mult_le_iff_le_div [of w b ts] by auto
qed

text \<open>The rows of a freshly rolled-up range, seen through a predicate on their keys.\<close>

lemma rollup_rows:
  assumes roll: "sql_rollup_flows from to t = Inr (u, t')"
    and fresh: "\<forall>((h, dir, ts), c) \<in> set (rollups t ''rollup_1m''). \<not> (from \<le> ts \<and> ts < to)"
    and Q: "\<And>h dir ts. Q (h, dir, ts) \<Longrightarrow> from \<le> ts \<and> ts < to"
  defines "rows \<equiv> filter (\<lambda>f. from \<le> f_last f \<and> f_last f < to) (flows_recent t)"
  shows "sum_list (map snd (filter (\<lambda>x. Q (fst x)) (rollups t' ''rollup_1m'')))
         = sum_list (map flow_counters (filter (\<lambda>f. Q (flow_key f)) rows))"
    and "fst ` set (filter (\<lambda>x. Q (fst x)) (rollups t' ''rollup_1m'')) = flow_key ` set (filter (\<lambda>f. Q (flow_key f)) rows)"
proof -
  let ?kcs = "select_sums flow_key flow_counters rows"
  have new: "rollups t' ''rollup_1m'' = fold sum_on_conflict ?kcs (rollups t ''rollup_1m'')"
    using insert_sums_InrD(1) [OF roll [unfolded sql_rollup_flows_def]] by (simp add: rows_def)
  have no: "\<not> Q (fst x)" if "x \<in> set (rollups t ''rollup_1m'')" for x
    using fresh Q that by (cases x) fastforce
  then have old0: "filter (\<lambda>x. Q (fst x)) (rollups t ''rollup_1m'') = []"
    by (simp add: filter_empty_conv)
  show "sum_list (map snd (filter (\<lambda>x. Q (fst x)) (rollups t' ''rollup_1m'')))
      = sum_list (map flow_counters (filter (\<lambda>f. Q (flow_key f)) rows))"
    unfolding new sum_filter_fold_sum sum_select_sums old0 by simp
  have "fst ` set (filter (\<lambda>x. Q (fst x)) (rollups t' ''rollup_1m''))
      = {k \<in> fst ` set (rollups t ''rollup_1m'') \<union> flow_key ` set rows. Q k}"
    unfolding new keys_fold_sum [symmetric] keys_select_sums [symmetric, of flow_key _ flow_counters] by auto
  also have "\<dots> = flow_key ` set (filter (\<lambda>f. Q (flow_key f)) rows)"
    using no by auto
  finally show "fst ` set (filter (\<lambda>x. Q (fst x)) (rollups t' ''rollup_1m''))
      = flow_key ` set (filter (\<lambda>f. Q (flow_key f)) rows)" .
qed

text \<open>C27: after a successful 1m rollup of the minute-aligned range [from, to) into a
  part of \<open>rollup_1m\<close> that was still empty, the graph query on the rollup table returns
  exactly what the on-the-fly aggregation of \<open>flows_recent\<close> returns, for every host and
  direction filter.\<close>

theorem rollup_series_refines_flow_series:
  assumes roll: "RollupFromFlowsRecent from to d = (Inr (), d')"
    and al: "60 dvd from" "60 dvd to"
    and pos: "\<forall>f \<in> set (flows_recent (tbl d)). 0 \<le> f_last f"
    and fresh: "\<forall>((h, dir, ts), c) \<in> set (rollups (tbl d) ''rollup_1m''). \<not> (from \<le> ts \<and> ts < to)"
  shows "rollup_series ''rollup_1m'' hostID from (to - 1) direction (tbl d')
         = flow_series hostID from (to - 1) direction (tbl d)"
proof -
  let ?fl = "flows_recent (tbl d)"
  let ?new = "rollups (tbl d') ''rollup_1m''"
  let ?Q = "\<lambda>k :: rollup_key. fst k = hostID \<and> from \<le> snd (snd k) \<and> snd (snd k) < to \<and> directionClause direction (fst (snd k))"
  let ?R = "\<lambda>f. f_host f = hostID \<and> from \<le> f_last f \<and> f_last f < to \<and> directionClause direction (f_dir f)"
  let ?ts = "\<lambda>r :: rollup_key \<times> counters. snd (snd (fst r))"
  have Q: "from \<le> f_last f \<and> f_last f < to \<and> ?Q (flow_key f) \<longleftrightarrow> ?R f" if "f \<in> set ?fl" for f
    using that pos in_range_bucket [of "f_last f" 60 "from" to] al by (auto simp: flow_key_def)
  note rows = rollup_rows [OF exec_InrD [OF roll [unfolded RollupFromFlowsRecent_def]] fresh]
  have "rollup_series ''rollup_1m'' hostID from (to - 1) direction (tbl d') = series ?ts snd (filter (\<lambda>x. ?Q (fst x)) ?new)"
    unfolding rollup_series_def by (rule arg_cong [where f = "series _ _"]) (auto intro!: filter_cong)
  also have "\<dots> = series (\<lambda>f. bucket 60 (f_last f)) flow_counters (filter ?R ?fl)"
  proof (rule series_cong)
    have "?ts ` set (filter (\<lambda>x. ?Q (fst x)) ?new) = (\<lambda>k. snd (snd k)) ` fst ` set (filter (\<lambda>x. ?Q (fst x)) ?new)"
      by (simp add: image_image)
    also have "\<dots> = (\<lambda>f. bucket 60 (f_last f)) ` {f \<in> set ?fl. from \<le> f_last f \<and> f_last f < to \<and> ?Q (flow_key f)}"
      by (subst rows(2)) (auto simp: flow_key_def image_iff)
    also have "\<dots> = (\<lambda>f. bucket 60 (f_last f)) ` set (filter ?R ?fl)" using Q by auto
    finally show "?ts ` set (filter (\<lambda>x. ?Q (fst x)) ?new) = \<dots>" .
    fix b
    show "sum_list (map snd (filter (\<lambda>x. ?ts x = b) (filter (\<lambda>x. ?Q (fst x)) ?new)))
        = sum_list (map flow_counters (filter (\<lambda>f. bucket 60 (f_last f) = b) (filter ?R ?fl)))"
      unfolding filter_filter
      by (subst rows(1) [of "\<lambda>k. ?Q k \<and> snd (snd k) = b"], simp, unfold filter_filter, rule sum_filter_keys)
        (use Q in \<open>auto simp: flow_key_def\<close>)
  qed
  also have "\<dots> = flow_series hostID from (to - 1) direction (tbl d)"
    by (simp add: flow_series_def)
  finally show ?thesis .
qed

text \<open>A small database for the witnesses: one host with two flows in the second minute.\<close>

definition demo_tables :: tables where
  "demo_tables = empty_tables
     \<lparr>hosts := [\<lparr>h_id = 1, h_ip = ''10.0.0.1'', h_display = None, h_mac = None, h_first = 0, h_last = 90\<rparr>],
      host_seq := 2,
      flows_recent :=
        [\<lparr>f_host = 1, f_dir = 0, f_proto = 6, f_lip = ''10.0.0.1'', f_lport = 40000, f_rip = ''1.2.3.4'', f_rport = 443,
          f_first = 60, f_last = 65, f_sent = 100, f_recv = 0, f_psent = 2, f_precv = 0\<rparr>,
         \<lparr>f_host = 1, f_dir = 0, f_proto = 6, f_lip = ''10.0.0.1'', f_lport = 40001, f_rip = ''1.2.3.4'', f_rport = 443,
          f_first = 70, f_last = 90, f_sent = 50, f_recv = 0, f_psent = 1, f_precv = 0\<rparr>]\<rparr>"

lemma wf_demo_tables: "wf_tables demo_tables"
  by (simp add: demo_tables_def wf_defs host_ids_def empty_tables_def)

theorem rollup_series_refines_flow_series_witness:
  "let d = \<lparr>tbl = demo_tables, db_faults = []\<rparr>; d' = snd (RollupFromFlowsRecent 60 120 d) in
     rollup_series ''rollup_1m'' 1 60 119 (- 1) (tbl d') = flow_series 1 60 119 (- 1) demo_tables
     \<and> flow_series 1 60 119 (- 1) demo_tables = [\<lparr>sp_bucket = 60, sp_sent = 150, sp_recv = 0\<rparr>]"
proof -
  let ?d = "\<lparr>tbl = demo_tables, db_faults = []\<rparr>"
  have 1: "RollupFromFlowsRecent 60 120 ?d = (Inr (), snd (RollupFromFlowsRecent 60 120 ?d))"
    by (rule fst_eqD) code_simp
  have 2: "flow_series 1 60 119 (- 1) demo_tables = [\<lparr>sp_bucket = 60, sp_sent = 150, sp_recv = 0\<rparr>]"
    by code_simp
  show ?thesis
    using rollup_series_refines_flow_series [OF 1, of 1 "- 1"] 2
    by (simp add: Let_def demo_tables_def empty_tables_def)
qed

text \<open>A successful 1m rollup adds to every cell of \<open>rollup_1m\<close> exactly the bytes and
  packets of the flows of the range that belong to that host, direction and minute, nothing is
  lost or counted twice, and every other table and tier is untouched.\<close>

theorem RollupFromFlowsRecent_exact:
  assumes "RollupFromFlowsRecent from to d = (Inr (), d')"
  shows "cell (rollups (tbl d') ''rollup_1m'') k
         = cell (rollups (tbl d) ''rollup_1m'') k
           + sum_list (map flow_counters
               (filter (\<lambda>f. from \<le> f_last f \<and> f_last f < to \<and> flow_key f = k) (flows_recent (tbl d))))
         \<and> tbl d' = (tbl d)\<lparr>rollups := (rollups (tbl d))(''rollup_1m'' := rollups (tbl d') ''rollup_1m'')\<rparr>"
  using sql_rollup_flows_cell [OF exec_InrD [OF assms [unfolded RollupFromFlowsRecent_def]]]
  by (simp add: flows_into_def)

theorem RollupFromFlowsRecent_exact_witness:
  "let d = \<lparr>tbl = demo_tables, db_faults = []\<rparr>; d' = snd (RollupFromFlowsRecent 60 120 d) in
     cell (rollups (tbl d') ''rollup_1m'') (1, 0, 60) = Counters 150 0 3 0"
proof -
  let ?d = "\<lparr>tbl = demo_tables, db_faults = []\<rparr>"
  have 1: "RollupFromFlowsRecent 60 120 ?d = (Inr (), snd (RollupFromFlowsRecent 60 120 ?d))"
    by (rule fst_eqD) code_simp
  show ?thesis
    using RollupFromFlowsRecent_exact [OF 1, of "(1, 0, 60)"]
    by (simp add: Let_def demo_tables_def empty_tables_def cell_def flow_key_def bucket_nonneg flow_counters_def
        plus_counters_def zero_counters_def)
qed

text \<open>A successful rollup of a finer tier adds to every cell of the coarser tier exactly
  the sum of the finer cells of the range whose bucket lies in it, although the statement groups
  by the fine bucket and leaves the summing to its conflict clause; an unknown granularity is
  refused without touching the database.\<close>

theorem RollupFromFiner_exact:
  assumes "RollupFromFiner src dst w from to d = (r, d')"
  shows "(case (rollupTables src, rollupTables dst) of
            (Some s, Some g) \<Rightarrow>
              r = Inr () \<longrightarrow>
                cell (rollups (tbl d') g) k
                = cell (rollups (tbl d) g) k
                  + sum_list (map snd (filter (\<lambda>((h, dir, ts), c). from \<le> ts \<and> ts < to \<and> (h, dir, bucket w ts) = k)
                      (rollups (tbl d) s)))
                \<and> tbl d' = (tbl d)\<lparr>rollups := (rollups (tbl d))(g := rollups (tbl d') g)\<rparr>
          | _ \<Rightarrow> isl r \<and> d' = d)"
proof (cases "rollupTables src"; cases "rollupTables dst")
  fix s g
  assume s: "rollupTables src = Some s" and g: "rollupTables dst = Some g"
  have "cell (rollups (tbl d') g) k = cell (rollups (tbl d) g) k + fine_into s w from to k (tbl d)
      \<and> tbl d' = (tbl d)\<lparr>rollups := (rollups (tbl d))(g := rollups (tbl d') g)\<rparr>" if "r = Inr ()"
  proof -
    have "sql_rollup_finer s g w from to (tbl d) = Inr ((), tbl d')"
      using assms that s g by (simp add: RollupFromFiner_def exec_InrD)
    then show ?thesis using sql_rollup_finer_cell by blast
  qed
  then show ?thesis using s g by (simp add: fine_into_def)
qed (use assms in \<open>auto simp: RollupFromFiner_def\<close>)

theorem RollupFromFiner_exact_witness:
  "let d = \<lparr>tbl = demo_tables\<lparr>rollups := (\<lambda>_. [])(''rollup_1m'' :=
              [((1, 0, 60), Counters 150 0 3 0), ((1, 0, 120), Counters 7 0 1 0)])\<rparr>, db_faults = []\<rparr>;
       d' = snd (RollupFromFiner ''1m'' ''5m'' 300 0 300 d) in
     cell (rollups (tbl d') ''rollup_5m'') (1, 0, 0) = Counters 157 0 4 0"
proof -
  let ?d = "\<lparr>tbl = demo_tables\<lparr>rollups := (\<lambda>_. [])(''rollup_1m'' :=
              [((1, 0, 60), Counters 150 0 3 0), ((1, 0, 120), Counters 7 0 1 0)])\<rparr>, db_faults = []\<rparr>"
  have 1: "RollupFromFiner ''1m'' ''5m'' 300 0 300 ?d = (Inr (), snd (RollupFromFiner ''1m'' ''5m'' 300 0 300 ?d))"
    by (rule fst_eqD) code_simp
  show ?thesis
    using RollupFromFiner_exact [OF 1, of "(1, 0, 0)"]
    by (simp add: Let_def demo_tables_def cell_def rollupTables_def bucket_nonneg
        plus_counters_def zero_counters_def)
qed

end
