(* ===== verification/Web.thy ===== *)
theory Web
  imports Config Store_Rollup
begin

text \<open>
  Package \<open>web\<close>: the session and role middleware, the router and every handler of the pages and
  of the JSON API. A request carries its method, the segments of its cleaned path after the leading
  slash (a trailing slash is an empty last segment), its session cookie, its query parameters and the
  outcome of decoding its JSON body: \<^const>\<open>None\<close> when the decoder rejects it, otherwise the members
  it accepts, under the names of the struct's fields or of the map's keys. \<open>rq_clock i\<close> is the \<open>i\<close>-th
  reading of the clock while the request is served and \<open>rq_rand\<close> the random bytes it draws. A response is
  its status, its content before JSON or HTML rendering, and what it does to the session cookie.
\<close>

section \<open>Requests and responses\<close>

record request =
  rq_method :: string
  rq_path :: "string list"
  rq_cookie :: "string option"
  rq_query :: "string \<rightharpoonup> string"
  rq_body :: "(string \<times> string) list option"
  rq_clock :: "nat \<Rightarrow> gotime"
  rq_rand :: "byte list option"

definition query_get :: "request \<Rightarrow> string \<Rightarrow> string" where
  "query_get rq k = (case rq_query rq k of None \<Rightarrow> [] | Some v \<Rightarrow> v)"

text \<open>A field of a decoded struct: the last member with its name, empty when there is none.\<close>

definition field :: "(string \<times> string) list \<Rightarrow> string \<Rightarrow> string" where
  "field body k = (case map_of (rev body) k of None \<Rightarrow> [] | Some v \<Rightarrow> v)"

record pageVars =
  pv_crumb :: string
  pv_host_id :: int
  pv_host_ip :: string
  pv_host_name :: string
  pv_host_mac :: string
  pv_unacked :: nat
  pv_on_alerts :: bool
  pv_on_settings :: bool
  pv_admin :: bool

record hostSummary =
  hs_id :: int
  hs_ip :: string
  hs_name :: string
  hs_last :: int
  hs_spark :: "(int \<times> int \<times> int) list"

record userJSON =
  uj_id :: int
  uj_name :: string
  uj_role :: string
  uj_created :: int

record alertJSON =
  aj_id :: int
  aj_host :: int
  aj_host_ip :: string
  aj_kind :: string
  aj_severity :: string
  aj_summary :: string
  aj_detail :: string
  aj_detected :: int
  aj_ack :: bool

record columns =
  col_t :: "int list"
  col_sent :: "int list"
  col_recv :: "int list"

datatype content =
    ErrorCode string
  | StatusOK
  | Hosts "hostSummary list"
  | Series string columns
  | Flows "FlowDetail list"
  | SettingsMap "string \<rightharpoonup> string"
  | RestartRequired bool
  | Users "userJSON list"
  | CreatedUser int
  | Alerts "alertJSON list"
  | Acknowledged nat
  | Interfaces "string list"
  | Page string "pageVars option"
  | RedirectTo string
  | PlainText string
  | StaticFile

datatype cookie_change = KeepCookie | SetCookie string int | ClearCookie

record response =
  rs_status :: nat
  rs_content :: content
  rs_cookie :: cookie_change

definition writeJSON :: "nat \<Rightarrow> content \<Rightarrow> response" where
  "writeJSON status v = \<lparr>rs_status = status, rs_content = v, rs_cookie = KeepCookie\<rparr>"

definition writeJSONError :: "nat \<Rightarrow> string \<Rightarrow> response" where
  "writeJSONError status code = writeJSON status (ErrorCode code)"

abbreviation internal_error :: response where
  "internal_error \<equiv> writeJSONError 500 ''internal_error''"

definition redirect :: "string \<Rightarrow> response" where
  "redirect url = \<lparr>rs_status = 303, rs_content = RedirectTo url, rs_cookie = KeepCookie\<rparr>"

definition NotFound :: response where
  "NotFound = \<lparr>rs_status = 404, rs_content = PlainText ''404 page not found'', rs_cookie = KeepCookie\<rparr>"

definition renderTemplate :: "string \<Rightarrow> pageVars option \<Rightarrow> response" where
  "renderTemplate name v = \<lparr>rs_status = 200, rs_content = Page name v, rs_cookie = KeepCookie\<rparr>"

record web_env =
  we_idkey :: kdf
  we_ifaces :: "go_error + iface list"
  we_stat :: "string \<Rightarrow> bool"
  we_static :: "string list \<Rightarrow> nat"

type_synonym handler = "web_env \<Rightarrow> request \<Rightarrow> db \<Rightarrow> response \<times> db"
type_synonym session_handler = "Session \<Rightarrow> handler"

section \<open>middleware.go\<close>

definition denyUnauthenticated :: "bool \<Rightarrow> response" where
  "denyUnauthenticated isAPI = (if isAPI then writeJSONError 401 ''unauthenticated'' else redirect ''/login'')"

definition denyForbidden :: "bool \<Rightarrow> response" where
  "denyForbidden isAPI = (if isAPI then writeJSONError 403 ''admin_required'' else redirect ''/'')"

definition requireSession :: "bool \<Rightarrow> session_handler \<Rightarrow> handler" where
  "requireSession isAPI next env rq d =
     (case rq_cookie rq of
        None \<Rightarrow> (denyUnauthenticated isAPI, d)
      | Some token \<Rightarrow>
          (case Validate (rq_clock rq 0) token d of
             (Inl _, d1) \<Rightarrow> (denyUnauthenticated isAPI, d1)
           | (Inr sess, d1) \<Rightarrow> next sess env rq d1))"

definition requireElevated :: "session_handler \<Rightarrow> handler" where
  "requireElevated next = requireSession True (\<lambda>sess env rq d.
     if \<not> IsElevated (rq_clock rq 1) sess then (writeJSONError 403 ''reauth_required'', d) else next sess env rq d)"

definition requireAdmin :: "bool \<Rightarrow> session_handler \<Rightarrow> handler" where
  "requireAdmin isAPI next = requireSession isAPI (\<lambda>sess env rq d.
     if \<not> IsAdmin sess then (denyForbidden isAPI, d) else next sess env rq d)"

definition requireAdminElevated :: "session_handler \<Rightarrow> handler" where
  "requireAdminElevated next = requireAdmin True (\<lambda>sess env rq d.
     if \<not> IsElevated (rq_clock rq 1) sess then (writeJSONError 403 ''reauth_required'', d) else next sess env rq d)"

section \<open>handlers_pages.go\<close>

text \<open>\<open>parseIDParam\<close>: the wildcard \<open>{id}\<close> is the second segment of a page path and the third of an
  API path.\<close>

definition parse_id :: "string \<Rightarrow> int option" where
  "parse_id s = (case ParseInt64 s of None \<Rightarrow> None | Some i \<Rightarrow> if i \<le> 0 then None else Some i)"

definition parseIDParam :: "request \<Rightarrow> int option" where
  "parseIDParam rq = (let i = (if hd (rq_path rq) = ''api'' then 2 else 1) in parse_id (rq_path rq ! i))"

definition navVars :: "Session \<Rightarrow> db \<Rightarrow> pageVars \<times> db" where
  "navVars sess d =
     (case CountUnacknowledgedAlerts d of
        (r, d1) \<Rightarrow>
          (\<lparr>pv_crumb = [], pv_host_id = 0, pv_host_ip = [], pv_host_name = [], pv_host_mac = [],
            pv_unacked = (case r of Inl _ \<Rightarrow> 0 | Inr n \<Rightarrow> n), pv_on_alerts = False, pv_on_settings = False,
            pv_admin = IsAdmin sess\<rparr>, d1))"

definition page_login :: handler where
  "page_login env rq d = (renderTemplate ''login.html'' None, d)"

definition page_dashboard :: session_handler where
  "page_dashboard sess env rq d = (case navVars sess d of (v, d1) \<Rightarrow> (renderTemplate ''dashboard.html'' (Some v), d1))"

definition null_string :: "string option \<Rightarrow> string" where
  "null_string s = (case s of None \<Rightarrow> [] | Some x \<Rightarrow> x)"

definition page_hostDetail :: session_handler where
  "page_hostDetail sess env rq d =
     (case parseIDParam rq of
        None \<Rightarrow> (NotFound, d)
      | Some hostID \<Rightarrow>
          (case HostByID hostID d of
             (Inl e, d1) \<Rightarrow>
               (if e = ErrNotFound then NotFound
                else \<lparr>rs_status = 500, rs_content = PlainText ''internal error'', rs_cookie = KeepCookie\<rparr>, d1)
           | (Inr host, d1) \<Rightarrow>
               (case navVars sess d1 of
                  (v, d2) \<Rightarrow>
                    (let name = null_string (h_display host);
                         v1 = v\<lparr>pv_host_id := h_id host, pv_host_ip := h_ip host, pv_host_name := name,
                                pv_host_mac := null_string (h_mac host),
                                pv_crumb := (if name \<noteq> [] then name else h_ip host)\<rparr>
                     in (renderTemplate ''host_detail.html'' (Some v1), d2)))))"

definition page_alerts :: session_handler where
  "page_alerts sess env rq d =
     (case navVars sess d of
        (v, d1) \<Rightarrow> (renderTemplate ''alerts.html'' (Some (v\<lparr>pv_crumb := ''Alerts'', pv_on_alerts := True\<rparr>)), d1))"

definition page_settings :: session_handler where
  "page_settings sess env rq d =
     (case navVars sess d of
        (v, d1) \<Rightarrow> (renderTemplate ''settings.html'' (Some (v\<lparr>pv_crumb := ''Settings'', pv_on_settings := True\<rparr>)), d1))"

section \<open>handlers_api.go: login, logout, reauth\<close>

definition setSessionCookie :: "string \<Rightarrow> duration \<Rightarrow> gotime \<Rightarrow> response \<Rightarrow> response" where
  "setSessionCookie token ttl now r = r\<lparr>rs_cookie := SetCookie token (now + ttl)\<rparr>"

definition clearSessionCookie :: "response \<Rightarrow> response" where
  "clearSessionCookie r = r\<lparr>rs_cookie := ClearCookie\<rparr>"

definition api_login :: handler where
  "api_login env rq d =
     (case rq_body rq of
        None \<Rightarrow> (writeJSONError 400 ''invalid_request'', d)
      | Some body \<Rightarrow>
          (case Login (we_idkey env) (rq_rand rq) (rq_clock rq 0) (rq_clock rq 1) (field body ''username'') (field body ''password'') d of
             (Inl e, d1) \<Rightarrow>
               (if e = ErrInvalidCredentials \<or> e = ErrNotFound then writeJSONError 401 ''invalid_credentials''
                else internal_error, d1)
           | (Inr token, d1) \<Rightarrow> (setSessionCookie token SessionIdleTimeout (rq_clock rq 2) (writeJSON 200 StatusOK), d1)))"

definition api_logout :: handler where
  "api_logout env rq d =
     (case rq_cookie rq of
        None \<Rightarrow> (clearSessionCookie (writeJSON 200 StatusOK), d)
      | Some token \<Rightarrow> (case Logout token d of (_, d1) \<Rightarrow> (clearSessionCookie (writeJSON 200 StatusOK), d1)))"

definition api_reauth :: session_handler where
  "api_reauth sess env rq d =
     (case rq_body rq of
        None \<Rightarrow> (writeJSONError 400 ''invalid_request'', d)
      | Some body \<Rightarrow>
          (case Elevate (we_idkey env) (rq_clock rq 1) (rq_clock rq 2) (ss_token sess) (field body ''password'') d of
             (Inl e, d1) \<Rightarrow>
               (if e = ErrInvalidCredentials then writeJSONError 401 ''invalid_credentials'' else internal_error, d1)
           | (Inr _, d1) \<Rightarrow> (writeJSON 200 StatusOK, d1)))"

section \<open>handlers_api.go: hosts, series, flows\<close>

definition sparklineWindow :: duration where "sparklineWindow = 60 * Minute"

definition toSeriesJSON :: "SeriesPoint list \<Rightarrow> (int \<times> int \<times> int) list" where
  "toSeriesJSON ps = map (\<lambda>p. (sp_bucket p, sp_sent p, sp_recv p)) ps"

definition toColumnarSeries :: "SeriesPoint list \<Rightarrow> columns" where
  "toColumnarSeries ps = \<lparr>col_t = map sp_bucket ps, col_sent = map sp_sent ps, col_recv = map sp_recv ps\<rparr>"

fun summaries :: "int \<Rightarrow> int \<Rightarrow> Host list \<Rightarrow> hostSummary list dbm" where
  "summaries from now [] d = (Inr [], d)"
| "summaries from now (h # hs) d =
     (case SparklineSeries (h_id h) from now d of
        (Inl e, d1) \<Rightarrow> (Inl e, d1)
      | (Inr points, d1) \<Rightarrow>
          (case summaries from now hs d1 of
             (Inl e, d2) \<Rightarrow> (Inl e, d2)
           | (Inr out, d2) \<Rightarrow>
               (Inr (\<lparr>hs_id = h_id h, hs_ip = h_ip h, hs_name = null_string (h_display h), hs_last = h_last h,
                      hs_spark = toSeriesJSON points\<rparr> # out), d2)))"

definition api_listHosts :: session_handler where
  "api_listHosts sess env rq d =
     (case ListHosts d of
        (Inl _, d1) \<Rightarrow> (internal_error, d1)
      | (Inr hs, d1) \<Rightarrow>
          (let now = Unix (rq_clock rq 1)
           in case summaries (now - DurSeconds sparklineWindow) now hs d1 of
                (Inl _, d2) \<Rightarrow> (internal_error, d2)
              | (Inr out, d2) \<Rightarrow> (writeJSON 200 (Hosts out), d2)))"

definition rangeFlowsRecentMax :: int where "rangeFlowsRecentMax = 24 * (Hour div Second)"
definition range1mMax :: int where "range1mMax = 10 * 24 * (Hour div Second)"
definition range5mMax :: int where "range5mMax = 90 * 24 * (Hour div Second)"
definition range1hMax :: int where "range1hMax = 2 * 365 * 24 * (Hour div Second)"

definition parseRange :: "request \<Rightarrow> (int \<times> int) option" where
  "parseRange rq =
     (let fromStr = query_get rq ''from''; toStr = query_get rq ''to''
      in if fromStr = [] \<or> toStr = [] then None
         else (case (ParseInt64 fromStr, ParseInt64 toStr) of
                 (Some f, Some t) \<Rightarrow> if t \<le> f then None else Some (f, t)
               | _ \<Rightarrow> None))"

text \<open>The \<open>direction\<close> parameter: absent is \<open>-1\<close>, otherwise a number from 0 to 3.\<close>

definition parse_direction :: "request \<Rightarrow> int option" where
  "parse_direction rq =
     (let dStr = query_get rq ''direction''
      in if dStr = [] then Some (- 1)
         else (case Atoi dStr of None \<Rightarrow> None | Some v \<Rightarrow> if v < 0 \<or> v > 3 then None else Some v))"

text \<open>The differences are \<open>int64\<close> subtractions, which wrap.\<close>

definition pick_granularity :: "int \<Rightarrow> int \<Rightarrow> int \<Rightarrow> string" where
  "pick_granularity from to now =
     (let span = int64 (to - from)
      in if span \<le> rangeFlowsRecentMax \<and> int64 (now - rangeFlowsRecentMax) \<le> to then ''raw''
         else if span \<le> range1mMax then ''1m''
         else if span \<le> range5mMax then ''5m''
         else if span \<le> range1hMax then ''1h''
         else ''1d'')"

definition fetch_series :: "string \<Rightarrow> int \<Rightarrow> int \<Rightarrow> int \<Rightarrow> int \<Rightarrow> SeriesPoint list dbm" where
  "fetch_series granularity hostID from to direction =
     (if granularity = ''raw'' then HostSeriesFromFlowsRecent hostID from to direction
      else HostSeriesFromRollup granularity hostID from to direction)"

definition api_hostSeries :: session_handler where
  "api_hostSeries sess env rq d =
     (case parseIDParam rq of None \<Rightarrow> (writeJSONError 400 ''invalid_host_id'', d) | Some hostID \<Rightarrow>
      case parseRange rq of None \<Rightarrow> (writeJSONError 400 ''invalid_range'', d) | Some (from, to) \<Rightarrow>
      case parse_direction rq of None \<Rightarrow> (writeJSONError 400 ''invalid_direction'', d) | Some direction \<Rightarrow>
      let granularity = pick_granularity from to (Unix (rq_clock rq 1)) in
      case fetch_series granularity hostID from to direction d of
        (Inl _, d1) \<Rightarrow> (internal_error, d1)
      | (Inr points, d1) \<Rightarrow> (writeJSON 200 (Series granularity (toColumnarSeries points)), d1))"

definition parse_limit :: "request \<Rightarrow> int \<Rightarrow> int \<Rightarrow> nat" where
  "parse_limit rq def cap =
     (case Atoi (query_get rq ''limit'') of
        None \<Rightarrow> nat def
      | Some l \<Rightarrow> nat (if 0 < l \<and> l \<le> cap then l else def))"

definition api_hostFlows :: session_handler where
  "api_hostFlows sess env rq d =
     (case parseIDParam rq of None \<Rightarrow> (writeJSONError 400 ''invalid_host_id'', d) | Some hostID \<Rightarrow>
      case parseRange rq of None \<Rightarrow> (writeJSONError 400 ''invalid_range'', d) | Some (from, to) \<Rightarrow>
      if rangeFlowsRecentMax < int64 (Unix (rq_clock rq 1) - to) then (writeJSONError 400 ''range_too_old_for_flow_detail'', d)
      else case HostFlows hostID from to (parse_limit rq 500 5000) d of
             (Inl _, d1) \<Rightarrow> (internal_error, d1)
           | (Inr flows, d1) \<Rightarrow> (writeJSON 200 (Flows flows), d1))"

section \<open>handlers_api.go: settings\<close>

definition api_getSettings :: session_handler where
  "api_getSettings sess env rq d =
     (case AllSettings d of
        (Inl _, d1) \<Rightarrow> (internal_error, d1)
      | (Inr kv, d1) \<Rightarrow> (writeJSON 200 (SettingsMap (kv(KeySetupComplete := None))), d1))"

text \<open>Decoding into a map keeps the last value of a repeated key; the members arrive in the order in
  which Go iterates over that map, which the body's order stands for.\<close>

definition api_putSettings :: session_handler where
  "api_putSettings sess env rq d =
     (case rq_body rq of
        None \<Rightarrow> (writeJSONError 400 ''invalid_request'', d)
      | Some body \<Rightarrow>
          (let restart = (KeyCaptureInterface \<in> fst ` set body \<or> KeyLANSubnetCIDR \<in> fst ` set body)
           in case SetSettings body d of
                (Inl _, d1) \<Rightarrow> (internal_error, d1)
              | (Inr _, d1) \<Rightarrow> (writeJSON 200 (RestartRequired restart), d1)))"

section \<open>handlers_alerts.go\<close>

definition defaultAlertLimit :: int where "defaultAlertLimit = 200"

definition toAlertsJSON :: "Alert list \<Rightarrow> alertJSON list" where
  "toAlertsJSON as = map (\<lambda>a. \<lparr>aj_id = alr_id a, aj_host = al_host (alr_rec a), aj_host_ip = alr_host_ip a, aj_kind = al_kind (alr_rec a),
     aj_severity = al_severity (alr_rec a), aj_summary = al_summary (alr_rec a), aj_detail = al_detail (alr_rec a),
     aj_detected = al_detected (alr_rec a), aj_ack = alr_ack a\<rparr>) as"

definition api_listAlerts :: session_handler where
  "api_listAlerts sess env rq d =
     (case ListAlerts (parse_limit rq defaultAlertLimit 2000) (query_get rq ''unacked_only'' = ''1'') (query_get rq ''kind'') d of
        (Inl _, d1) \<Rightarrow> (internal_error, d1)
      | (Inr as, d1) \<Rightarrow> (writeJSON 200 (Alerts (toAlertsJSON as)), d1))"

definition api_hostAlerts :: session_handler where
  "api_hostAlerts sess env rq d =
     (case parseIDParam rq of
        None \<Rightarrow> (writeJSONError 400 ''invalid_host_id'', d)
      | Some hostID \<Rightarrow>
          (case ListAlertsForHost hostID (nat defaultAlertLimit) d of
             (Inl _, d1) \<Rightarrow> (internal_error, d1)
           | (Inr as, d1) \<Rightarrow> (writeJSON 200 (Alerts (toAlertsJSON as)), d1)))"

definition api_ackAlert :: session_handler where
  "api_ackAlert sess env rq d =
     (case parseIDParam rq of
        None \<Rightarrow> (writeJSONError 400 ''invalid_alert_id'', d)
      | Some i \<Rightarrow>
          (case AcknowledgeAlert i d of
             (Inl _, d1) \<Rightarrow> (internal_error, d1)
           | (Inr _, d1) \<Rightarrow> (writeJSON 200 StatusOK, d1)))"

definition api_ackAllAlerts :: session_handler where
  "api_ackAllAlerts sess env rq d =
     (case AcknowledgeAllAlerts (query_get rq ''kind'') d of
        (Inl _, d1) \<Rightarrow> (internal_error, d1)
      | (Inr n, d1) \<Rightarrow> (writeJSON 200 (Acknowledged n), d1))"

section \<open>handlers_users.go\<close>

definition toUserJSON :: "User \<Rightarrow> userJSON" where
  "toUserJSON u = \<lparr>uj_id = u_id u, uj_name = u_name u, uj_role = u_role u, uj_created = u_created u\<rparr>"

definition api_listUsers :: session_handler where
  "api_listUsers sess env rq d =
     (case ListUsers d of
        (Inl _, d1) \<Rightarrow> (internal_error, d1)
      | (Inr us, d1) \<Rightarrow> (writeJSON 200 (Users (map toUserJSON us)), d1))"

definition valid_role :: "string \<Rightarrow> bool" where
  "valid_role r \<longleftrightarrow> r = RoleAdmin \<or> r = RoleStandard"

definition api_createUser :: session_handler where
  "api_createUser sess env rq d =
     (case rq_body rq of None \<Rightarrow> (writeJSONError 400 ''invalid_request'', d) | Some body \<Rightarrow>
      let name = field body ''username''; password = field body ''password''; role = field body ''role'' in
      if name = [] then (writeJSONError 400 ''username_required'', d)
      else if length password < minPasswordLen then (writeJSONError 400 ''password_too_short'', d)
      else if \<not> valid_role role then (writeJSONError 400 ''invalid_role'', d)
      else case HashPassword (we_idkey env) (rq_rand rq) password of
             Inl _ \<Rightarrow> (internal_error, d)
           | Inr hash \<Rightarrow>
               (case CreateUser name hash role (Unix (rq_clock rq 2)) d of
                  (Inl _, d1) \<Rightarrow> (writeJSONError 409 ''username_taken'', d1)
                | (Inr i, d1) \<Rightarrow> (writeJSON 200 (CreatedUser i), d1)))"

text \<open>\<open>guardLastAdmin\<close> returns the response it has written, or \<^const>\<open>None\<close> to go on.\<close>

definition guardLastAdmin :: "db \<Rightarrow> response option \<times> db" where
  "guardLastAdmin d =
     (case CountAdmins d of
        (Inl _, d1) \<Rightarrow> (Some internal_error, d1)
      | (Inr n, d1) \<Rightarrow> (if n \<le> 1 then Some (writeJSONError 400 ''cannot_remove_last_admin'') else None, d1))"

text \<open>The two handlers that can remove an administrator, each as its checks (which may answer the
  request) and its act.\<close>

definition role_checks :: "Session \<Rightarrow> request \<Rightarrow> db \<Rightarrow> (response + int \<times> string) \<times> db" where
  "role_checks sess rq d =
     (case parseIDParam rq of None \<Rightarrow> (Inl (writeJSONError 400 ''invalid_user_id''), d) | Some i \<Rightarrow>
      case rq_body rq of None \<Rightarrow> (Inl (writeJSONError 400 ''invalid_request''), d) | Some body \<Rightarrow>
      let role = field body ''role'' in
      if \<not> valid_role role then (Inl (writeJSONError 400 ''invalid_role''), d)
      else if ss_user sess = i then (Inl (writeJSONError 400 ''cannot_change_own_role''), d)
      else case UserByID i d of
             (Inl _, d1) \<Rightarrow> (Inl (writeJSONError 404 ''not_found''), d1)
           | (Inr target, d1) \<Rightarrow>
               if u_role target = RoleAdmin \<and> role \<noteq> RoleAdmin then
                 (case guardLastAdmin d1 of (Some r, d2) \<Rightarrow> (Inl r, d2) | (None, d2) \<Rightarrow> (Inr (i, role), d2))
               else (Inr (i, role), d1))"

definition role_act :: "int \<times> string \<Rightarrow> db \<Rightarrow> response \<times> db" where
  "role_act = (\<lambda>(i, role) d.
     case UpdateUserRole i role d of (Inl _, d1) \<Rightarrow> (internal_error, d1) | (Inr _, d1) \<Rightarrow> (writeJSON 200 StatusOK, d1))"

definition api_updateUserRole :: session_handler where
  "api_updateUserRole sess env rq d =
     (case role_checks sess rq d of (Inl r, d1) \<Rightarrow> (r, d1) | (Inr x, d1) \<Rightarrow> role_act x d1)"

definition delete_checks :: "Session \<Rightarrow> request \<Rightarrow> db \<Rightarrow> (response + int) \<times> db" where
  "delete_checks sess rq d =
     (case parseIDParam rq of None \<Rightarrow> (Inl (writeJSONError 400 ''invalid_user_id''), d) | Some i \<Rightarrow>
      if ss_user sess = i then (Inl (writeJSONError 400 ''cannot_delete_own_account''), d)
      else case UserByID i d of
             (Inl _, d1) \<Rightarrow> (Inl (writeJSONError 404 ''not_found''), d1)
           | (Inr target, d1) \<Rightarrow>
               if u_role target = RoleAdmin then
                 (case guardLastAdmin d1 of (Some r, d2) \<Rightarrow> (Inl r, d2) | (None, d2) \<Rightarrow> (Inr i, d2))
               else (Inr i, d1))"

definition delete_act :: "int \<Rightarrow> db \<Rightarrow> response \<times> db" where
  "delete_act i d =
     (case DeleteUser i d of (Inl _, d1) \<Rightarrow> (internal_error, d1) | (Inr _, d1) \<Rightarrow> (writeJSON 200 StatusOK, d1))"

definition api_deleteUser :: session_handler where
  "api_deleteUser sess env rq d =
     (case delete_checks sess rq d of (Inl r, d1) \<Rightarrow> (r, d1) | (Inr i, d1) \<Rightarrow> delete_act i d1)"

definition api_listInterfaces :: session_handler where
  "api_listInterfaces sess env rq d =
     (case ListCaptureInterfaces (we_ifaces env) (we_stat env) of
        Inl _ \<Rightarrow> (internal_error, d)
      | Inr xs \<Rightarrow> (writeJSON 200 (Interfaces (map if_name xs)), d))"

section \<open>router.go\<close>

text \<open>A pattern of \<open>http.ServeMux\<close>: literal segments, the wildcard \<open>{id}\<close>, which a trailing slash does
  not match, the anchor \<open>{$}\<close>, and a trailing slash, which matches every path below it.\<close>

datatype segment = Lit string | Wild | Anchor | Below

fun match_path :: "segment list \<Rightarrow> string list \<Rightarrow> bool" where
  "match_path [] xs \<longleftrightarrow> xs = []"
| "match_path (Lit s # ps) xs \<longleftrightarrow> (case xs of [] \<Rightarrow> False | x # xs' \<Rightarrow> s = x \<and> match_path ps xs')"
| "match_path (Wild # ps) xs \<longleftrightarrow> (case xs of [] \<Rightarrow> False | x # xs' \<Rightarrow> x \<noteq> [] \<and> match_path ps xs')"
| "match_path (Anchor # ps) xs \<longleftrightarrow> xs = [[]] \<and> ps = []"
| "match_path (Below # ps) xs \<longleftrightarrow> xs \<noteq> [] \<and> ps = []"

text \<open>A pattern registered for \<open>GET\<close> serves \<open>HEAD\<close> requests as well.\<close>

definition match_method :: "string \<Rightarrow> string \<Rightarrow> bool" where
  "match_method m r \<longleftrightarrow> r = m \<or> (m = ''GET'' \<and> r = ''HEAD'')"

definition serve_static :: handler where
  "serve_static env rq d =
     (\<lparr>rs_status = we_static env (rq_path rq), rs_content = StaticFile, rs_cookie = KeepCookie\<rparr>, d)"

definition newRouter :: "(string \<times> segment list \<times> handler) list" where
  "newRouter =
    [(''GET'', [Lit ''static'', Below], serve_static),
     (''GET'', [Lit ''login''], page_login),
     (''GET'', [Anchor], requireSession False page_dashboard),
     (''GET'', [Lit ''hosts'', Wild], requireSession False page_hostDetail),
     (''GET'', [Lit ''alerts''], requireSession False page_alerts),
     (''GET'', [Lit ''settings''], requireAdmin False page_settings),
     (''POST'', [Lit ''api'', Lit ''login''], api_login),
     (''POST'', [Lit ''api'', Lit ''logout''], api_logout),
     (''POST'', [Lit ''api'', Lit ''reauth''], requireSession True api_reauth),
     (''GET'', [Lit ''api'', Lit ''hosts''], requireSession True api_listHosts),
     (''GET'', [Lit ''api'', Lit ''hosts'', Wild, Lit ''series''], requireSession True api_hostSeries),
     (''GET'', [Lit ''api'', Lit ''hosts'', Wild, Lit ''flows''], requireSession True api_hostFlows),
     (''GET'', [Lit ''api'', Lit ''hosts'', Wild, Lit ''alerts''], requireSession True api_hostAlerts),
     (''GET'', [Lit ''api'', Lit ''alerts''], requireSession True api_listAlerts),
     (''POST'', [Lit ''api'', Lit ''alerts'', Wild, Lit ''ack''], requireAdmin True api_ackAlert),
     (''POST'', [Lit ''api'', Lit ''alerts'', Lit ''ack-all''], requireAdmin True api_ackAllAlerts),
     (''GET'', [Lit ''api'', Lit ''settings''], requireAdmin True api_getSettings),
     (''PUT'', [Lit ''api'', Lit ''settings''], requireAdminElevated api_putSettings),
     (''GET'', [Lit ''api'', Lit ''interfaces''], requireAdmin True api_listInterfaces),
     (''GET'', [Lit ''api'', Lit ''users''], requireAdmin True api_listUsers),
     (''POST'', [Lit ''api'', Lit ''users''], requireAdminElevated api_createUser),
     (''PUT'', [Lit ''api'', Lit ''users'', Wild, Lit ''role''], requireAdminElevated api_updateUserRole),
     (''DELETE'', [Lit ''api'', Lit ''users'', Wild], requireAdminElevated api_deleteUser)]"

definition find_route :: "string \<Rightarrow> string list \<Rightarrow> handler option" where
  "find_route r path = map_option (snd \<circ> snd) (find (\<lambda>(m, p, h). match_method m r \<and> match_path p path) newRouter)"

text \<open>No route: a path that only lacks the slash of a registered directory is redirected to it, a
  path registered for other methods is refused with 405, any other path is not found.\<close>

definition no_route :: "string \<Rightarrow> string list \<Rightarrow> response" where
  "no_route r path =
     (if \<exists>(m, p, h) \<in> set newRouter. match_method m r \<and> p = map Lit path @ [Below]
      then \<lparr>rs_status = 301, rs_content = RedirectTo (concat (map (\<lambda>s. CHR ''/'' # s) path) @ ''/''), rs_cookie = KeepCookie\<rparr>
      else if \<exists>(m, p, h) \<in> set newRouter. match_path p path \<or> match_path p (path @ [[]])
      then \<lparr>rs_status = 405, rs_content = PlainText ''Method Not Allowed'', rs_cookie = KeepCookie\<rparr>
      else NotFound)"

definition ServeHTTP :: handler where
  "ServeHTTP env rq d =
     (case find_route (rq_method rq) (rq_path rq) of
        None \<Rightarrow> (no_route (rq_method rq) (rq_path rq), d)
      | Some h \<Rightarrow> h env rq d)"

lemma match_path_Lit_Below: "match_path (map Lit path @ [Below]) (path @ [[]])"
  by (induction path) auto

lemma find_route_mem: "find_route r path = Some h \<Longrightarrow> \<exists>m p. (m, p, h) \<in> set newRouter \<and> match_method m r \<and> match_path p path"
  by (auto simp: find_route_def dest!: find_SomeD)

end
