(* ===== verification/Web_Access.thy ===== *)
theory Web_Access
  imports Web
begin

text \<open>
  What a request can do, whoever sends it: the middleware's two outcomes, the entries of the routing
  table by the tables they may change, and the properties that follow for every request and every
  sequence of requests (access control, the last administrator, where sessions come from).
\<close>

section \<open>Handlers that only read\<close>

definition reads :: "session_handler \<Rightarrow> bool" where
  "reads h \<longleftrightarrow> (\<forall>sess env rq d. tbl (snd (h sess env rq d)) = tbl d)"

named_theorems web_reads

lemma navVars_tbl [simp]: "tbl (snd (navVars sess d)) = tbl d"
  by (auto simp: navVars_def CountUnacknowledgedAlerts_def split: prod.splits dest: query_tblD)

lemma navVars_tblD: "navVars sess d = (v, d') \<Longrightarrow> tbl d' = tbl d"
  using navVars_tbl [of sess d] by simp

lemma SparklineSeries_tblD: "SparklineSeries h f n d = (r, d') \<Longrightarrow> tbl d' = tbl d"
  by (auto simp: SparklineSeries_def dest: query_tblD)

lemma summaries_tblD: "summaries f n hs d = (r, d') \<Longrightarrow> tbl d' = tbl d"
  by (induction hs arbitrary: d r d') (auto split: prod.splits sum.splits dest!: SparklineSeries_tblD)

lemma fetch_series_tblD: "fetch_series g h f to dir d = (r, d') \<Longrightarrow> tbl d' = tbl d"
  by (auto simp: fetch_series_def HostSeriesFromFlowsRecent_def HostSeriesFromRollup_def split: if_splits option.splits dest: query_tblD)

lemma reads_page_dashboard [web_reads]: "reads page_dashboard"
  by (auto simp: reads_def page_dashboard_def split: prod.splits dest: navVars_tblD)

lemma reads_page_hostDetail [web_reads]: "reads page_hostDetail"
  by (auto simp: reads_def page_hostDetail_def HostByID_def Let_def split: prod.splits sum.splits option.splits
      dest!: navVars_tblD query_tblD)

lemma reads_page_alerts [web_reads]: "reads page_alerts"
  by (auto simp: reads_def page_alerts_def split: prod.splits dest: navVars_tblD)

lemma reads_page_settings [web_reads]: "reads page_settings"
  by (auto simp: reads_def page_settings_def split: prod.splits dest: navVars_tblD)

lemma reads_api_listHosts [web_reads]: "reads api_listHosts"
  by (auto simp: reads_def api_listHosts_def ListHosts_def Let_def split: prod.splits sum.splits
      dest!: query_tblD summaries_tblD)

lemma reads_api_hostSeries [web_reads]: "reads api_hostSeries"
  by (auto simp: reads_def api_hostSeries_def Let_def split: prod.splits sum.splits option.splits dest!: fetch_series_tblD)

lemma reads_api_hostFlows [web_reads]: "reads api_hostFlows"
  by (auto simp: reads_def api_hostFlows_def HostFlows_def Let_def split: prod.splits sum.splits option.splits dest!: query_tblD)

lemma reads_api_hostAlerts [web_reads]: "reads api_hostAlerts"
  by (auto simp: reads_def api_hostAlerts_def ListAlertsForHost_def split: prod.splits sum.splits option.splits dest!: query_tblD)

lemma reads_api_listAlerts [web_reads]: "reads api_listAlerts"
  by (auto simp: reads_def api_listAlerts_def ListAlerts_def split: prod.splits sum.splits dest!: query_tblD)

lemma reads_api_getSettings [web_reads]: "reads api_getSettings"
  by (auto simp: reads_def api_getSettings_def AllSettings_def split: prod.splits sum.splits dest!: query_tblD)

lemma reads_api_listUsers [web_reads]: "reads api_listUsers"
  by (auto simp: reads_def api_listUsers_def ListUsers_def split: prod.splits sum.splits dest!: query_tblD)

lemma reads_api_listInterfaces [web_reads]: "reads api_listInterfaces"
  by (auto simp: reads_def api_listInterfaces_def split: sum.splits)

lemma readsD: "reads h \<Longrightarrow> h sess env rq d = (r, d') \<Longrightarrow> tbl d' = tbl d"
  unfolding reads_def by (metis snd_conv)

section \<open>The middleware\<close>

text \<open>The session a request carries: the row of its cookie, when that row has not expired.\<close>

definition session_at :: "request \<Rightarrow> tables \<Rightarrow> Session option" where
  "session_at rq t =
     (case rq_cookie rq of
        None \<Rightarrow> None
      | Some k \<Rightarrow>
          (case session_of t k of
             None \<Rightarrow> None
           | Some s \<Rightarrow> if ss_expires s < Unix (rq_clock rq 0) then None else Some s))"

lemma requireSession_cases [consumes 1, case_names denied passed]:
  assumes "requireSession isAPI next env rq d = (r, d')"
  obtains (denied) "r = denyUnauthenticated isAPI" "tbl d' = tbl d"
  | (passed) sess d1 where "session_at rq (tbl d) = Some sess" "tbl d1 = tbl d" "next sess env rq d1 = (r, d')"
proof (cases "rq_cookie rq")
  case None
  then show ?thesis using assms denied by (simp add: requireSession_def)
next
  case (Some k)
  obtain v d1 where v: "Validate (rq_clock rq 0) k d = (v, d1)" by fastforce
  show ?thesis
  proof (cases v)
    case (Inl e)
    then show ?thesis using assms v Some denied Validate_tbl [OF v] by (simp add: requireSession_def)
  next
    case (Inr s)
    with Validate_session [of "rq_clock rq 0" k d s d1] v Some have "session_at rq (tbl d) = Some s"
      by (auto simp: session_at_def)
    then show ?thesis using assms v Some Inr passed Validate_tbl [OF v] by (simp add: requireSession_def)
  qed
qed

lemma requireAdmin_cases [consumes 1, case_names denied passed]:
  assumes "requireAdmin isAPI next env rq d = (r, d')"
  obtains (denied) "r = denyUnauthenticated isAPI \<or> r = denyForbidden isAPI" "tbl d' = tbl d"
  | (passed) sess d1 where "session_at rq (tbl d) = Some sess" "IsAdmin sess" "tbl d1 = tbl d" "next sess env rq d1 = (r, d')"
  using assms unfolding requireAdmin_def
  by (cases rule: requireSession_cases) (auto split: if_splits)

lemma requireAdminElevated_cases [consumes 1, case_names denied passed]:
  assumes "requireAdminElevated next env rq d = (r, d')"
  obtains (denied) "r \<in> {denyUnauthenticated True, denyForbidden True, writeJSONError 403 ''reauth_required''}" "tbl d' = tbl d"
  | (passed) sess d1 where "session_at rq (tbl d) = Some sess" "IsAdmin sess" "IsElevated (rq_clock rq 1) sess"
      "tbl d1 = tbl d" "next sess env rq d1 = (r, d')"
  using assms unfolding requireAdminElevated_def
  by (cases rule: requireAdmin_cases) (auto split: if_splits)

section \<open>What a request can do\<close>

definition guarded_writes :: "session_handler set" where
  "guarded_writes = {api_putSettings, api_createUser, api_updateUserRole, api_deleteUser}"

text \<open>The entries of the routing table by what they may change.\<close>

definition read_handlers :: "handler set" where
  "read_handlers = {h. \<forall>env rq d. tbl (snd (h env rq d)) = tbl d}"

lemma requireSession_reads: "reads h \<Longrightarrow> requireSession b h \<in> read_handlers"
proof -
  assume h: "reads h"
  have *: "tbl d' = tbl d" if "requireSession b h env rq d = (r, d')" for env rq d r d'
    using that by (cases rule: requireSession_cases) (use readsD [OF h] in auto)
  show ?thesis by (simp add: read_handlers_def * [OF prod.collapse [symmetric]])
qed

lemma requireAdmin_reads: "reads h \<Longrightarrow> requireAdmin b h \<in> read_handlers"
proof -
  assume h: "reads h"
  have *: "tbl d' = tbl d" if "requireAdmin b h env rq d = (r, d')" for env rq d r d'
    using that by (cases rule: requireAdmin_cases) (use readsD [OF h] in auto)
  show ?thesis by (simp add: read_handlers_def * [OF prod.collapse [symmetric]])
qed

lemma route_kinds:
  assumes "(m, p, h) \<in> set newRouter"
  shows "h \<in> read_handlers \<or> h = api_login \<or> h = api_logout \<or> h = requireSession True api_reauth
    \<or> h = requireAdmin True api_ackAlert \<or> h = requireAdmin True api_ackAllAlerts
    \<or> (\<exists>g \<in> guarded_writes. h = requireAdminElevated g)"
proof -
  have [simp]: "serve_static \<in> read_handlers" "page_login \<in> read_handlers"
    by (simp_all add: read_handlers_def serve_static_def page_login_def)
  have [simp]: "\<exists>g \<in> guarded_writes. requireAdminElevated f = requireAdminElevated g" if "f \<in> guarded_writes" for f
    using that by blast
  have [simp]: "api_putSettings \<in> guarded_writes" "api_createUser \<in> guarded_writes"
    "api_updateUserRole \<in> guarded_writes" "api_deleteUser \<in> guarded_writes"
    by (simp_all add: guarded_writes_def)
  show ?thesis
    using assms unfolding newRouter_def set_simps
    by (elim insertE emptyE; simp add: requireSession_reads requireAdmin_reads web_reads)
qed

lemma ServeHTTP_cases [consumes 1, case_names read login logout reauth ack guarded]:
  assumes "ServeHTTP env rq d = (r, d')"
  obtains (read) "tbl d' = tbl d"
  | (login) "api_login env rq d = (r, d')"
  | (logout) "api_logout env rq d = (r, d')"
  | (reauth) sess d1 where "session_at rq (tbl d) = Some sess" "tbl d1 = tbl d" "api_reauth sess env rq d1 = (r, d')"
  | (ack) sess d1 h where "session_at rq (tbl d) = Some sess" "IsAdmin sess" "tbl d1 = tbl d"
      "h = api_ackAlert \<or> h = api_ackAllAlerts" "h sess env rq d1 = (r, d')"
  | (guarded) sess d1 h where "session_at rq (tbl d) = Some sess" "IsAdmin sess" "IsElevated (rq_clock rq 1) sess"
      "tbl d1 = tbl d" "h \<in> guarded_writes" "h sess env rq d1 = (r, d')"
proof (cases "find_route (rq_method rq) (rq_path rq)")
  case None
  then show ?thesis using assms read by (simp add: ServeHTTP_def)
next
  case (Some h)
  then have eq: "h env rq d = (r, d')" using assms by (simp add: ServeHTTP_def)
  from find_route_mem [OF Some] obtain m p where "(m, p, h) \<in> set newRouter" by blast
  from route_kinds [OF this] consider "h \<in> read_handlers" | "h = api_login" | "h = api_logout" | "h = requireSession True api_reauth"
    | g where "h = requireAdmin True g" "g = api_ackAlert \<or> g = api_ackAllAlerts"
    | g where "g \<in> guarded_writes" "h = requireAdminElevated g" by blast
  then show ?thesis
  proof cases
    case 1
    then show ?thesis using read eq unfolding read_handlers_def by (metis (mono_tags, lifting) mem_Collect_eq snd_conv)
  next
    case 2
    then show ?thesis using login eq by simp
  next
    case 3
    then show ?thesis using logout eq by simp
  next
    case 4
    with eq have "requireSession True api_reauth env rq d = (r, d')" by simp
    then show ?thesis by (cases rule: requireSession_cases) (use read reauth in auto)
  next
    case (5 g)
    with eq have "requireAdmin True g env rq d = (r, d')" by simp
    then show ?thesis by (cases rule: requireAdmin_cases) (use read ack 5 in auto)
  next
    case (6 g)
    with eq have "requireAdminElevated g env rq d = (r, d')" by simp
    then show ?thesis by (cases rule: requireAdminElevated_cases) (use read guarded 6 in auto)
  qed
qed

section \<open>The access policy\<close>

text \<open>The policy the handlers implement, on the tables alone: what one request may do to them, and
  what it needs for that.\<close>

definition admin_session :: "request \<Rightarrow> tables \<Rightarrow> Session \<Rightarrow> bool" where
  "admin_session rq t sess \<longleftrightarrow> session_at rq t = Some sess \<and> IsAdmin sess"

definition elevated_admin :: "request \<Rightarrow> tables \<Rightarrow> Session \<Rightarrow> bool" where
  "elevated_admin rq t sess \<longleftrightarrow> admin_session rq t sess \<and> IsElevated (rq_clock rq 1) sess"

inductive web_effect :: "web_env \<Rightarrow> request \<Rightarrow> tables \<Rightarrow> tables \<Rightarrow> bool" for env rq where
  Unchanged: "web_effect env rq t t"
| LoggedIn: "web_effect env rq t
    (t\<lparr>sessions := sessions t @ [\<lparr>s_token = token, s_user = u_id u, s_created = Unix (rq_clock rq 0),
       s_expires = Unix (rq_clock rq 1 + SessionIdleTimeout), s_elevated = None\<rparr>]\<rparr>)"
  if "rq_body rq = Some body" "u \<in> set (users t)" "u_name u = field body ''username''"
    "VerifyPassword (we_idkey env) (field body ''password'') (u_hash u) = Inr True" "token \<notin> s_token ` set (sessions t)"
| LoggedOut: "web_effect env rq t (t\<lparr>sessions := filter (\<lambda>s. s_token s \<noteq> token) (sessions t)\<rparr>)"
  if "rq_cookie rq = Some token"
| Reauthenticated: "web_effect env rq t (sql_elevate_session (ss_token sess) (Unix (rq_clock rq 2 + ElevationDuration)) t)"
  if "rq_body rq = Some body" "session_at rq t = Some sess" "u \<in> set (users t)" "u_id u = ss_user sess"
    "VerifyPassword (we_idkey env) (field body ''password'') (u_hash u) = Inr True"
| Acknowledged: "web_effect env rq t (t\<lparr>alerts := map (\<lambda>a. if P a then a\<lparr>ar_ack := True\<rparr> else a) (alerts t)\<rparr>)"
  if "admin_session rq t sess"
| SettingsPut: "web_effect env rq t (fold sql_set_setting body t)"
  if "elevated_admin rq t sess" "rq_body rq = Some body"
| UserCreated: "web_effect env rq t
    (t\<lparr>users := users t @ [\<lparr>u_id = user_seq t, u_name = name, u_hash = hash, u_role = role, u_created = c\<rparr>], user_seq := user_seq t + 1\<rparr>)"
  if "elevated_admin rq t sess" "name \<notin> u_name ` set (users t)" "name \<noteq> []" "valid_role role"
| RoleChanged: "web_effect env rq t (sql_update_role (u_id u) role t)"
  if "elevated_admin rq t sess" "u \<in> set (users t)" "u_id u \<noteq> ss_user sess" "valid_role role"
    "u_role u = RoleAdmin \<Longrightarrow> role \<noteq> RoleAdmin \<Longrightarrow> 1 < count_admins t"
| UserDeleted: "web_effect env rq t (sql_delete_user (u_id u) t)"
  if "elevated_admin rq t sess" "u \<in> set (users t)" "u_id u \<noteq> ss_user sess"
    "u_role u = RoleAdmin \<Longrightarrow> 1 < count_admins t"

section \<open>Every handler keeps to the policy\<close>

lemma login_effect: "api_login env rq d = (r, d') \<Longrightarrow> web_effect env rq (tbl d) (tbl d')"
proof (cases "rq_body rq")
  case None
  then show "api_login env rq d = (r, d') \<Longrightarrow> ?thesis" by (auto simp: api_login_def intro: Unchanged)
next
  case (Some body)
  obtain x d1 where l: "Login (we_idkey env) (rq_rand rq) (rq_clock rq 0) (rq_clock rq 1) (field body ''username'') (field body ''password'') d = (x, d1)"
    by fastforce
  assume "api_login env rq d = (r, d')"
  then have d1: "d' = d1" using Some l by (auto simp: api_login_def split: sum.splits)
  show ?thesis using l
  proof (cases rule: Login_cases)
    case (fail e)
    then show ?thesis using d1 by (simp add: Unchanged)
  next
    case (success u b token)
    then show ?thesis using d1 LoggedIn [OF Some success(1,2,3,7)] by simp
  qed
qed

lemma logout_effect:
  assumes "api_logout env rq d = (r, d')"
  shows "web_effect env rq (tbl d) (tbl d')"
proof (cases "rq_cookie rq")
  case None
  then show ?thesis using assms by (auto simp: api_logout_def intro: Unchanged)
next
  case (Some token)
  obtain x d1 where l: "Logout token d = (x, d1)" by fastforce
  then have "d' = d1" using assms Some by (simp add: api_logout_def)
  with Logout_result [OF l] LoggedOut [OF Some] show ?thesis by (metis Unchanged)
qed

lemma session_at_token: "session_at rq t = Some sess \<Longrightarrow> session_of t (ss_token sess) = Some sess"
  using session_of_row by (auto simp: session_at_def split: option.splits if_splits) (metis option.inject)

lemma reauth_effect:
  assumes "session_at rq (tbl d) = Some sess" and "api_reauth sess env rq d = (r, d')"
  shows "web_effect env rq (tbl d) (tbl d')"
proof (cases "rq_body rq")
  case None
  then show ?thesis using assms by (auto simp: api_reauth_def intro: Unchanged)
next
  case (Some body)
  obtain x d1 where e: "Elevate (we_idkey env) (rq_clock rq 1) (rq_clock rq 2) (ss_token sess) (field body ''password'') d = (x, d1)"
    by fastforce
  have d1: "d' = d1" using assms(2) Some e by (auto simp: api_reauth_def split: sum.splits)
  show ?thesis using e
  proof (cases rule: Elevate_cases)
    case (fail e)
    then show ?thesis using d1 by (simp add: Unchanged)
  next
    case (success s u)
    then have "s = sess" using session_at_token [OF assms(1)] by simp
    then show ?thesis using success d1 Reauthenticated [OF Some assms(1)] by simp
  qed
qed

lemma exec_effect:
  assumes "exec f d = (r, d')" and "\<And>a t. f (tbl d) = Inr (a, t) \<Longrightarrow> web_effect env rq (tbl d) t"
  shows "web_effect env rq (tbl d) (tbl d')"
  by (cases rule: exec_cases [of f d]) (use assms in \<open>auto intro: Unchanged\<close>)

lemma ack_effect:
  assumes "admin_session rq (tbl d) sess" and "h = api_ackAlert \<or> h = api_ackAllAlerts" and "h sess env rq d = (r, d')"
  shows "web_effect env rq (tbl d) (tbl d')"
proof -
  have a: "web_effect env rq (tbl d) (tbl d')" if "AcknowledgeAlert i d = (x, d')" for i x
    by (rule exec_effect [OF that [unfolded AcknowledgeAlert_def]]) (use Acknowledged [OF assms(1)] in auto)
  have b: "web_effect env rq (tbl d) (tbl d')" if "AcknowledgeAllAlerts k d = (x, d')" for k x
    by (rule exec_effect [OF that [unfolded AcknowledgeAllAlerts_def]]) (use Acknowledged [OF assms(1)] in auto)
  show ?thesis
    using assms(2,3) Unchanged
    by (auto simp: api_ackAlert_def api_ackAllAlerts_def split: option.splits prod.splits sum.splits intro: a b)
qed

lemma putSettings_effect:
  assumes "elevated_admin rq (tbl d) sess" and "api_putSettings sess env rq d = (r, d')"
  shows "web_effect env rq (tbl d) (tbl d')"
proof (cases "rq_body rq")
  case None
  then show ?thesis using assms by (auto simp: api_putSettings_def intro: Unchanged)
next
  case (Some body)
  obtain x d1 where s: "SetSettings body d = (x, d1)" by fastforce
  have d1: "d' = d1" using assms(2) Some s by (auto simp: api_putSettings_def Let_def split: sum.splits)
  show ?thesis
  proof (cases rule: run_tx_cases [of "(\<lambda>t. Inr t) # map (\<lambda>p t. Inr (sql_set_setting p t)) body" d])
    case (fail e)
    then show ?thesis using s d1 Unchanged by (simp add: SetSettings_def)
  next
    case (success t)
    then have "tbl d' = fold sql_set_setting body (tbl d)"
      using s d1 by (simp add: SetSettings_def tx_fold_set_settings)
    then show ?thesis using SettingsPut [OF assms(1) Some] by simp
  qed
qed

lemma createUser_effect:
  assumes "elevated_admin rq (tbl d) sess" and "api_createUser sess env rq d = (r, d')"
  shows "web_effect env rq (tbl d) (tbl d')"
proof (cases "tbl d' = tbl d")
  case True
  then show ?thesis by (simp add: Unchanged)
next
  case False
  then obtain body where b: "rq_body rq = Some body"
    using assms(2) by (cases "rq_body rq") (auto simp: api_createUser_def)
  define name role where "name = field body ''username''" and "role = field body ''role''"
  have g: "name \<noteq> []" "valid_role role"
    using assms(2) False b by (auto simp: api_createUser_def Let_def name_def role_def split: if_splits)
  obtain hash where h: "HashPassword (we_idkey env) (rq_rand rq) (field body ''password'') = Inr hash"
    using assms(2) False b
    by (cases "HashPassword (we_idkey env) (rq_rand rq) (field body ''password'')") (auto simp: api_createUser_def Let_def split: if_splits)
  obtain x d1 where c: "CreateUser name hash role (Unix (rq_clock rq 2)) d = (x, d1)" by fastforce
  have d1: "d' = d1"
    using assms(2) False b h c by (auto simp: api_createUser_def Let_def name_def role_def split: if_splits sum.splits)
  show ?thesis using c
  proof (cases rule: CreateUser_cases)
    case (fail e)
    then show ?thesis using d1 Unchanged by simp
  next
    case success
    then show ?thesis using d1 UserCreated [OF assms(1) success(1) g] by simp
  qed
qed

lemma UserByID_result:
  "UserByID i d = (r, d') \<Longrightarrow> tbl d' = tbl d \<and> (\<forall>u. r = Inr u \<longrightarrow> u \<in> set (users (tbl d)) \<and> u_id u = i)"
  unfolding UserByID_def using find_user_tbl find_user_result by blast

lemma guardLastAdmin_result:
  assumes "guardLastAdmin d = (r, d')"
  shows "tbl d' = tbl d \<and> (r = None \<longrightarrow> 1 < count_admins (tbl d))"
proof -
  obtain x d1 where c: "CountAdmins d = (x, d1)" by fastforce
  have t: "tbl d1 = tbl d" using c unfolding CountAdmins_def by (rule query_tblD)
  have n: "n = count_admins (tbl d)" if "x = Inr n" for n
    using c that unfolding CountAdmins_def by (auto dest: query_InrD)
  show ?thesis using assms c t n by (cases x) (auto simp: guardLastAdmin_def split: if_splits)
qed

text \<open>What the checks of the two handlers establish when they let the act go ahead.\<close>

lemma delete_checks_result:
  assumes "delete_checks sess rq d = (r, d')"
  shows "tbl d' = tbl d"
    and "r = Inr i \<Longrightarrow> \<exists>u \<in> set (users (tbl d)). u_id u = i \<and> i \<noteq> ss_user sess \<and> (u_role u = RoleAdmin \<longrightarrow> 1 < count_admins (tbl d))"
  using assms
  by (auto simp: delete_checks_def split: option.splits prod.splits sum.splits if_splits
      dest!: guardLastAdmin_result UserByID_result)

lemma role_checks_result:
  assumes "role_checks sess rq d = (r, d')"
  shows "tbl d' = tbl d"
    and "r = Inr (i, role) \<Longrightarrow> \<exists>u \<in> set (users (tbl d)). u_id u = i \<and> i \<noteq> ss_user sess \<and> valid_role role
      \<and> (u_role u = RoleAdmin \<longrightarrow> role \<noteq> RoleAdmin \<longrightarrow> 1 < count_admins (tbl d))"
  using assms
  by (auto simp: role_checks_def Let_def split: option.splits prod.splits sum.splits if_splits
      dest!: guardLastAdmin_result UserByID_result)

lemma deleteUser_effect:
  assumes "elevated_admin rq (tbl d) sess" and "api_deleteUser sess env rq d = (r, d')"
  shows "web_effect env rq (tbl d) (tbl d')"
proof -
  obtain x d1 where c: "delete_checks sess rq d = (x, d1)" by fastforce
  have t: "tbl d1 = tbl d" using delete_checks_result(1) [OF c] .
  show ?thesis
  proof (cases x)
    case (Inl e)
    then show ?thesis using assms(2) c t Unchanged by (simp add: api_deleteUser_def)
  next
    case (Inr i)
    from delete_checks_result(2) [OF c Inr] obtain u where u: "u \<in> set (users (tbl d))" "u_id u = i" "i \<noteq> ss_user sess"
      "u_role u = RoleAdmin \<longrightarrow> 1 < count_admins (tbl d)" by blast
    obtain y where y: "DeleteUser i d1 = (y, d')"
      using assms(2) c Inr by (auto simp: api_deleteUser_def delete_act_def split: prod.splits sum.splits)
    show ?thesis
      by (rule exec_effect [OF y [unfolded DeleteUser_def], unfolded t])
        (use UserDeleted [OF assms(1) u(1)] u in auto)
  qed
qed

lemma updateUserRole_effect:
  assumes "elevated_admin rq (tbl d) sess" and "api_updateUserRole sess env rq d = (r, d')"
  shows "web_effect env rq (tbl d) (tbl d')"
proof -
  obtain x d1 where c: "role_checks sess rq d = (x, d1)" by fastforce
  have t: "tbl d1 = tbl d" using role_checks_result(1) [OF c] .
  show ?thesis
  proof (cases x)
    case (Inl e)
    then show ?thesis using assms(2) c t Unchanged by (simp add: api_updateUserRole_def)
  next
    case (Inr p)
    obtain i role where p: "p = (i, role)" by fastforce
    from role_checks_result(2) [OF c, of i role] Inr p obtain u where u: "u \<in> set (users (tbl d))" "u_id u = i"
      "i \<noteq> ss_user sess" "valid_role role" "u_role u = RoleAdmin \<longrightarrow> role \<noteq> RoleAdmin \<longrightarrow> 1 < count_admins (tbl d)" by blast
    obtain y where y: "UpdateUserRole i role d1 = (y, d')"
      using assms(2) c Inr p by (auto simp: api_updateUserRole_def role_act_def split: prod.splits sum.splits)
    show ?thesis
      by (rule exec_effect [OF y [unfolded UpdateUserRole_def], unfolded t])
        (use RoleChanged [OF assms(1) u(1)] u in auto)
  qed
qed

lemma ServeHTTP_effect:
  assumes "ServeHTTP env rq d = (r, d')"
  shows "web_effect env rq (tbl d) (tbl d')"
  using assms
proof (cases rule: ServeHTTP_cases)
  case read
  then show ?thesis by (simp add: Unchanged)
next
  case login
  then show ?thesis by (rule login_effect)
next
  case logout
  then show ?thesis by (rule logout_effect)
next
  case (reauth sess d1)
  then show ?thesis using reauth_effect [of rq d1 sess env r d'] by simp
next
  case (ack sess d1 h)
  then show ?thesis using ack_effect [of rq d1 sess h env r d'] by (simp add: admin_session_def)
next
  case (guarded sess d1 h)
  then have e: "elevated_admin rq (tbl d1) sess" by (simp add: elevated_admin_def admin_session_def)
  have "web_effect env rq (tbl d1) (tbl d')"
    using guarded(5,6) putSettings_effect [OF e] createUser_effect [OF e] updateUserRole_effect [OF e] deleteUser_effect [OF e]
    unfolding guarded_writes_def by blast
  then show ?thesis using guarded(4) by simp
qed

section \<open>Invariants of the policy\<close>

inductive_cases web_effectE [consumes 1, case_names unchanged logged_in logged_out reauthenticated acknowledged settings_put
  user_created role_changed user_deleted]: "web_effect env rq t t'"

lemma fold_set_setting_frame:
  "fold sql_set_setting kv t = t\<lparr>settings := settings (fold sql_set_setting kv t)\<rparr>"
proof (induction kv arbitrary: t)
  case (Cons a kv)
  show ?case using Cons.IH [of "sql_set_setting a t"] by (simp add: sql_set_setting_def)
qed simp

lemma wf_fold_set_setting: "wf_tables t \<Longrightarrow> wf_tables (fold sql_set_setting kv t)"
  by (induction kv arbitrary: t) (simp_all add: wf_intros)

lemma web_effect_wf: "web_effect env rq t t' \<Longrightarrow> wf_tables t \<Longrightarrow> wf_tables t'"
proof (induction rule: web_effect.induct)
  case (LoggedIn body u t token)
  then show ?case by (auto simp: wf_defs)
next
  case (UserCreated t sess name role hash c)
  then show ?case using wf_sql_create_user [of name hash role c] by (auto simp: stmt_keeps_def sql_create_user_def)
qed (auto intro: wf_intros wf_fold_set_setting)

lemma count_admins_filter:
  assumes "distinct (map u_id (users t))" and "u \<in> set (users t)"
  shows "length (filter (\<lambda>v. u_role v = RoleAdmin) (users t)) =
    length (filter (\<lambda>v. u_role v = RoleAdmin \<and> u_id v \<noteq> u_id u) (users t)) + (if u_role u = RoleAdmin then 1 else 0)"
proof -
  have "length (filter P us) = length (filter (\<lambda>v. P v \<and> u_id v \<noteq> u_id u) us) + (if P u then 1 else 0)"
    if "distinct (map u_id us)" "u \<in> set us" for P us
    using that
  proof (induction us)
    case (Cons v us)
    show ?case
    proof (cases "u \<in> set us")
      case True
      then have "u_id v \<noteq> u_id u" using Cons.prems by (auto simp: image_iff)
      then show ?thesis using Cons True by auto
    next
      case False
      then have v: "v = u" "u_id u \<notin> u_id ` set us" using Cons.prems by auto
      have "filter (\<lambda>v. P v \<and> u_id v \<noteq> u_id u) us = filter P us"
        using v(2) by (intro filter_cong) (auto simp: image_iff)
      then show ?thesis using v(1) by simp
    qed
  qed simp
  then show ?thesis using assms by blast
qed

lemma count_admins_delete:
  assumes "wf_tables t" and "u \<in> set (users t)"
  shows "count_admins t = count_admins (sql_delete_user (u_id u) t) + (if u_role u = RoleAdmin then 1 else 0)"
  using count_admins_filter [OF _ assms(2)] assms(1) by (simp add: count_admins_def sql_delete_user_def wf_defs conj_commute)

lemma count_admins_role:
  assumes "wf_tables t" and "u \<in> set (users t)"
  shows "count_admins (sql_update_role (u_id u) role t) + (if u_role u = RoleAdmin then 1 else 0)
    = count_admins t + (if role = RoleAdmin then 1 else 0)"
proof -
  let ?f = "\<lambda>v. if u_id v = u_id u then v\<lparr>u_role := role\<rparr> else v"
  have d: "distinct (map u_id (users t))" using assms(1) by (simp add: wf_defs)
  have d': "distinct (map u_id (users (sql_update_role (u_id u) role t)))"
    using wf_sql_update_role [OF assms(1)] by (simp add: wf_defs)
  have m: "?f u \<in> set (users (sql_update_role (u_id u) role t))" using assms(2) by (auto simp: sql_update_role_def)
  have "length (filter ((\<lambda>v. u_role v = RoleAdmin \<and> u_id v \<noteq> u_id u) \<circ> ?f) us) = length (filter (\<lambda>v. u_role v = RoleAdmin \<and> u_id v \<noteq> u_id u) us)" for us
    by (induction us) auto
  then show ?thesis
    using count_admins_filter [OF d assms(2)] count_admins_filter [OF d' m] by (simp add: count_admins_def sql_update_role_def)
qed

lemma web_effect_admins: "web_effect env rq t t' \<Longrightarrow> wf_tables t \<Longrightarrow> 1 \<le> count_admins t \<Longrightarrow> 1 \<le> count_admins t'"
proof (induction rule: web_effect.induct)
  case (SettingsPut t sess body)
  then show ?case by (subst fold_set_setting_frame) (simp add: count_admins_def)
next
  case (RoleChanged t sess u role)
  then show ?case using count_admins_role [of t u role] by (auto split: if_splits)
next
  case (UserDeleted t sess u)
  then show ?case using count_admins_delete [of t u] by (auto split: if_splits)
qed (simp_all add: count_admins_def sql_elevate_session_def)

section \<open>Sequences of requests\<close>

fun serve_all :: "web_env \<Rightarrow> request list \<Rightarrow> db \<Rightarrow> response list \<times> db" where
  "serve_all env [] d = ([], d)"
| "serve_all env (rq # rqs) d =
     (case ServeHTTP env rq d of (r, d1) \<Rightarrow> (case serve_all env rqs d1 of (rs, d2) \<Rightarrow> (r # rs, d2)))"

lemma serve_all_keeps:
  assumes "\<And>rq t t'. rq \<in> set rqs \<Longrightarrow> web_effect env rq t t' \<Longrightarrow> P t \<Longrightarrow> P t'" and "P (tbl d)"
  shows "P (tbl (snd (serve_all env rqs d)))"
  using assms
proof (induction rqs arbitrary: d)
  case (Cons rq rqs)
  obtain r d1 where s: "ServeHTTP env rq d = (r, d1)" by fastforce
  have "P (tbl d1)" using Cons.prems ServeHTTP_effect [OF s] by auto
  then have "P (tbl (snd (serve_all env rqs d1)))" using Cons.prems(1) by (intro Cons.IH) auto
  then show ?case using s by (auto split: prod.splits)
qed simp

text \<open>C11: the web interface keeps the database usable. Whatever requests arrive, one after the other,
  from whomever, with whatever driver failures: the tables stay well-formed (unique ids, names and tokens,
  every session with its user) and an administrator account remains, so the settings and the user
  management stay reachable.\<close>

theorem last_admin_remains:
  assumes "wf_tables (tbl d)" and "1 \<le> count_admins (tbl d)"
  shows "wf_tables (tbl (snd (serve_all env rqs d))) \<and> 1 \<le> count_admins (tbl (snd (serve_all env rqs d)))"
  by (rule serve_all_keeps [where P = "\<lambda>t. wf_tables t \<and> 1 \<le> count_admins t"])
    (use assms web_effect_wf web_effect_admins in blast)+

text \<open>A database with two administrators and an elevated session of each, for the examples below.\<close>

definition demo_env :: web_env where
  "demo_env = \<lparr>we_idkey = demo_kdf, we_ifaces = Inr [], we_stat = (\<lambda>_. True), we_static = (\<lambda>_. 200)\<rparr>"

definition demo_second :: User where
  "demo_second = demo_admin\<lparr>u_id := 2, u_name := ''eve''\<rparr>"

definition demo_row :: "string \<Rightarrow> int \<Rightarrow> session_row" where
  "demo_row token i = \<lparr>s_token = token, s_user = i, s_created = 0, s_expires = 86400, s_elevated = Some 900\<rparr>"

definition web_demo :: db where
  "web_demo = auth_demo\<lparr>tbl := (tbl auth_demo)\<lparr>users := [demo_admin, demo_second], user_seq := 3,
     sessions := [demo_row ''k1'' 1, demo_row ''k2'' 2]\<rparr>\<rparr>"

definition demo_request :: "string \<Rightarrow> string list \<Rightarrow> string \<Rightarrow> (string \<times> string) list \<Rightarrow> request" where
  "demo_request m p k body = \<lparr>rq_method = m, rq_path = p, rq_cookie = Some k, rq_query = (\<lambda>_. None), rq_body = Some body,
     rq_clock = (\<lambda>_. 0), rq_rand = Some (replicate 32 0)\<rparr>"

lemma web_demo_ok: "wf_tables (tbl web_demo)" "db_faults web_demo = []" "count_admins (tbl web_demo) = 2"
  "demo_admin \<in> set (users (tbl web_demo))" "demo_second \<in> set (users (tbl web_demo))"
  "u_id demo_admin = 1" "u_id demo_second = 2" "u_role demo_admin = RoleAdmin" "u_role demo_second = RoleAdmin"
  by (simp_all add: web_demo_def auth_demo_def demo_second_def demo_admin_def demo_row_def wf_defs empty_tables_def count_admins_def)

theorem last_admin_remains_witness:
  "let t = tbl (snd (serve_all demo_env
     [demo_request ''DELETE'' [''api'', ''users'', ''2''] ''k1'' [], demo_request ''DELETE'' [''api'', ''users'', ''1''] ''k2'' []] web_demo))
   in wf_tables t \<and> 1 \<le> count_admins t"
  unfolding Let_def by (rule last_admin_remains) (simp_all add: web_demo_ok)

section \<open>Concurrent requests\<close>

text \<open>C40: the check and the act of a deletion are separate statements, and requests are served
  concurrently. With two administrators who delete each other, both checks may run before either
  act: both pass, both requests are answered with 200, and no administrator is left, which is what
  \<open>guardLastAdmin\<close> is there to prevent.\<close>

theorem concurrent_deletes_leave_no_admin:
  assumes "wf_tables (tbl d)" and "db_faults d = []" and "count_admins (tbl d) = 2"
    and "a \<in> set (users (tbl d))" "b \<in> set (users (tbl d))" "u_id a \<noteq> u_id b" "u_role a = RoleAdmin" "u_role b = RoleAdmin"
    and "ss_user sessA = u_id a" "parseIDParam rqA = Some (u_id b)"
    and "ss_user sessB = u_id b" "parseIDParam rqB = Some (u_id a)"
  shows "delete_checks sessA rqA d = (Inr (u_id b), d) \<and> delete_checks sessB rqB d = (Inr (u_id a), d)
    \<and> (\<exists>d1 d2. delete_act (u_id b) d = (writeJSON 200 StatusOK, d1) \<and> delete_act (u_id a) d1 = (writeJSON 200 StatusOK, d2)
         \<and> count_admins (tbl d2) = 0)"
proof -
  have u: "UserByID (u_id x) d = (Inr x, d)" if "x \<in> set (users (tbl d))" for x
  proof -
    have "find (\<lambda>v. u_id v = u_id x) (users (tbl d)) = Some x"
      using that assms(1) by (intro find_unique) (auto simp: wf_defs distinct_map inj_on_def)
    then show ?thesis using assms(2) by (simp add: UserByID_def find_user_def)
  qed
  have g: "guardLastAdmin d = (None, d)" using assms(2,3) by (simp add: guardLastAdmin_def CountAdmins_def)
  have checks: "delete_checks sessA rqA d = (Inr (u_id b), d)" "delete_checks sessB rqB d = (Inr (u_id a), d)"
    using assms u g by (simp_all add: delete_checks_def)
  let ?d1 = "d\<lparr>tbl := sql_delete_user (u_id b) (tbl d)\<rparr>"
  let ?d2 = "d\<lparr>tbl := sql_delete_user (u_id a) (tbl ?d1)\<rparr>"
  have n1: "count_admins (tbl ?d1) = 1" using count_admins_delete [OF assms(1,5)] assms(3,8) by simp
  have "a \<in> set (users (tbl ?d1))" using assms(4,6) by (simp add: sql_delete_user_def)
  then have "count_admins (tbl ?d2) = 0"
    using count_admins_delete [of "tbl ?d1" a] wf_sql_delete_user [OF assms(1)] assms(7) n1 by simp
  moreover have "delete_act (u_id b) d = (writeJSON 200 StatusOK, ?d1)" "delete_act (u_id a) ?d1 = (writeJSON 200 StatusOK, ?d2)"
    using assms(2) by (simp_all add: delete_act_def DeleteUser_def exec_ok)
  ultimately show ?thesis using checks by blast
qed

theorem concurrent_deletes_leave_no_admin_witness:
  "let sess = (\<lambda>k i. \<lparr>ss_token = k, ss_user = i, ss_role = RoleAdmin, ss_created = 0, ss_expires = 86400, ss_elevated = Some 900\<rparr>)
   in delete_checks (sess ''k1'' 1) (demo_request ''DELETE'' [''api'', ''users'', ''2''] ''k1'' []) web_demo = (Inr 2, web_demo)
    \<and> delete_checks (sess ''k2'' 2) (demo_request ''DELETE'' [''api'', ''users'', ''1''] ''k2'' []) web_demo = (Inr 1, web_demo)
    \<and> (\<exists>d1 d2. delete_act 2 web_demo = (writeJSON 200 StatusOK, d1) \<and> delete_act 1 d1 = (writeJSON 200 StatusOK, d2)
         \<and> count_admins (tbl d2) = 0)"
proof -
  have "parse_id ''2'' = Some 2" "parse_id ''1'' = Some 1"
    by (simp_all add: parse_id_def ParseInt64_def ParseUint_def isDigit_def digit_val_def)
  then have p: "parseIDParam (demo_request ''DELETE'' [''api'', ''users'', ''2''] ''k1'' []) = Some 2"
    "parseIDParam (demo_request ''DELETE'' [''api'', ''users'', ''1''] ''k2'' []) = Some 1"
    by (simp_all add: demo_request_def parseIDParam_def)
  let ?s = "\<lambda>k i. \<lparr>ss_token = k, ss_user = i, ss_role = RoleAdmin, ss_created = 0, ss_expires = 86400, ss_elevated = Some 900\<rparr>"
  show ?thesis
    using concurrent_deletes_leave_no_admin [OF web_demo_ok(1-5), of "?s ''k1'' 1" _ "?s ''k2'' 2"] p
    by (simp add: web_demo_ok)
qed

section \<open>Who sees what\<close>

text \<open>Content that needs no session, and content reserved for administrators.\<close>

definition public_content :: "content \<Rightarrow> bool" where
  "public_content c \<longleftrightarrow> (case c of
      ErrorCode _ \<Rightarrow> True | StatusOK \<Rightarrow> True | RedirectTo _ \<Rightarrow> True | PlainText _ \<Rightarrow> True | StaticFile \<Rightarrow> True
    | Page _ v \<Rightarrow> v = None | _ \<Rightarrow> False)"

definition admin_content :: "content \<Rightarrow> bool" where
  "admin_content c \<longleftrightarrow> (case c of
      SettingsMap _ \<Rightarrow> True | RestartRequired _ \<Rightarrow> True | Users _ \<Rightarrow> True | CreatedUser _ \<Rightarrow> True
    | content.Acknowledged _ \<Rightarrow> True | Interfaces _ \<Rightarrow> True | Page name _ \<Rightarrow> name = ''settings.html'' | _ \<Rightarrow> False)"

lemmas content_defs = public_content_def admin_content_def writeJSON_def writeJSONError_def redirect_def NotFound_def renderTemplate_def

definition plain :: "session_handler \<Rightarrow> bool" where
  "plain h \<longleftrightarrow> (\<forall>sess env rq d. \<not> admin_content (rs_content (fst (h sess env rq d))))"

named_theorems web_plain

lemma plain_pages [web_plain]: "plain page_dashboard" "plain page_hostDetail" "plain page_alerts"
  by (auto simp: plain_def page_dashboard_def page_hostDetail_def page_alerts_def Let_def content_defs
      split: prod.splits sum.splits option.splits)

lemma plain_api [web_plain]: "plain api_reauth" "plain api_listHosts" "plain api_hostSeries" "plain api_hostFlows"
    "plain api_hostAlerts" "plain api_listAlerts"
  by (auto simp: plain_def api_reauth_def api_listHosts_def api_hostSeries_def api_hostFlows_def api_hostAlerts_def
      api_listAlerts_def Let_def content_defs split: prod.splits sum.splits option.splits)

definition discreet :: "handler \<Rightarrow> bool" where
  "discreet h \<longleftrightarrow> (\<forall>env rq d r d'. h env rq d = (r, d') \<longrightarrow>
     (public_content (rs_content r) \<or> (\<exists>sess. session_at rq (tbl d) = Some sess))
     \<and> (admin_content (rs_content r) \<longrightarrow> (\<exists>sess. admin_session rq (tbl d) sess)))"

lemma deny_public [simp]:
  "public_content (rs_content (denyUnauthenticated b))" "public_content (rs_content (denyForbidden b))"
  "\<not> admin_content (rs_content (denyUnauthenticated b))" "\<not> admin_content (rs_content (denyForbidden b))"
  "public_content (rs_content (writeJSONError n e))" "\<not> admin_content (rs_content (writeJSONError n e))"
  by (simp_all add: denyUnauthenticated_def denyForbidden_def content_defs)

lemma discreet_requireSession: "plain h \<Longrightarrow> discreet (requireSession b h)"
  unfolding discreet_def
proof (intro allI impI)
  fix env rq d r d'
  assume h: "plain h" and "requireSession b h env rq d = (r, d')"
  from this(2) show "(public_content (rs_content r) \<or> (\<exists>sess. session_at rq (tbl d) = Some sess))
     \<and> (admin_content (rs_content r) \<longrightarrow> (\<exists>sess. admin_session rq (tbl d) sess))"
  proof (cases rule: requireSession_cases)
    case (passed sess d1)
    then have "\<not> admin_content (rs_content r)" using h unfolding plain_def by (metis fst_conv)
    then show ?thesis using passed(1) by simp
  qed simp
qed

lemma discreet_requireAdmin: "discreet (requireAdmin b h)"
  unfolding discreet_def by (intro allI impI) (erule requireAdmin_cases, auto simp: admin_session_def)

lemma discreet_requireAdminElevated: "discreet (requireAdminElevated h)"
  unfolding discreet_def by (intro allI impI) (erule requireAdminElevated_cases, auto simp: admin_session_def)

lemma discreet_public: "discreet serve_static" "discreet page_login" "discreet api_login" "discreet api_logout"
  by (auto simp: discreet_def serve_static_def page_login_def api_login_def api_logout_def setSessionCookie_def clearSessionCookie_def
      content_defs split: option.splits prod.splits sum.splits if_splits)

lemma no_route_public: "public_content (rs_content (no_route r path))" "\<not> admin_content (rs_content (no_route r path))"
  unfolding no_route_def by (simp_all only: split: if_splits) (simp_all add: content_defs)

lemma routes_discreet: "(m, p, h) \<in> set newRouter \<Longrightarrow> discreet h"
  unfolding newRouter_def set_simps
  by (elim insertE emptyE)
    (simp_all add: discreet_public discreet_requireSession discreet_requireAdmin discreet_requireAdminElevated web_plain)

text \<open>C12: nobody sees more than the session allows. Without a valid session of the request's cookie a
  response carries no data of the database: an error code, a bare status, a redirect, the empty login page
  or a static asset. The settings, the users, the interfaces and the settings page are only ever sent to a
  session whose user is an administrator at that moment.\<close>

theorem response_visibility:
  assumes "ServeHTTP env rq d = (r, d')"
  shows "(session_at rq (tbl d) = None \<longrightarrow> public_content (rs_content r))
    \<and> (admin_content (rs_content r) \<longrightarrow> (\<exists>sess. admin_session rq (tbl d) sess))"
proof (cases "find_route (rq_method rq) (rq_path rq)")
  case None
  then show ?thesis using assms no_route_public by (auto simp: ServeHTTP_def)
next
  case (Some h)
  then have "discreet h" using find_route_mem routes_discreet by blast
  moreover have "h env rq d = (r, d')" using assms Some by (simp add: ServeHTTP_def)
  ultimately show ?thesis unfolding discreet_def by fastforce
qed

lemma demo_find_route: "find_route ''GET'' [''api'', ''users''] = Some (requireAdmin True api_listUsers)"
  by (simp add: find_route_def newRouter_def match_method_def)

lemma web_demo_session:
  "session_at (demo_request m p ''k1'' body) (tbl web_demo) =
     Some \<lparr>ss_token = ''k1'', ss_user = 1, ss_role = RoleAdmin, ss_created = 0, ss_expires = 86400, ss_elevated = Some 900\<rparr>"
  by (simp add: session_at_def demo_request_def web_demo_def auth_demo_def session_of_def demo_row_def demo_second_def demo_admin_def Unix_def)

theorem response_visibility_witness:
  "rs_content (fst (ServeHTTP demo_env (demo_request ''GET'' [''api'', ''users''] ''k1'' []) web_demo)) = Users (map toUserJSON [demo_admin, demo_second])
   \<and> (\<exists>sess. admin_session (demo_request ''GET'' [''api'', ''users''] ''k1'' []) (tbl web_demo) sess)
   \<and> public_content (rs_content (fst (ServeHTTP demo_env (demo_request ''GET'' [''api'', ''users''] ''nope'' []) web_demo)))"
proof -
  let ?rq = "demo_request ''GET'' [''api'', ''users''] ''k1'' []" and ?bad = "demo_request ''GET'' [''api'', ''users''] ''nope'' []"
  have "rs_content (fst (ServeHTTP demo_env ?rq web_demo)) = Users (map toUserJSON [demo_admin, demo_second])"
    by (simp add: ServeHTTP_def demo_find_route demo_request_def requireAdmin_def requireSession_def Validate_def SessionByToken_def
        web_demo_def auth_demo_def session_of_def demo_row_def demo_second_def demo_admin_def Unix_def IsAdmin_def api_listUsers_def
        ListUsers_def writeJSON_def)
  moreover have "session_at ?bad (tbl web_demo) = None"
    by (simp add: session_at_def demo_request_def web_demo_def session_of_def demo_row_def)
  ultimately show ?thesis
    using response_visibility [of demo_env ?rq web_demo, OF prod.collapse [symmetric]]
      response_visibility [of demo_env ?bad web_demo, OF prod.collapse [symmetric]]
    by (simp add: admin_content_def)
qed

section \<open>Who changes what\<close>

lemma web_effect_frame:
  assumes "web_effect env rq t t'"
  shows "(users t' \<noteq> users t \<or> settings t' \<noteq> settings t \<longrightarrow> (\<exists>sess. elevated_admin rq t sess))
    \<and> (alerts t' \<noteq> alerts t \<longrightarrow> (\<exists>sess. admin_session rq t sess))
    \<and> map ar_rec (alerts t') = map ar_rec (alerts t)
    \<and> t' = t\<lparr>users := users t', user_seq := user_seq t', sessions := sessions t', settings := settings t', alerts := alerts t'\<rparr>"
  using assms
proof (cases rule: web_effect.cases)
  case (SettingsPut sess body)
  define s where "s = settings t'"
  have "t' = t\<lparr>settings := s\<rparr>" using fold_set_setting_frame [of body t] SettingsPut(1) by (simp add: s_def)
  then show ?thesis using SettingsPut(2) by auto
qed (auto simp: sql_elevate_session_def sql_update_role_def sql_delete_user_def)

text \<open>C8: access control. Whatever the request: the users and the settings change only when its cookie
  names a valid session of an administrator who re-authenticated within the elevation period; the alerts
  change only for an administrator, and only in their acknowledged flag; the captured data (hosts, flows,
  rollups, DNS queries, DHCP names, known peers) never changes.\<close>

theorem access_control:
  assumes "ServeHTTP env rq d = (r, d')"
  shows "(users (tbl d') \<noteq> users (tbl d) \<or> settings (tbl d') \<noteq> settings (tbl d) \<longrightarrow> (\<exists>sess. elevated_admin rq (tbl d) sess))
    \<and> (alerts (tbl d') \<noteq> alerts (tbl d) \<longrightarrow> (\<exists>sess. admin_session rq (tbl d) sess))
    \<and> map ar_rec (alerts (tbl d')) = map ar_rec (alerts (tbl d))
    \<and> tbl d' = (tbl d)\<lparr>users := users (tbl d'), user_seq := user_seq (tbl d'), sessions := sessions (tbl d'),
         settings := settings (tbl d'), alerts := alerts (tbl d')\<rparr>"
  using ServeHTTP_effect [OF assms] by (rule web_effect_frame)

lemma demo_find_delete: "find_route ''DELETE'' [''api'', ''users'', ''2''] = Some (requireAdminElevated api_deleteUser)"
  by (simp add: find_route_def newRouter_def match_method_def)

lemmas web_demo_defs = web_demo_def auth_demo_def demo_row_def demo_second_def demo_admin_def demo_request_def session_of_def Unix_def

theorem access_control_witness:
  "let rq = demo_request ''DELETE'' [''api'', ''users'', ''2''] ''k1'' [] in
   users (tbl (snd (ServeHTTP demo_env rq web_demo))) = [demo_admin] \<and> (\<exists>sess. elevated_admin rq (tbl web_demo) sess)"
proof -
  let ?rq = "demo_request ''DELETE'' [''api'', ''users'', ''2''] ''k1'' []"
  have i: "parse_id ''2'' = Some 2" by (simp add: parse_id_def ParseInt64_def ParseUint_def isDigit_def digit_val_def)
  have "users (tbl (snd (ServeHTTP demo_env ?rq web_demo))) = [demo_admin]"
    by (simp add: ServeHTTP_def demo_find_delete requireAdminElevated_def requireAdmin_def requireSession_def Validate_def
        SessionByToken_def web_demo_defs IsAdmin_def IsElevated_def api_deleteUser_def delete_checks_def parseIDParam_def i
        UserByID_def find_user_def guardLastAdmin_def CountAdmins_def count_admins_def delete_act_def DeleteUser_def exec_ok sql_delete_user_def)
  moreover have "users (tbl web_demo) \<noteq> [demo_admin]" by (simp add: web_demo_def)
  ultimately show ?thesis
    using access_control [of demo_env ?rq web_demo, OF prod.collapse [symmetric]] by (simp add: Let_def)
qed

section \<open>Where sessions come from\<close>

definition issued :: "web_env \<Rightarrow> request \<Rightarrow> tables \<Rightarrow> session_row \<Rightarrow> bool" where
  "issued env rq t s \<longleftrightarrow> (\<exists>body u. rq_body rq = Some body \<and> u \<in> set (users t) \<and> u_name u = field body ''username''
     \<and> VerifyPassword (we_idkey env) (field body ''password'') (u_hash u) = Inr True \<and> s_user s = u_id u
     \<and> s_created s = Unix (rq_clock rq 0) \<and> s_expires s = Unix (rq_clock rq 1 + SessionIdleTimeout))"

definition granted :: "web_env \<Rightarrow> request \<Rightarrow> tables \<Rightarrow> session_row \<Rightarrow> int \<Rightarrow> bool" where
  "granted env rq t s e \<longleftrightarrow> (\<exists>body u. rq_body rq = Some body \<and> rq_cookie rq = Some (s_token s) \<and> u \<in> set (users t) \<and> u_id u = s_user s
     \<and> VerifyPassword (we_idkey env) (field body ''password'') (u_hash u) = Inr True
     \<and> e = Unix (rq_clock rq 2 + ElevationDuration))"

definition same_session :: "session_row \<Rightarrow> session_row \<Rightarrow> bool" where
  "same_session s s0 \<longleftrightarrow> s_token s = s_token s0 \<and> s_user s = s_user s0 \<and> s_created s = s_created s0 \<and> s_expires s = s_expires s0"

lemma same_session_facts:
  "same_session s s0 \<Longrightarrow> issued env q t s = issued env q t s0"
  "same_session s s0 \<Longrightarrow> granted env q t s e = granted env q t s0 e"
  by (simp_all add: same_session_def issued_def granted_def)

lemma session_at_row:
  assumes "wf_tables t" and "session_at rq t = Some sess" and "s \<in> set (sessions t)" and "s_token s = ss_token sess"
  shows "rq_cookie rq = Some (s_token s) \<and> ss_user sess = s_user s"
proof -
  obtain k where k: "rq_cookie rq = Some k" "session_of t k = Some sess"
    using assms(2) by (auto simp: session_at_def split: option.splits if_splits)
  obtain x where x: "x \<in> set (sessions t)" "s_token x = k" "ss_token sess = k" "ss_user sess = s_user x"
    using session_of_row [OF k(2)] by blast
  have "inj_on s_token (set (sessions t))" using assms(1) by (simp add: wf_defs distinct_map)
  then have "x = s" using assms(3,4) x by (auto dest: inj_onD)
  then show ?thesis using k x by simp
qed

text \<open>A row after a request is newly issued, or one of the rows before it.\<close>

definition carried :: "web_env \<Rightarrow> request \<Rightarrow> tables \<Rightarrow> session_row \<Rightarrow> bool" where
  "carried env rq t s \<longleftrightarrow> (\<exists>s0 \<in> set (sessions t). same_session s s0
     \<and> (s_elevated s = s_elevated s0 \<or> (\<exists>e. s_elevated s = Some e \<and> granted env rq t s e)))"

lemma carried_same: "s \<in> set (sessions t) \<Longrightarrow> carried env rq t s"
  unfolding carried_def by (rule bexI [of _ s]) (simp_all add: same_session_def)

lemma session_step:
  assumes "web_effect env rq t t'" and "wf_tables t" and "s \<in> set (sessions t')"
  shows "issued env rq t s \<and> s_elevated s = None \<or> carried env rq t s"
  using assms(1)
proof (cases rule: web_effect.cases)
  case (LoggedIn body u token)
  then show ?thesis using assms(3) carried_same by (auto simp: issued_def)
next
  case (Reauthenticated body sess u)
  let ?e = "Unix (rq_clock rq 2 + ElevationDuration)"
  from assms(3) Reauthenticated(1) obtain s0 where s0: "s0 \<in> set (sessions t)"
    "s = (if s_token s0 = ss_token sess then s0\<lparr>s_elevated := Some ?e\<rparr> else s0)"
    by (auto simp: sql_elevate_session_def)
  show ?thesis
  proof (cases "s_token s0 = ss_token sess")
    case True
    then have "granted env rq t s ?e"
      using session_at_row [OF assms(2) Reauthenticated(3) s0(1) True] Reauthenticated s0(2) by (auto simp: granted_def)
    then show ?thesis using True s0 unfolding carried_def by (intro disjI2 bexI [of _ s0]) (auto simp: same_session_def)
  next
    case False
    then show ?thesis using s0 carried_same by auto
  qed
next
  case (SettingsPut sess body)
  have "sessions (fold sql_set_setting body t) = sessions t" by (subst fold_set_setting_frame) simp
  then show ?thesis using assms(3) carried_same SettingsPut(1) by simp
qed (use assms(3) carried_same in \<open>auto simp: sql_update_role_def sql_delete_user_def\<close>)

lemma snd_serve_all_Cons: "snd (serve_all env (rq # rqs) d) = snd (serve_all env rqs (snd (ServeHTTP env rq d)))"
  by (simp add: case_prod_beta)

lemma serve_all_snoc: "snd (serve_all env (rqs @ [rq]) d) = snd (ServeHTTP env rq (snd (serve_all env rqs d)))"
  by (induction rqs arbitrary: d) (simp_all add: snd_serve_all_Cons case_prod_beta del: serve_all.simps(2) cong: prod.case_cong)

lemma serve_all_wf: "wf_tables (tbl d) \<Longrightarrow> wf_tables (tbl (snd (serve_all env rqs d)))"
  by (rule serve_all_keeps) (auto intro: web_effect_wf)

text \<open>The tables before the \<open>i\<close>-th of a sequence of requests.\<close>

abbreviation before :: "web_env \<Rightarrow> request list \<Rightarrow> db \<Rightarrow> nat \<Rightarrow> tables" where
  "before env rqs d i \<equiv> tbl (snd (serve_all env (take i rqs) d))"

definition provenance :: "web_env \<Rightarrow> request list \<Rightarrow> db \<Rightarrow> session_row \<Rightarrow> bool" where
  "provenance env rqs d s \<longleftrightarrow> (\<exists>i < length rqs. issued env (rqs ! i) (before env rqs d i) s
     \<and> (\<forall>e. s_elevated s = Some e \<longrightarrow> (\<exists>j < length rqs. i < j \<and> granted env (rqs ! j) (before env rqs d j) s e)))"

lemma provenance_snoc:
  assumes "provenance env rqs d s0" and "same_session s s0"
    and "s_elevated s = s_elevated s0 \<or> (\<exists>e. s_elevated s = Some e \<and> granted env rq (tbl (snd (serve_all env rqs d))) s e)"
  shows "provenance env (rqs @ [rq]) d s"
proof -
  let ?n = "length rqs"
  obtain i where i: "i < ?n" "issued env (rqs ! i) (before env rqs d i) s0"
    "\<And>e. s_elevated s0 = Some e \<Longrightarrow> \<exists>j < ?n. i < j \<and> granted env (rqs ! j) (before env rqs d j) s0 e"
    using assms(1) unfolding provenance_def by blast
  have old: "(rqs @ [rq]) ! j = rqs ! j" "before env (rqs @ [rq]) d j = before env rqs d j" if "j < ?n" for j
    using that by (simp_all add: nth_append)
  have "\<exists>j < length (rqs @ [rq]). i < j \<and> granted env ((rqs @ [rq]) ! j) (before env (rqs @ [rq]) d j) s e" if e: "s_elevated s = Some e" for e
  proof (cases "s_elevated s = s_elevated s0")
    case True
    then obtain j where "j < ?n" "i < j" "granted env (rqs ! j) (before env rqs d j) s0 e" using i(3) [of e] e by auto
    then show ?thesis using old by (intro exI [of _ j]) (simp add: same_session_facts(2) [OF assms(2)])
  next
    case False
    then show ?thesis using assms(3) e i(1) by (intro exI [of _ ?n]) auto
  qed
  moreover have "issued env ((rqs @ [rq]) ! i) (before env (rqs @ [rq]) d i) s"
    using i(1,2) old by (simp add: same_session_facts(1) [OF assms(2)])
  ultimately show ?thesis unfolding provenance_def using i(1) by (intro exI [of _ i]) simp
qed

text \<open>C9: every session was earned. Start with no session and serve any sequence of requests. Each
  session row then goes back to a login request of the sequence whose password verified against the
  stored hash of the session's user, with the row's creation time and an expiry exactly 24 hours after
  that login; nothing later extends it. When the row is elevated, a later request with that session's
  cookie gave the same user's password, and the elevation ends 15 minutes after it.\<close>

theorem session_provenance:
  assumes "wf_tables (tbl d)" and "sessions (tbl d) = []" and "s \<in> set (sessions (tbl (snd (serve_all env rqs d))))"
  shows "provenance env rqs d s"
  using assms(3)
proof (induction rqs arbitrary: s rule: rev_induct)
  case Nil
  then show ?case using assms(2) by simp
next
  case (snoc rq rqs)
  let ?t = "tbl (snd (serve_all env rqs d))" and ?n = "length rqs"
  have e: "web_effect env rq ?t (tbl (snd (serve_all env (rqs @ [rq]) d)))"
    unfolding serve_all_snoc by (rule ServeHTTP_effect [OF prod.collapse [symmetric]])
  from session_step [OF e serve_all_wf [OF assms(1)] snoc.prems] show ?case
  proof
    assume "issued env rq ?t s \<and> s_elevated s = None"
    then show ?thesis unfolding provenance_def by (intro exI [of _ ?n]) simp
  next
    assume "carried env rq ?t s"
    then obtain s0 where s0: "s0 \<in> set (sessions ?t)" "same_session s s0"
      "s_elevated s = s_elevated s0 \<or> (\<exists>e. s_elevated s = Some e \<and> granted env rq ?t s e)"
      unfolding carried_def by blast
    show ?thesis by (rule provenance_snoc [OF snoc.IH [OF s0(1)] s0(2,3)])
  qed
qed

lemma demo_find_login: "find_route ''POST'' [''api'', ''login''] = Some api_login"
  by (simp add: find_route_def newRouter_def match_method_def)

abbreviation demo_login :: request where
  "demo_login \<equiv> demo_request ''POST'' [''api'', ''login''] [] [(''username'', ''root''), (''password'', ''hunter2hunter2'')]"

theorem session_provenance_witness:
  "\<exists>s. sessions (tbl (snd (serve_all demo_env [demo_login] auth_demo))) = [s] \<and> provenance demo_env [demo_login] auth_demo s"
proof -
  let ?tok = "EncodeToString RawURLEncoding (replicate 32 0)"
  have n: "u_name demo_admin = ''root''" by (simp add: demo_admin_def)
  obtain d' where l: "Login demo_kdf (Some (replicate 32 0)) 0 0 ''root'' ''hunter2hunter2'' auth_demo = (Inr ?tok, d')"
    using Login_ok [OF auth_demo_ok(2,1,3) demo_password, of "replicate 32 0"] auth_demo_ok(4) n by auto
  from l obtain s where s: "sessions (tbl d') = [s]" by (cases rule: Login_cases) (use auth_demo_ok(4) in auto)
  have "snd (serve_all demo_env [demo_login] auth_demo) = d'"
    using l by (simp add: ServeHTTP_def demo_request_def demo_find_login api_login_def demo_env_def field_def)
  then show ?thesis
    using session_provenance [OF auth_demo_ok(1,4), of s demo_env "[demo_login]"] s by simp
qed

end
