(* ===== verification/Rollupjob.thy ===== *)
theory Rollupjob
  imports Store_Rollup
begin

text \<open>
  Package \<open>rollupjob\<close>: the scheduler that rolls \<open>flows_recent\<close> up into the four tiers and prunes
  old data. The five tickers are one stream of \<open>tick\<close>s, each with the clock reading
  of its handler; the order of ticks that fall together is the order of the stream, since the
  select statement may choose any ready case. A handler logs an error and goes on, so it returns
  the database alone.
\<close>

definition flowsRecentWindow :: duration where
  "flowsRecentWindow = 24 * Hour"

definition rollup1mRetention :: duration where
  "rollup1mRetention = 7 * 24 * Hour"

definition rollup5mRetention :: duration where
  "rollup5mRetention = 60 * 24 * Hour"

definition rollup1hRetention :: duration where
  "rollup1hRetention = 2 * 365 * 24 * Hour"

lemmas retention_defs = flowsRecentWindow_def rollup1mRetention_def rollup5mRetention_def rollup1hRetention_def

definition rollup1m :: "gotime \<Rightarrow> db \<Rightarrow> db" where
  "rollup1m now d =
     (let to = Truncate now Minute; from = to - Minute
      in snd (RollupFromFlowsRecent (Unix from) (Unix to) d))"

definition rollupFiner :: "string \<Rightarrow> string \<Rightarrow> duration \<Rightarrow> gotime \<Rightarrow> db \<Rightarrow> db" where
  "rollupFiner src dst width now d =
     (let to = Truncate now width; from = to - width
      in snd (RollupFromFiner src dst (DurSeconds width) (Unix from) (Unix to) d))"

text \<open>\<open>time.Duration(s.retentionDays) * 24 * time.Hour\<close> is a product of \<open>int64\<close>s.\<close>

definition retention :: "int \<Rightarrow> duration" where
  "retention retentionDays = int64 (int64 (retentionDays * 24) * Hour)"

definition prune :: "int \<Rightarrow> gotime \<Rightarrow> db \<Rightarrow> db" where
  "prune retentionDays now d0 =
     (let d1 = snd (PruneFlowsRecent (Unix (now - flowsRecentWindow)) d0);
          d2 = snd (PruneRollup ''1m'' (Unix (now - rollup1mRetention)) d1);
          d3 = snd (PruneRollup ''5m'' (Unix (now - rollup5mRetention)) d2);
          d4 = snd (PruneRollup ''1h'' (Unix (now - rollup1hRetention)) d3);
          d5 = snd (PruneRollup ''1d'' (Unix (now - retention retentionDays)) d4)
      in snd (IncrementalVacuum d5))"

datatype tick = Tick1m | Tick5m | Tick1h | Tick1d | TickPrune

fun on_tick :: "int \<Rightarrow> tick \<times> gotime \<Rightarrow> db \<Rightarrow> db" where
  "on_tick _ (Tick1m, now) = rollup1m now"
| "on_tick _ (Tick5m, now) = rollupFiner ''1m'' ''5m'' (5 * Minute) now"
| "on_tick _ (Tick1h, now) = rollupFiner ''5m'' ''1h'' Hour now"
| "on_tick _ (Tick1d, now) = rollupFiner ''1h'' ''1d'' (24 * Hour) now"
| "on_tick retentionDays (TickPrune, now) = prune retentionDays now"

definition Run :: "int \<Rightarrow> (tick \<times> gotime) list \<Rightarrow> db \<Rightarrow> db" where
  "Run retentionDays ticks d = fold (on_tick retentionDays) ticks d"

section \<open>The windows in whole seconds\<close>

lemma Unix_sub: "Unix (t - n * 1000000000) = Unix t - n"
  using div_mult_self1 [of 1000000000 t "- n"] by (simp add: Unix_def)

lemma rollup1m_window:
  "Unix (Truncate now Minute) = Unix now div 60 * 60"
  "Unix (Truncate now Minute - Minute) = Unix now div 60 * 60 - 60"
  using Unix_Truncate [of 60 now] Unix_sub [of "Truncate now Minute" 60] by (simp_all add: go_time)

lemma rollupFiner_window:
  assumes "0 < w" and "w dvd 86400"
  shows "Unix (Truncate now (w * 1000000000)) = Unix now div w * w"
    "Unix (Truncate now (w * 1000000000) - w * 1000000000) = Unix now div w * w - w"
    "DurSeconds (w * 1000000000) = w"
  using Unix_Truncate [OF assms, of now] Unix_sub [of _ w] by (simp_all add: go_time)

section \<open>Every tick keeps the schema invariant\<close>

lemma keeps_rollup_ops:
  "keeps wf_tables (RollupFromFlowsRecent from to)" "keeps wf_tables (RollupFromFiner src dst w from to)"
  "keeps wf_tables (PruneRollup g c)" "keeps wf_tables IncrementalVacuum" "keeps wf_tables (PruneFlowsRecent c)"
proof -
  show "keeps wf_tables (RollupFromFlowsRecent from to)"
    unfolding RollupFromFlowsRecent_def by (intro keeps_exec wf_intros)
  show "keeps wf_tables (RollupFromFiner src dst w from to)"
    using keeps_exec [OF wf_sql_rollup_finer] by (auto simp: keeps_def RollupFromFiner_def split: option.split)
  show "keeps wf_tables (PruneRollup g c)"
  proof -
    have "keeps wf_tables (exec (\<lambda>t. Inr ((), sql_prune_rollup x c t)))" for x
      by (intro keeps_exec stmt_keeps_pure wf_intros)
    then show ?thesis by (auto simp: keeps_def PruneRollup_def split: option.split)
  qed
  show "keeps wf_tables IncrementalVacuum"
    unfolding IncrementalVacuum_def by (intro keeps_exec stmt_keeps_pure)
  show "keeps wf_tables (PruneFlowsRecent c)"
    unfolding PruneFlowsRecent_def by (intro keeps_exec stmt_keeps_pure wf_intros)
qed

lemma wf_on_tick: "wf_tables (tbl d) \<Longrightarrow> wf_tables (tbl (on_tick r tk d))"
  using keeps_rollup_ops unfolding keeps_def
  by (cases "(r, tk)" rule: on_tick.cases)
    (auto simp: rollup1m_def rollupFiner_def prune_def Let_def)

lemma wf_Run: "wf_tables (tbl d) \<Longrightarrow> wf_tables (tbl (Run r ticks d))"
  unfolding Run_def by (induction ticks arbitrary: d) (auto simp: wf_on_tick)

section \<open>What a tick does to the tiers\<close>

text \<open>The sum of a tier over the keys that satisfy a predicate, and the flows of a window.\<close>

definition tier_sum :: "string \<Rightarrow> (rollup_key \<Rightarrow> bool) \<Rightarrow> tables \<Rightarrow> counters" where
  "tier_sum g P t = sum_list (map snd (filter (\<lambda>x. P (fst x)) (rollups t g)))"

definition flow_sum :: "int \<Rightarrow> int \<Rightarrow> (rollup_key \<Rightarrow> bool) \<Rightarrow> tables \<Rightarrow> counters" where
  "flow_sum from to P t =
     sum_list (map flow_counters (filter (\<lambda>f. from \<le> f_last f \<and> f_last f < to \<and> P (flow_key f)) (flows_recent t)))"

lemma flow_sum_split:
  assumes "a \<le> b" and "b \<le> c"
  shows "flow_sum a c P t = flow_sum a b P t + flow_sum b c P t"
proof -
  have "sum_list (map flow_counters (filter (\<lambda>f. a \<le> f_last f \<and> f_last f < c \<and> P (flow_key f)) fs))
      = sum_list (map flow_counters (filter (\<lambda>f. a \<le> f_last f \<and> f_last f < b \<and> P (flow_key f)) fs))
        + sum_list (map flow_counters (filter (\<lambda>f. b \<le> f_last f \<and> f_last f < c \<and> P (flow_key f)) fs))" for fs
    using assms by (induction fs) (auto simp: ac_simps)
  then show ?thesis by (simp add: flow_sum_def)
qed

lemma tier_sum_rollup_flows:
  assumes "sql_rollup_flows from to t = Inr (u, t')"
  shows "tier_sum ''rollup_1m'' P t' = tier_sum ''rollup_1m'' P t + flow_sum from to P t"
    and "t' = t\<lparr>rollups := (rollups t)(''rollup_1m'' := rollups t' ''rollup_1m'')\<rparr>"
proof -
  have "rollups t' ''rollup_1m'' = fold sum_on_conflict (select_sums flow_key flow_counters
      (filter (\<lambda>f. from \<le> f_last f \<and> f_last f < to) (flows_recent t))) (rollups t ''rollup_1m'')"
    using insert_sums_InrD(1) [OF assms [unfolded sql_rollup_flows_def]] by simp
  then show "tier_sum ''rollup_1m'' P t' = tier_sum ''rollup_1m'' P t + flow_sum from to P t"
    by (simp add: tier_sum_def flow_sum_def sum_filter_fold_sum sum_select_sums conj_assoc)
  show "t' = t\<lparr>rollups := (rollups t)(''rollup_1m'' := rollups t' ''rollup_1m'')\<rparr>"
    using sql_rollup_flows_cell(2) [OF assms] .
qed

lemma rollup1m_cases:
  obtains (fail) "tbl (rollup1m now d) = tbl d"
  | (success) "sql_rollup_flows (Unix now div 60 * 60 - 60) (Unix now div 60 * 60) (tbl d) = Inr ((), tbl (rollup1m now d))"
proof (cases rule: exec_cases [of "sql_rollup_flows (Unix now div 60 * 60 - 60) (Unix now div 60 * 60)" d])
  case fail
  then show thesis using that(1) by (simp add: rollup1m_def RollupFromFlowsRecent_def rollup1m_window)
next
  case success
  then show thesis using that(2) by (simp add: rollup1m_def RollupFromFlowsRecent_def rollup1m_window)
qed

lemma rollup1m_ok:
  assumes "db_faults d = []" and "wf_tables (tbl d)"
  shows "db_faults (rollup1m now d) = []"
    and "sql_rollup_flows (Unix now div 60 * 60 - 60) (Unix now div 60 * 60) (tbl d) = Inr ((), tbl (rollup1m now d))"
  using sql_rollup_flows_total [OF assms(2), of "Unix now div 60 * 60 - 60" "Unix now div 60 * 60"] assms(1)
  by (auto simp: rollup1m_def RollupFromFlowsRecent_def rollup1m_window exec_ok)

lemma fold_rollup1m:
  assumes "db_faults d = []" and "wf_tables (tbl d)"
    and "\<forall>i < length nows. Unix (nows ! i) div 60 * 60 = B + 60 * (int i + 1)"
  shows "db_faults (fold rollup1m nows d) = [] \<and> wf_tables (tbl (fold rollup1m nows d))
    \<and> flows_recent (tbl (fold rollup1m nows d)) = flows_recent (tbl d)
    \<and> (\<forall>g. g \<noteq> ''rollup_1m'' \<longrightarrow> rollups (tbl (fold rollup1m nows d)) g = rollups (tbl d) g)
    \<and> tier_sum ''rollup_1m'' P (tbl (fold rollup1m nows d))
      = tier_sum ''rollup_1m'' P (tbl d) + flow_sum B (B + 60 * int (length nows)) P (tbl d)"
  using assms(3)
proof (induction nows rule: rev_induct)
  case Nil
  have "flow_sum B B P (tbl d) = 0" by (simp add: flow_sum_def not_less[symmetric] cong: conj_cong)
  then show ?case using assms by simp
next
  case (snoc now nows)
  let ?d = "fold rollup1m nows d"
  have prem: "\<forall>i < length nows. Unix (nows ! i) div 60 * 60 = B + 60 * (int i + 1)"
    using snoc.prems by (metis (no_types, lifting) butlast_snoc length_append_singleton less_SucI nth_butlast length_butlast)
  have IH: "db_faults ?d = []" "wf_tables (tbl ?d)" "flows_recent (tbl ?d) = flows_recent (tbl d)"
    "\<forall>g. g \<noteq> ''rollup_1m'' \<longrightarrow> rollups (tbl ?d) g = rollups (tbl d) g"
    "tier_sum ''rollup_1m'' P (tbl ?d) = tier_sum ''rollup_1m'' P (tbl d) + flow_sum B (B + 60 * int (length nows)) P (tbl d)"
    using snoc.IH prem by simp_all
  have w: "Unix now div 60 * 60 = B + 60 * int (length nows) + 60"
    using snoc.prems by (force simp: nth_append)
  note step = rollup1m_ok(2) [OF IH(1,2), of now, unfolded w, simplified]
  have "flow_sum (B + 60 * int (length nows)) (B + 60 * int (length nows) + 60) P (tbl ?d)
      = flow_sum (B + 60 * int (length nows)) (B + 60 * int (length nows) + 60) P (tbl d)"
    by (simp add: flow_sum_def IH(3))
  moreover have "wf_tables (tbl (rollup1m now ?d))"
    using wf_on_tick [OF IH(2), of 0 "(Tick1m, now)"] by simp
  moreover have "flows_recent (tbl (rollup1m now ?d)) = flows_recent (tbl ?d)"
    "\<forall>g. g \<noteq> ''rollup_1m'' \<longrightarrow> rollups (tbl (rollup1m now ?d)) g = rollups (tbl ?d) g"
    by (subst tier_sum_rollup_flows(2) [OF step], simp)+
  moreover have "B + 60 * int (length (nows @ [now])) = B + 60 * int (length nows) + 60" by simp
  ultimately show ?case
    using IH rollup1m_ok(1) [OF IH(1,2), of now] tier_sum_rollup_flows(1) [OF step, of P]
      flow_sum_split [of B "B + 60 * int (length nows)" "B + 60 * int (length nows) + 60" P "tbl d"]
    by (simp add: ac_simps)
qed

section \<open>Properties\<close>

lemma fold_Tick1m: "fold (on_tick r) (map (Pair Tick1m) nows) d = fold rollup1m nows d"
  by (induction nows arbitrary: d) simp_all

lemma bucket_300_bucket_60: "0 \<le> ts \<Longrightarrow> bucket 300 (bucket 60 ts) = bucket 300 ts"
  using bucket_bucket [of ts 60 5] by simp

lemma bucket_eq_window:
  assumes "0 \<le> ts" "0 < w" "w dvd B"
  shows "bucket w ts = B \<longleftrightarrow> B \<le> ts \<and> ts < B + w"
proof
  assume "bucket w ts = B"
  then show "B \<le> ts \<and> ts < B + w" using bucket_bounds [OF assms(1,2)] by auto
next
  assume ts: "B \<le> ts \<and> ts < B + w"
  obtain k where k: "B = k * w" using assms(3) by (metis dvd_def mult.commute)
  have "0 \<le> k"
  proof (rule ccontr)
    assume "\<not> 0 \<le> k"
    then have "(k + 1) * w \<le> 0" using assms(2) by (simp add: mult_nonpos_nonneg)
    then show False using ts k assms(1) by (simp add: algebra_simps)
  qed
  then show "bucket w ts = B" using bucket_unique [of k w ts] ts k assms(2) by (simp add: algebra_simps)
qed

text \<open>Two-tier rollup equals direct aggregation. When the five 1m ticks that follow the
  minutes of a five-minute window run, and then the 5m tick, each with no driver error and on a
  window not rolled up before, then the 5m cell has grown by exactly the traffic of the flows of
  the window.\<close>

theorem five_minute_rollup_exact:
  assumes "db_faults d = []" and "wf_tables (tbl d)" and "0 \<le> B" and "300 dvd B"
    and minutes: "map (\<lambda>n. Unix n div 60 * 60) nows = map (\<lambda>i. B + 60 * i) [1..5]"
    and "Unix now div 300 * 300 = B + 300"
    and fresh: "\<forall>((h, dir, ts), c) \<in> set (rollups (tbl d) ''rollup_1m''). \<not> (B \<le> ts \<and> ts < B + 300)"
  shows "cell (rollups (tbl (Run r (map (Pair Tick1m) nows @ [(Tick5m, now)]) d)) ''rollup_5m'') (h, dir, B)
         = cell (rollups (tbl d) ''rollup_5m'') (h, dir, B)
           + sum_list (map flow_counters (filter (\<lambda>f. f_host f = h \<and> f_dir f = dir \<and> B \<le> f_last f \<and> f_last f < B + 300)
               (flows_recent (tbl d))))"
proof -
  let ?P = "\<lambda>k :: rollup_key. B \<le> snd (snd k) \<and> snd (snd k) < B + 300 \<and> (fst k, fst (snd k), bucket 300 (snd (snd k))) = (h, dir, B)"
  let ?d1 = "fold rollup1m nows d"
  have len: "length nows = 5" using arg_cong [OF minutes, of length] by simp
  have "Unix (nows ! i) div 60 * 60 = B + 60 * (int i + 1)" if "i < 5" for i
    using arg_cong [OF minutes, of "\<lambda>xs. xs ! i"] that len by (simp add: nth_upto)
  then have d1: "db_faults ?d1 = []" "wf_tables (tbl ?d1)" "rollups (tbl ?d1) ''rollup_5m'' = rollups (tbl d) ''rollup_5m''"
    "tier_sum ''rollup_1m'' ?P (tbl ?d1) = tier_sum ''rollup_1m'' ?P (tbl d) + flow_sum B (B + 300) ?P (tbl d)"
    using fold_rollup1m [OF assms(1,2), of nows B ?P] len by simp_all
  have "filter (\<lambda>x. ?P (fst x)) (rollups (tbl d) ''rollup_1m'') = []"
    using fresh by (auto simp: filter_empty_conv)
  then have old: "tier_sum ''rollup_1m'' ?P (tbl d) = 0" by (simp add: tier_sum_def)
  have fine: "fine_into ''rollup_1m'' 300 B (B + 300) (h, dir, B) t = tier_sum ''rollup_1m'' ?P t" for t
    unfolding fine_into_def tier_sum_def by (rule sum_filter_keys) auto
  have key: "B \<le> f_last f \<and> f_last f < B + 300 \<and> ?P (flow_key f)
      \<longleftrightarrow> f_host f = h \<and> f_dir f = dir \<and> B \<le> f_last f \<and> f_last f < B + 300" for f
  proof (cases "0 \<le> f_last f")
    case True
    have "60 dvd B" "60 dvd B + 300" using assms(4) by (auto intro: dvd_trans [of 60 300])
    then show ?thesis
      using in_range_bucket [of "f_last f" 60 B "B + 300"] bucket_eq_window [of "f_last f" 300 B]
        bucket_300_bucket_60 [OF True] assms(4) True by (auto simp: flow_key_def)
  qed (use assms(3) in auto)
  obtain t2 where t2: "sql_rollup_finer ''rollup_1m'' ''rollup_5m'' 300 B (B + 300) (tbl ?d1) = Inr ((), t2)"
    using sql_rollup_finer_total [OF d1(2)] by blast
  have "rollupFiner ''1m'' ''5m'' (5 * Minute) now ?d1 = ?d1\<lparr>tbl := t2\<rparr>"
    using t2 d1(1) assms(6) rollupFiner_window(1,2) [of 300 now]
    by (simp add: rollupFiner_def Let_def RollupFromFiner_def rollupTables_def exec_ok go_time)
  then have "tbl (Run r (map (Pair Tick1m) nows @ [(Tick5m, now)]) d) = t2"
    by (simp add: Run_def fold_Tick1m)
  then show ?thesis
    using sql_rollup_finer_cell(1) [OF t2, of "(h, dir, B)"] d1(3,4) old
    by (simp only: fine flow_sum_def key add_0)
qed


theorem five_minute_rollup_exact_witness:
  "cell (rollups (tbl (Run 30 (map (Pair Tick1m) [60000000000, 120000000000, 180000000000, 240000000000, 300000000000]
     @ [(Tick5m, 300000000000)]) \<lparr>tbl = demo_tables, db_faults = []\<rparr>)) ''rollup_5m'') (1, 0, 0) = Counters 150 0 3 0"
  using five_minute_rollup_exact [of "\<lparr>tbl = demo_tables, db_faults = []\<rparr>" 0
      "[60000000000, 120000000000, 180000000000, 240000000000, 300000000000]" 300000000000 30 1 0]
  by (simp add: wf_demo_tables Unix_def upto.simps)
    (simp add: demo_tables_def empty_tables_def cell_def flow_counters_def plus_counters_def zero_counters_def)

section \<open>Flows that miss their minute, minutes that are rolled up twice\<close>

lemma tier_1m_finer:
  "g \<noteq> ''1m'' \<Longrightarrow> rollups (tbl (rollupFiner src g w now d)) ''rollup_1m'' = rollups (tbl d) ''rollup_1m''"
proof -
  assume g: "g \<noteq> ''1m''"
  have "rollups (tbl (snd (RollupFromFiner src g w' from to d))) ''rollup_1m'' = rollups (tbl d) ''rollup_1m''" for w' "from" to
  proof (cases "rollupTables src"; cases "rollupTables g")
    fix s g' assume s: "rollupTables src = Some s" and g': "rollupTables g = Some g'"
    then have ne: "g' \<noteq> ''rollup_1m''" using g by (auto simp: rollupTables_def split: if_splits)
    show ?thesis
      using insert_sums_other [of g' _ "tbl d" "()"] ne
      by (cases rule: exec_cases [of "sql_rollup_finer s g' w' from to" d])
        (use s g' in \<open>auto simp: RollupFromFiner_def sql_rollup_finer_def\<close>)
  qed (simp_all add: RollupFromFiner_def)
  then show ?thesis by (simp add: rollupFiner_def Let_def)
qed


lemma flows_into_later: "0 \<le> b \<Longrightarrow> b + 60 \<le> from \<Longrightarrow> flows_into from to (h, dir, b) t = 0"
proof -
  assume b: "0 \<le> b" "b + 60 \<le> from"
  then have "flow_key f \<noteq> (h, dir, b)" if "from \<le> f_last f" for f
    using that bucket_bounds [of "f_last f" 60] by (auto simp: flow_key_def)
  then have "filter (\<lambda>f. from \<le> f_last f \<and> f_last f < to \<and> flow_key f = (h, dir, b)) (flows_recent t) = []"
    by (auto simp: filter_empty_conv)
  then show ?thesis by (simp add: flows_into_def)
qed

lemma cell_filter: "cell (filter P tab) k = cell tab k \<or> cell (filter P tab) k = 0" if "distinct (map fst tab)"
proof (cases "map_of (filter P tab) k")
  case (Some c)
  then have "map_of tab k = Some c" using that by (auto dest: map_of_SomeD)
  with Some show ?thesis by (simp add: cell_def)
qed (simp add: cell_def)

lemma PruneRollup_tier:
  "rollups (tbl (snd (PruneRollup g c d))) T = rollups (tbl d) T
   \<or> rollupTables g = Some T \<and> rollups (tbl (snd (PruneRollup g c d))) T
       = filter (\<lambda>((h, dir, ts), _). \<not> ts < c) (rollups (tbl d) T)"
proof (cases "rollupTables g")
  case (Some T')
  show ?thesis
    by (cases rule: exec_cases [of "\<lambda>t. Inr ((), sql_prune_rollup T' c t)" d])
      (use Some in \<open>auto simp: PruneRollup_def sql_prune_rollup_def\<close>)
qed (simp add: PruneRollup_def)

lemma PruneFlowsRecent_tiers: "rollups (tbl (snd (PruneFlowsRecent c d))) = rollups (tbl d)"
  by (cases rule: exec_cases [of "\<lambda>t. Inr ((), t\<lparr>flows_recent := filter (\<lambda>f. \<not> f_last f < c) (flows_recent t)\<rparr>)" d])
    (auto simp: PruneFlowsRecent_def)

lemma IncrementalVacuum_tbl: "tbl (snd (IncrementalVacuum d)) = tbl d"
  by (cases rule: exec_cases [of "\<lambda>t. Inr ((), t)" d]) (auto simp: IncrementalVacuum_def)

lemma rollupTables_inj: "rollupTables g = Some T \<Longrightarrow> rollupTables g' = Some T \<Longrightarrow> g = g'"
  by (auto simp: rollupTables_def split: if_splits)

lemma prune_tier_1m:
  "rollups (tbl (prune r now d)) ''rollup_1m'' = rollups (tbl d) ''rollup_1m''
   \<or> (\<exists>c. rollups (tbl (prune r now d)) ''rollup_1m''
          = filter (\<lambda>((h, dir, ts), _). \<not> ts < c) (rollups (tbl d) ''rollup_1m''))"
proof -
  have other: "rollups (tbl (snd (PruneRollup g c d))) ''rollup_1m'' = rollups (tbl d) ''rollup_1m''"
    if "g \<noteq> ''1m''" for g c d
    using PruneRollup_tier [of g c d "''rollup_1m''"] that by (auto simp: rollupTables_def split: if_splits)
  show ?thesis
    using PruneRollup_tier [of "''1m''" _ _ "''rollup_1m''"]
    by (simp add: prune_def Let_def IncrementalVacuum_tbl other) (metis PruneFlowsRecent_tiers)
qed

lemma on_tick_late:
  assumes "wf_tables (tbl d)" and "0 \<le> b" and "60 dvd b" and "b + 120 \<le> Unix now"
  shows "cell (rollups (tbl (on_tick r (tk, now) d)) ''rollup_1m'') (h, dir, b) \<in> {cell (rollups (tbl d) ''rollup_1m'') (h, dir, b), 0}"
proof (cases tk)
  case Tick1m
  have "b + 60 \<le> Unix now div 60 * 60 - 60"
  proof -
    obtain k where k: "b = 60 * k" using assms(3) by (elim dvdE)
    then have "k + 2 \<le> Unix now div 60" using assms(4) by (simp flip: mult_le_iff_le_div)
    then show ?thesis using k by simp
  qed
  then show ?thesis
    using Tick1m sql_rollup_flows_cell(1) flows_into_later [OF assms(2)]
    by (cases rule: rollup1m_cases [of now d]) auto
next
  case TickPrune
  have "distinct (map fst (rollups (tbl d) ''rollup_1m''))" using assms(1) by (simp add: wf_defs)
  then show ?thesis using TickPrune prune_tier_1m [of r now d] cell_filter by fastforce
qed (simp_all add: tier_1m_finer)

text \<open>A flow that reaches \<open>flows_recent\<close> after its minute was rolled up is never counted:
  whatever \<open>flows_recent\<close> holds, no sequence of ticks, each at least two minutes after the start
  of minute \<open>b\<close>, adds anything to the \<open>rollup_1m\<close> cells of that minute (pruning may only empty them).\<close>

theorem late_flow_never_rolled_up:
  assumes "wf_tables (tbl d)" and "0 \<le> b" and "60 dvd b" and "\<forall>(tk, now) \<in> set ticks. b + 120 \<le> Unix now"
  shows "cell (rollups (tbl (Run r ticks d)) ''rollup_1m'') (h, dir, b)
         \<in> {cell (rollups (tbl d) ''rollup_1m'') (h, dir, b), 0}"
  using assms(1,4) unfolding Run_def
proof (induction ticks arbitrary: d)
  case (Cons tn ticks)
  obtain tk now where tn: "tn = (tk, now)" by (cases tn)
  then have "cell (rollups (tbl (on_tick r tn d)) ''rollup_1m'') (h, dir, b) \<in> {cell (rollups (tbl d) ''rollup_1m'') (h, dir, b), 0}"
    using on_tick_late [OF Cons.prems(1) assms(2,3), of now] Cons.prems(2) by auto
  then show ?case using Cons.IH [OF wf_on_tick [OF Cons.prems(1)], of r tn] Cons.prems(2) by auto
qed simp

theorem late_flow_never_rolled_up_witness:
  "cell (rollups (tbl (Run 30 [(Tick1m, 180000000000), (Tick1m, 240000000000)] \<lparr>tbl = demo_tables, db_faults = []\<rparr>)) ''rollup_1m'')
     (1, 0, 60) = 0
   \<and> flows_into 60 120 (1, 0, 60) demo_tables = Counters 150 0 3 0"
  using late_flow_never_rolled_up [of "\<lparr>tbl = demo_tables, db_faults = []\<rparr>" 60
      "[(Tick1m, 180000000000), (Tick1m, 240000000000)]" 30 1 0]
  by (simp add: wf_demo_tables Unix_def)
    (simp add: demo_tables_def empty_tables_def cell_def flows_into_def flow_key_def bucket_nonneg flow_counters_def
      plus_counters_def zero_counters_def)

text \<open>Two 1m ticks that fall into the same minute count the previous minute twice: the
  conflict clause adds, it does not replace.\<close>

theorem rollup1m_twice_counts_twice:
  assumes "db_faults d = []" and "wf_tables (tbl d)" and "Unix now div 60 = Unix now' div 60"
  shows "cell (rollups (tbl (rollup1m now' (rollup1m now d))) ''rollup_1m'') k
         = cell (rollups (tbl d) ''rollup_1m'') k
           + flows_into (Unix now div 60 * 60 - 60) (Unix now div 60 * 60) k (tbl d)
           + flows_into (Unix now div 60 * 60 - 60) (Unix now div 60 * 60) k (tbl d)"
proof -
  let ?d = "rollup1m now d"
  have wf: "wf_tables (tbl ?d)" using wf_on_tick [OF assms(2), of 0 "(Tick1m, now)"] by simp
  note 1 = rollup1m_ok [OF assms(1,2), of now]
  note 2 = rollup1m_ok(2) [OF 1(1) wf, of now']
  have "flows_recent (tbl ?d) = flows_recent (tbl d)"
    by (subst sql_rollup_flows_cell(2) [OF 1(2)]) simp
  then show ?thesis
    using sql_rollup_flows_cell(1) [OF 1(2), of k] sql_rollup_flows_cell(1) [OF 2, of k] assms(3)
    by (simp add: flows_into_def)
qed

theorem rollup1m_twice_counts_twice_witness:
  "cell (rollups (tbl (rollup1m 179000000000 (rollup1m 120000000000 \<lparr>tbl = demo_tables, db_faults = []\<rparr>))) ''rollup_1m'')
     (1, 0, 60) = Counters 300 0 6 0"
  using rollup1m_twice_counts_twice [of "\<lparr>tbl = demo_tables, db_faults = []\<rparr>" 120000000000 179000000000 "(1, 0, 60)"]
  by (simp add: wf_demo_tables Unix_def)
    (simp add: demo_tables_def empty_tables_def cell_def flows_into_def flow_key_def bucket_nonneg flow_counters_def
      plus_counters_def zero_counters_def)

section \<open>Retention\<close>

definition keep_from :: "int \<Rightarrow> rollup_table \<Rightarrow> rollup_table" where
  "keep_from c tab = filter (\<lambda>((h, dir, ts), _). c \<le> ts) tab"

lemma PruneRollup_ok:
  "db_faults d = [] \<Longrightarrow> rollupTables g = Some T \<Longrightarrow>
     snd (PruneRollup g c d) = d\<lparr>tbl := (tbl d)\<lparr>rollups := (rollups (tbl d))(T := keep_from c (rollups (tbl d) T))\<rparr>\<rparr>"
  by (simp add: PruneRollup_def exec_ok sql_prune_rollup_def keep_from_def not_less)

lemma prune_ok:
  assumes "db_faults d = []"
  shows "tbl (prune r now d) = (tbl d)
    \<lparr>flows_recent := filter (\<lambda>f. Unix now - 86400 \<le> f_last f) (flows_recent (tbl d)),
     rollups := (rollups (tbl d))
       (''rollup_1m'' := keep_from (Unix now - 7 * 86400) (rollups (tbl d) ''rollup_1m''),
        ''rollup_5m'' := keep_from (Unix now - 60 * 86400) (rollups (tbl d) ''rollup_5m''),
        ''rollup_1h'' := keep_from (Unix now - 730 * 86400) (rollups (tbl d) ''rollup_1h''),
        ''rollup_1d'' := keep_from (Unix (now - retention r)) (rollups (tbl d) ''rollup_1d''))\<rparr>"
proof -
  have cut: "Unix (now - flowsRecentWindow) = Unix now - 86400" "Unix (now - rollup1mRetention) = Unix now - 7 * 86400"
    "Unix (now - rollup5mRetention) = Unix now - 60 * 86400" "Unix (now - rollup1hRetention) = Unix now - 730 * 86400"
    using Unix_sub [of now 86400] Unix_sub [of now "7 * 86400"] Unix_sub [of now "60 * 86400"] Unix_sub [of now "730 * 86400"]
    by (simp_all add: retention_defs go_time)
  show ?thesis
    using assms by (simp add: prune_def Let_def cut PruneFlowsRecent_def exec_ok PruneRollup_ok rollupTables_def
      IncrementalVacuum_def not_less)
qed



text \<open>One day more and the product wraps to a negative duration: the cutoff then lies in
  the future and the prune job deletes every daily rollup up to the present.\<close>

theorem retention_overflow_prunes_everything:
  assumes "db_faults d = []" and "\<forall>((h, dir, ts), c) \<in> set (rollups (tbl d) ''rollup_1d''). ts \<le> Unix now"
  shows "rollups (tbl (prune 106752 now d)) ''rollup_1d'' = []"
proof -
  have "retention 106752 = - 9223371273709551616"
    by (simp add: retention_def int64_def go_time)
  then have "Unix now < Unix (now - retention 106752)"
    by (simp add: Unix_def)
  then show ?thesis
    using assms prune_ok [OF assms(1), of 106752 now] by (auto simp: keep_from_def filter_empty_conv)
qed

theorem retention_overflow_prunes_everything_witness:
  "let d = \<lparr>tbl = demo_tables\<lparr>rollups := (\<lambda>_. [((1, 0, 86400), Counters 1 2 3 4)])\<rparr>, db_faults = []\<rparr> in
     rollups (tbl d) ''rollup_1d'' \<noteq> [] \<and> rollups (tbl (prune 106752 (86400 * 1000000000) d)) ''rollup_1d'' = []"
  using retention_overflow_prunes_everything
    [of "\<lparr>tbl = demo_tables\<lparr>rollups := (\<lambda>_. [((1, 0, 86400), Counters 1 2 3 4)])\<rparr>, db_faults = []\<rparr>" "86400 * 1000000000"]
  by (simp add: Unix_def Let_def)

end
