(* ===== verification/Web_Properties.thy ===== *)
theory Web_Properties
  imports Web_Access Rollupjob
begin

text \<open>
  Properties of the web interface that span several requests or several packages: the settings API and
  the next start of the program, the life of a session, the routing table, the series endpoint.
\<close>

section \<open>Requests that pass\<close>

text \<open>Without driver failures, a request with the session its route asks for reaches the handler.\<close>

lemma pass_session:
  assumes "db_faults d = []" and "session_at rq (tbl d) = Some sess"
  shows "requireSession b h env rq d = h sess env rq d"
proof -
  obtain k where k: "rq_cookie rq = Some k" "session_of (tbl d) k = Some sess" "\<not> ss_expires sess < Unix (rq_clock rq 0)"
    using assms(2) by (auto simp: session_at_def split: option.splits if_splits)
  then show ?thesis using assms(1) by (simp add: requireSession_def Validate_def SessionByToken_def)
qed

lemma pass_admin:
  "db_faults d = [] \<Longrightarrow> admin_session rq (tbl d) sess \<Longrightarrow> requireAdmin b h env rq d = h sess env rq d"
  by (simp add: requireAdmin_def admin_session_def pass_session)

lemma pass_elevated:
  "db_faults d = [] \<Longrightarrow> elevated_admin rq (tbl d) sess \<Longrightarrow> requireAdminElevated h env rq d = h sess env rq d"
  unfolding requireAdminElevated_def elevated_admin_def by (subst pass_admin [of d rq sess]) simp_all

section \<open>Settings through the API\<close>

definition put_settings :: "request \<Rightarrow> (string \<times> string) list \<Rightarrow> bool" where
  "put_settings rq body \<longleftrightarrow> rq_method rq = ''PUT'' \<and> rq_path rq = [''api'', ''settings''] \<and> rq_body rq = Some body"

definition get_settings :: "request \<Rightarrow> bool" where
  "get_settings rq \<longleftrightarrow> rq_method rq = ''GET'' \<and> rq_path rq = [''api'', ''settings'']"

lemma find_settings:
  "find_route ''PUT'' [''api'', ''settings''] = Some (requireAdminElevated api_putSettings)"
  "find_route ''GET'' [''api'', ''settings''] = Some (requireAdmin True api_getSettings)"
  by (simp_all add: find_route_def newRouter_def match_method_def)

lemma put_settings_result:
  assumes "db_faults d = []" and "put_settings rq body" and "elevated_admin rq (tbl d) sess"
  shows "\<exists>b. ServeHTTP env rq d = (writeJSON 200 (RestartRequired b), d\<lparr>tbl := fold sql_set_setting body (tbl d)\<rparr>)"
  using assms by (auto simp: ServeHTTP_def put_settings_def find_settings pass_elevated api_putSettings_def SetSettings_ok Let_def)

lemma admin_session_settings: "admin_session rq (t\<lparr>settings := s\<rparr>) sess = admin_session rq t sess"
proof -
  have "session_of (t\<lparr>settings := s\<rparr>) = session_of t" by (simp add: session_of_def fun_eq_iff split: option.splits)
  then show ?thesis by (simp add: admin_session_def session_at_def cong: option.case_cong)
qed

text \<open>Settings round trip. What an elevated administrator puts is what the next administrator
  gets: the response to \<open>GET /api/settings\<close> is the old settings updated with the body of the \<open>PUT\<close>,
  without the internal key \<open>setup_complete\<close>.\<close>

theorem settings_put_then_get:
  assumes "db_faults d = []" and "put_settings rq1 body" and "distinct (map fst body)" and "elevated_admin rq1 (tbl d) sess1"
    and "get_settings rq2" and "admin_session rq2 (tbl d) sess2"
  shows "\<exists>b d'. ServeHTTP env rq1 d = (writeJSON 200 (RestartRequired b), d')
    \<and> ServeHTTP env rq2 d' = (writeJSON 200 (SettingsMap ((map_of (settings (tbl d)) ++ map_of body)(KeySetupComplete := None))), d')"
proof -
  let ?d = "d\<lparr>tbl := fold sql_set_setting body (tbl d)\<rparr>"
  obtain b where p: "ServeHTTP env rq1 d = (writeJSON 200 (RestartRequired b), ?d)" using put_settings_result [OF assms(1,2,4)] by blast
  have "admin_session rq2 (tbl ?d) sess2"
    using assms(6) fold_set_setting_frame [of body "tbl d"] admin_session_settings by (metis db.select_convs(1) db.surjective db.update_convs(1))
  then have "ServeHTTP env rq2 ?d = (writeJSON 200 (SettingsMap ((map_of (settings (tbl d)) ++ map_of body)(KeySetupComplete := None))), ?d)"
    using assms(1,5) map_of_fold_settings [OF assms(3)]
    by (simp add: ServeHTTP_def get_settings_def find_settings pass_admin api_getSettings_def AllSettings_def)
  then show ?thesis using p by blast
qed

text \<open>A value with which the program cannot start.\<close>

definition unusable :: "string \<times> string \<Rightarrow> bool" where
  "unusable kv \<longleftrightarrow> snd kv \<noteq> [] \<and>
     (fst kv = KeyRetentionDays \<and> Atoi (snd kv) = None
      \<or> fst kv = KeyFlushIntervalSecs \<and> (case Atoi (snd kv) of None \<Rightarrow> True | Some n \<Rightarrow> int64 (n * Second) \<le> 0))"

lemma unusable_never_runs:
  assumes "unusable (k, v)" and "kv k = Some v"
  shows "(case settings_of kv of Inl _ \<Rightarrow> Exit 1 | Inr s \<Rightarrow> start_services re s) \<noteq> Running s' lan f"
proof -
  have k: "valueOr (go_index kv k) x = v" for x using assms by (simp add: unusable_def valueOr_def go_index_def)
  show ?thesis
    using assms(1) k by (auto simp: unusable_def settings_of_def start_services_def Let_def split: option.splits sum.splits if_splits)
qed

text \<open>\<open>PUT /api/settings\<close> validates nothing. An elevated administrator can store a retention that
  is not a number, or a flush interval that is not a number or not positive: the request is answered with 200, and
  no later start of the program on that database gets as far as running its services (it exits with
  an error, or \<open>time.NewTicker\<close> panics).\<close>

theorem put_settings_can_stop_restart:
  assumes "db_faults d = []" and "put_settings rq [(k, v)]" and "elevated_admin rq (tbl d) sess"
    and "unusable (k, v)" and "map_of (settings (tbl d)) KeySetupComplete = Some ''1''"
    and "re_datadir re = Inr dir" and "re_open re" and "\<not> re_first re"
  shows "\<exists>b d'. ServeHTTP env rq d = (writeJSON 200 (RestartRequired b), d')
    \<and> (\<forall>s lan f. fst (runCmd re idkey rnd rank now ifs io d') \<noteq> Running s lan f)"
proof -
  let ?d = "d\<lparr>tbl := fold sql_set_setting [(k, v)] (tbl d)\<rparr>"
  obtain b where p: "ServeHTTP env rq d = (writeJSON 200 (RestartRequired b), ?d)" using put_settings_result [OF assms(1-3)] by blast
  have kv: "map_of (settings (tbl ?d)) = (map_of (settings (tbl d)))(k \<mapsto> v)"
    using map_of_fold_settings [of "[(k, v)]" "tbl d"] by simp
  have "k \<noteq> KeySetupComplete" using assms(4) by (auto simp: unusable_def key_defs)
  then have "map_of (settings (tbl ?d)) KeySetupComplete = Some ''1''" using kv assms(5) by simp
  then have "runCmd re idkey rnd rank now ifs io ?d =
      (case settings_of (map_of (settings (tbl ?d))) of Inl _ \<Rightarrow> Exit 1 | Inr s \<Rightarrow> start_services re s, ?d)"
    using assms(1,6-8) by (intro runCmd_configured) simp_all
  then have "fst (runCmd re idkey rnd rank now ifs io ?d) \<noteq> Running s lan f" for s lan f
    using unusable_never_runs [OF assms(4), of "map_of (settings (tbl ?d))" re s lan f] kv by simp
  then show ?thesis using p by blast
qed


lemma demo_elevated: "elevated_admin (demo_request m p ''k1'' body) (tbl web_demo)
    \<lparr>ss_token = ''k1'', ss_user = 1, ss_role = RoleAdmin, ss_created = 0, ss_expires = 86400, ss_elevated = Some 900\<rparr>"
  by (simp add: elevated_admin_def admin_session_def web_demo_session IsAdmin_def IsElevated_def)
    (simp add: demo_request_def Unix_def)

theorem settings_put_then_get_witness:
  "\<exists>b d'. ServeHTTP demo_env (demo_request ''PUT'' [''api'', ''settings''] ''k1'' [(''retention_days'', ''90'')]) web_demo = (writeJSON 200 (RestartRequired b), d')
    \<and> ServeHTTP demo_env (demo_request ''GET'' [''api'', ''settings''] ''k1'' []) d'
      = (writeJSON 200 (SettingsMap [''retention_days'' \<mapsto> ''90'']), d')"
proof -
  have e: "settings (tbl web_demo) = []" by (simp add: web_demo_def auth_demo_def empty_tables_def)
  show ?thesis
    using settings_put_then_get [OF web_demo_ok(2) _ _ demo_elevated _ conjunct1 [OF demo_elevated [unfolded elevated_admin_def]],
        of "''PUT''" "[''api'', ''settings'']" "[(''retention_days'', ''90'')]" "[(''retention_days'', ''90'')]" "''GET''" "[''api'', ''settings'']" "[]" demo_env]
    by (simp add: put_settings_def get_settings_def demo_request_def e fun_upd_twist KeySetupComplete_def fun_upd_idem)
qed

theorem put_settings_can_stop_restart_witness:
  "let d = web_demo\<lparr>tbl := sql_set_setting (KeySetupComplete, ''1'') (tbl web_demo)\<rparr> in
   \<exists>b d'. ServeHTTP demo_env (demo_request ''PUT'' [''api'', ''settings''] ''k1'' [(''retention_days'', ''soon'')]) d = (writeJSON 200 (RestartRequired b), d')
    \<and> (\<forall>s lan f. fst (runCmd demo_run demo_kdf None (\<lambda>_. 0) 0 (Inr []) demo_io d') \<noteq> Running s lan f)"
proof -
  let ?d = "web_demo\<lparr>tbl := sql_set_setting (KeySetupComplete, ''1'') (tbl web_demo)\<rparr>"
  let ?rq = "demo_request ''PUT'' [''api'', ''settings''] ''k1'' [(''retention_days'', ''soon'')]"
  have u: "unusable (''retention_days'', ''soon'')"
    by (simp add: unusable_def KeyRetentionDays_def ParseInt64_def ParseUint_def isDigit_def)
  have el: "elevated_admin ?rq (tbl ?d) \<lparr>ss_token = ''k1'', ss_user = 1, ss_role = RoleAdmin, ss_created = 0, ss_expires = 86400, ss_elevated = Some 900\<rparr>"
    using demo_elevated by (simp add: elevated_admin_def sql_set_setting_def admin_session_settings)
  have "map_of (settings (tbl ?d)) KeySetupComplete = Some ''1''" by (simp add: sql_set_setting_def map_of_upsert)
  then show ?thesis
    unfolding Let_def
    by (intro put_settings_can_stop_restart [OF _ _ el u]) (simp_all add: web_demo_ok put_settings_def demo_request_def demo_run_def)
qed

section \<open>The routing table\<close>

text \<open>Two patterns that some path matches both.\<close>

fun overlap :: "segment list \<Rightarrow> segment list \<Rightarrow> bool" where
  "overlap [] [] \<longleftrightarrow> True"
| "overlap (Lit s # ps) (Lit s' # qs) \<longleftrightarrow> s = s' \<and> overlap ps qs"
| "overlap (Lit s # ps) (Wild # qs) \<longleftrightarrow> s \<noteq> [] \<and> overlap ps qs"
| "overlap (Wild # ps) (Lit s # qs) \<longleftrightarrow> s \<noteq> [] \<and> overlap ps qs"
| "overlap (Wild # ps) (Wild # qs) \<longleftrightarrow> overlap ps qs"
| "overlap (Anchor # ps) (Lit s # qs) \<longleftrightarrow> s = []"
| "overlap (Lit s # ps) (Anchor # qs) \<longleftrightarrow> s = []"
| "overlap (Anchor # ps) (Wild # qs) \<longleftrightarrow> False"
| "overlap (Wild # ps) (Anchor # qs) \<longleftrightarrow> False"
| "overlap (Below # ps) qs \<longleftrightarrow> qs \<noteq> []"
| "overlap ps (Below # qs) \<longleftrightarrow> ps \<noteq> []"
| "overlap ps qs \<longleftrightarrow> ps \<noteq> [] \<and> qs \<noteq> []"

lemma match_overlap: "match_path p xs \<Longrightarrow> match_path q xs \<Longrightarrow> overlap p q"
  by (induction p q arbitrary: xs rule: overlap.induct) (auto split: list.splits)

definition conflict :: "string \<times> segment list \<times> 'h \<Rightarrow> string \<times> segment list \<times> 'h \<Rightarrow> bool" where
  "conflict = (\<lambda>(m, p, _) (m', p', _). m = m' \<and> overlap p p')"

lemma routes_no_conflict: "sorted_wrt (\<lambda>x y. \<not> conflict x y) newRouter"
  unfolding newRouter_def by (simp add: conflict_def)

lemma unique_match:
  assumes "sorted_wrt (\<lambda>x y. \<not> (P x \<and> P y)) xs" and "x \<in> set xs" and "P x"
  shows "find P xs = Some x"
  using assms by (induction xs) auto

lemma match_method_unique:
  "match_method m r \<Longrightarrow> match_method m' r \<Longrightarrow> m \<in> {''GET'', ''POST'', ''PUT'', ''DELETE''} \<Longrightarrow> m' \<in> {''GET'', ''POST'', ''PUT'', ''DELETE''} \<Longrightarrow> m = m'"
  by (auto simp: match_method_def)

lemma matches_conflict:
  assumes "\<forall>x \<in> set rs. fst x \<in> {''GET'', ''POST'', ''PUT'', ''DELETE''}" and "x \<in> set rs" "y \<in> set rs"
    and "match_method (fst x) r \<and> match_path (fst (snd x)) path" "match_method (fst y) r \<and> match_path (fst (snd y)) path"
  shows "conflict x y"
proof -
  obtain m p h m' p' h' where x: "x = (m, p, h)" and y: "y = (m', p', h')" by (metis prod.collapse)
  have "m = m'" using assms x y by (intro match_method_unique [of m r m']) auto
  moreover have "overlap p p'" using assms(4,5) x y by (intro match_overlap [of p path]) auto
  ultimately show ?thesis by (simp add: conflict_def x y)
qed

text \<open>The routing table is unambiguous. No two of its patterns match the same request, so a request
  is served by a route exactly when that route matches it, whatever the order of registration
  (\<open>http.ServeMux\<close> panics at registration when two patterns conflict).\<close>

theorem router_unambiguous:
  "(\<exists>m p. (m, p, h) \<in> set newRouter \<and> match_method m r \<and> match_path p path) = (find_route r path = Some h)"
proof
  assume "find_route r path = Some h"
  then show "\<exists>m p. (m, p, h) \<in> set newRouter \<and> match_method m r \<and> match_path p path" by (rule find_route_mem)
next
  assume "\<exists>m p. (m, p, h) \<in> set newRouter \<and> match_method m r \<and> match_path p path"
  then obtain m p where h: "(m, p, h) \<in> set newRouter" "match_method m r" "match_path p path" by blast
  let ?P = "\<lambda>(m, p, h :: handler). match_method m r \<and> match_path p path"
  have methods: "\<forall>x \<in> set newRouter. fst x \<in> {''GET'', ''POST'', ''PUT'', ''DELETE''}" by (simp add: newRouter_def)
  have "sorted_wrt (\<lambda>x y. \<not> (?P x \<and> ?P y)) newRouter"
    by (rule sorted_wrt_mono_rel [OF _ routes_no_conflict]) (use matches_conflict [OF methods] in \<open>auto split: prod.splits\<close>)
  then have "find ?P newRouter = Some (m, p, h)" using h by (intro unique_match) auto
  then show "find_route r path = Some h" by (simp add: find_route_def)
qed

section \<open>The life of a session\<close>

lemma find_dashboard: "find_route ''GET'' [[]] = Some (requireSession False page_dashboard)"
  by (simp add: find_route_def newRouter_def match_method_def)

lemma find_login: "find_route ''POST'' [''api'', ''login''] = Some api_login"
  by (simp add: find_route_def newRouter_def match_method_def)

definition login_request :: "request \<Rightarrow> string \<Rightarrow> string \<Rightarrow> bool" where
  "login_request rq name password \<longleftrightarrow> rq_method rq = ''POST'' \<and> rq_path rq = [''api'', ''login'']
     \<and> (\<exists>body. rq_body rq = Some body \<and> field body ''username'' = name \<and> field body ''password'' = password)"

definition dashboard_request :: "request \<Rightarrow> string \<Rightarrow> bool" where
  "dashboard_request rq token \<longleftrightarrow> rq_method rq = ''GET'' \<and> rq_path rq = [[]] \<and> rq_cookie rq = Some token"

lemma Login_exact:
  assumes "db_faults d = []" and "wf_tables (tbl d)" and "u \<in> set (users (tbl d))"
    and "VerifyPassword idkey password (u_hash u) = Inr True"
    and "EncodeToString RawURLEncoding b \<notin> s_token ` set (sessions (tbl d))"
  shows "Login idkey (Some b) now1 now2 (u_name u) password d = (Inr (EncodeToString RawURLEncoding b),
    d\<lparr>tbl := (tbl d)\<lparr>sessions := sessions (tbl d) @ [\<lparr>s_token = EncodeToString RawURLEncoding b, s_user = u_id u, s_created = Unix now1,
      s_expires = Unix (now2 + SessionIdleTimeout), s_elevated = None\<rparr>]\<rparr>\<rparr>)"
proof -
  have "find (\<lambda>x. u_name x = u_name u) (users (tbl d)) = Some u"
    using assms(2,3) by (intro find_unique) (simp_all add: wf_defs)
  then show ?thesis
    using assms by (simp add: Login_def UserByUsername_def find_user_def NewToken_def CreateSession_def exec_ok sql_create_session_def)
qed



section \<open>The series endpoint\<close>

definition tier_width :: "string \<rightharpoonup> int" where
  "tier_width = map_of [(''rollup_1m'', 60), (''rollup_5m'', 300), (''rollup_1h'', 3600), (''rollup_1d'', 86400)]"

text \<open>Every bucket of a rollup table is a multiple of the table's width.\<close>

definition multiples :: "int \<Rightarrow> rollup_key set \<Rightarrow> bool" where
  "multiples w K \<longleftrightarrow> (\<forall>k \<in> K. w dvd snd (snd k))"

definition aligned :: "tables \<Rightarrow> bool" where
  "aligned t \<longleftrightarrow> (\<forall>tab w. tier_width tab = Some w \<longrightarrow> multiples w (fst ` set (rollups t tab)))"

lemma aligned_insert_sums:
  assumes "aligned t" and "insert_sums dst kcs t = Inr (u, t')" and "\<And>w. tier_width dst = Some w \<Longrightarrow> multiples w (fst ` set kcs)"
  shows "aligned t'"
proof -
  have "multiples w (fst ` set (rollups t' tab))" if "tier_width tab = Some w" for tab w
  proof (cases "tab = dst")
    case True
    have "multiples w (fst ` set (rollups t dst) \<union> fst ` set kcs)"
      using assms(1,3) that True by (simp add: aligned_def multiples_def ball_Un)
    then show ?thesis using True by (simp add: insert_sums_InrD(1) [OF assms(2)] keys_fold_sum)
  next
    case False
    then show ?thesis using assms(1) that by (simp add: insert_sums_InrD(1) [OF assms(2)] aligned_def)
  qed
  then show ?thesis by (simp add: aligned_def)
qed

lemma aligned_rollup_flows: "stmt_keeps aligned (sql_rollup_flows from to)"
proof (rule stmt_keepsI)
  fix t a t' assume "aligned t" "sql_rollup_flows from to t = Inr (a, t')"
  then show "aligned t'"
    unfolding sql_rollup_flows_def
    by (rule aligned_insert_sums) (simp add: keys_select_sums multiples_def flow_key_def bucket_def tier_width_def)
qed

lemma aligned_rollup_finer: "tier_width dst = Some w \<Longrightarrow> stmt_keeps aligned (sql_rollup_finer src dst w from to)"
proof (rule stmt_keepsI)
  fix t a t' assume w: "tier_width dst = Some w" "aligned t" "sql_rollup_finer src dst w from to t = Inr (a, t')"
  show "aligned t'"
    using w(2,3) unfolding sql_rollup_finer_def
    by (rule aligned_insert_sums) (use w(1) in \<open>auto simp: multiples_def coarse_key_def bucket_def split: prod.splits\<close>)
qed

lemma aligned_prune: "aligned t \<Longrightarrow> aligned (sql_prune_rollup g c t)"
  by (auto simp: aligned_def sql_prune_rollup_def multiples_def)

lemma aligned_ops:
  "keeps aligned (RollupFromFlowsRecent from to)" "keeps aligned (PruneRollup g c)" "keeps aligned IncrementalVacuum"
  "keeps aligned (PruneFlowsRecent c)"
  "rollupTables dst = Some T \<Longrightarrow> tier_width T = Some w \<Longrightarrow> keeps aligned (RollupFromFiner src dst w from to)"
proof -
  show "keeps aligned (RollupFromFlowsRecent from to)"
    unfolding RollupFromFlowsRecent_def by (intro keeps_exec aligned_rollup_flows)
  have "keeps aligned (exec (\<lambda>t. Inr ((), sql_prune_rollup x c t)))" for x
    by (intro keeps_exec stmt_keeps_pure aligned_prune)
  then show "keeps aligned (PruneRollup g c)" by (auto simp: keeps_def PruneRollup_def split: option.split)
  show "keeps aligned IncrementalVacuum"
    unfolding IncrementalVacuum_def by (intro keeps_exec stmt_keeps_pure)
  show "keeps aligned (PruneFlowsRecent c)"
    unfolding PruneFlowsRecent_def by (intro keeps_exec stmt_keeps_pure) (simp add: aligned_def)
  show "keeps aligned (RollupFromFiner src dst w from to)" if "rollupTables dst = Some T" "tier_width T = Some w"
    using keeps_exec [OF aligned_rollup_finer [OF that(2)]] that(1) by (auto simp: keeps_def RollupFromFiner_def split: option.split)
qed

lemma aligned_on_tick: "aligned (tbl d) \<Longrightarrow> aligned (tbl (on_tick r tk d))"
proof -
  have w: "DurSeconds (5 * Minute) = 300" "DurSeconds Hour = 3600" "DurSeconds (24 * Hour) = 86400" by (simp_all add: duration_defs)
  have f: "keeps aligned (RollupFromFiner src ''5m'' 300 a b)" "keeps aligned (RollupFromFiner src ''1h'' 3600 a b)"
    "keeps aligned (RollupFromFiner src ''1d'' 86400 a b)" for src a b
    using aligned_ops(5) [of _ _ _ src a b] by (simp_all add: rollupTables_def tier_width_def)
  show "aligned (tbl d) \<Longrightarrow> ?thesis"
    using aligned_ops(1-4) f unfolding keeps_def
    by (cases "(r, tk)" rule: on_tick.cases) (auto simp: rollup1m_def rollupFiner_def prune_def Let_def w)
qed

lemma aligned_Run: "aligned (tbl d) \<Longrightarrow> aligned (tbl (Run r ticks d))"
  unfolding Run_def by (induction ticks arbitrary: d) (auto simp: aligned_on_tick)

text \<open>Distinct multiples of \<open>w\<close> whose quotients lie in the range.\<close>

lemma multiples_bound:
  fixes w :: int
  assumes "distinct xs" and "0 < w" and "lo \<le> hi" and "\<And>x. x \<in> set xs \<Longrightarrow> w dvd x \<and> lo div w \<le> x div w \<and> x div w \<le> hi div w"
  shows "length xs \<le> nat ((hi - lo) div w) + 2"
proof -
  have inj: "inj_on (\<lambda>x. x div w) (set xs)"
    using assms(2,4) by (intro inj_onI) (metis dvd_div_mult_self)
  have "length xs = card ((\<lambda>x. x div w) ` set xs)" using assms(1) inj by (simp add: card_image distinct_card)
  also have "\<dots> \<le> card {lo div w .. hi div w}" using assms(4) by (intro card_mono) auto
  also have "\<dots> = nat (hi div w - lo div w + 1)" by simp
  also have "\<dots> \<le> nat ((hi - lo) div w + 2)"
  proof -
    have d: "x div w * w \<le> x" "x < (x div w + 1) * w" for x
    proof -
      have "x div w * w + x mod w = x" "0 \<le> x mod w" "x mod w < w" using assms(2) by simp_all
      then show "x div w * w \<le> x" "x < (x div w + 1) * w" unfolding distrib_right by linarith+
    qed
    have "hi div w * w \<le> hi" "lo < (lo div w + 1) * w" "hi - lo < ((hi - lo) div w + 1) * w" by (rule d)+
    then have "(hi div w - lo div w) * w < ((hi - lo) div w + 2) * w" by (simp add: algebra_simps)
    then have "hi div w - lo div w < (hi - lo) div w + 2" using assms(2) by simp
    then show ?thesis by (intro nat_mono) linarith
  qed
  finally show ?thesis using assms(2,3) by (simp add: nat_add_distrib pos_imp_zdiv_nonneg_iff)
qed

text \<open>The points of a series: one per bucket, in increasing order.\<close>

lemma series_buckets: "map sp_bucket (series key v rows) = sort (remdups (map key rows))"
  by (simp add: series_def Let_def comp_def)

lemma flow_series_bound:
  assumes "0 \<le> lo" and "lo \<le> hi"
  shows "length (flow_series h lo hi dir t) \<le> nat ((hi - lo) div 60) + 2"
proof -
  let ?xs = "map sp_bucket (flow_series h lo hi dir t)"
  have "length ?xs \<le> nat ((hi - lo) div 60) + 2"
  proof (rule multiples_bound)
    fix x assume "x \<in> set ?xs"
    then obtain f :: FlowRecord where f: "lo \<le> f_last f" "f_last f \<le> hi" "x = bucket 60 (f_last f)"
      by (auto simp: flow_series_def series_buckets)
    then have x: "x = f_last f div 60 * 60" using assms(1) by (simp add: bucket_nonneg)
    then show "60 dvd x \<and> lo div 60 \<le> x div 60 \<and> x div 60 \<le> hi div 60"
      using f(1,2) by (simp add: zdiv_mono1)
  qed (use assms in \<open>simp_all add: flow_series_def series_buckets\<close>)
  then show ?thesis by simp
qed

lemma rollup_series_bound:
  assumes "aligned t" and "tier_width table = Some w" and "lo \<le> hi"
  shows "length (rollup_series table h lo hi dir t) \<le> nat ((hi - lo) div w) + 2"
proof -
  let ?xs = "map sp_bucket (rollup_series table h lo hi dir t)"
  have w: "0 < w" using assms(2) by (auto simp: tier_width_def split: if_splits)
  have "length ?xs \<le> nat ((hi - lo) div w) + 2"
  proof (rule multiples_bound)
    fix x assume "x \<in> set ?xs"
    then have "lo \<le> x" "x \<le> hi" "\<exists>k \<in> fst ` set (rollups t table). snd (snd k) = x"
      by (auto simp: rollup_series_def series_buckets intro!: bexI)
    then show "w dvd x \<and> lo div w \<le> x div w \<and> x div w \<le> hi div w"
      using assms(1,2) w by (auto simp: aligned_def multiples_def zdiv_mono1)
  qed (use assms w in \<open>simp_all add: rollup_series_def series_buckets\<close>)
  then show ?thesis by simp
qed

lemma parseRange_bounds:
  assumes "parseRange rq = Some (lo, hi)"
  shows "- (2 ^ 63) \<le> lo" "lo < hi" "hi < 2 ^ 63"
  using assms ParseInt64_range
  by (auto simp: parseRange_def Let_def split: if_splits option.splits)

lemma range_maxima: "rangeFlowsRecentMax = 86400" "range1mMax = 864000" "range5mMax = 7776000" "range1hMax = 63072000"
  by (simp_all add: rangeFlowsRecentMax_def range1mMax_def range5mMax_def range1hMax_def duration_defs)

definition granularity_width :: "string \<Rightarrow> int" where
  "granularity_width g = (if g = ''raw'' then 60 else case rollupTables g of None \<Rightarrow> 0 | Some tab \<Rightarrow> the (tier_width tab))"

lemma granularity_span:
  assumes "parseRange rq = Some (lo, hi)" and "0 \<le> lo" and "pick_granularity lo hi now = g"
  shows "g \<in> {''raw'', ''1m'', ''5m'', ''1h'', ''1d''} \<and> (g \<noteq> ''1d'' \<longrightarrow> nat ((hi - lo) div granularity_width g) + 2 \<le> 25922)"
proof -
  have span: "int64 (hi - lo) = hi - lo" using parseRange_bounds [OF assms(1)] assms(2) by (intro int64_id) auto
  have w: "granularity_width ''raw'' = 60" "granularity_width ''1m'' = 60" "granularity_width ''5m'' = 300" "granularity_width ''1h'' = 3600"
    by (simp_all add: granularity_width_def rollupTables_def tier_width_def)
  show ?thesis
    using assms(3) by (auto simp: pick_granularity_def span range_maxima Let_def w split: if_splits)
qed

lemma fetch_series_bound:
  assumes "fetch_series g h lo hi dir d = (Inr ps, d')" and "g \<in> {''raw'', ''1m'', ''5m'', ''1h'', ''1d''}"
    and "aligned (tbl d)" and "0 \<le> lo" and "lo < hi"
  shows "length ps \<le> nat ((hi - lo) div granularity_width g) + 2 \<and> sorted_wrt (<) (map sp_bucket ps)"
proof (cases "g = ''raw''")
  case True
  then have "ps = flow_series h lo hi dir (tbl d)"
    using assms(1) by (auto simp: fetch_series_def HostSeriesFromFlowsRecent_def dest!: query_InrD)
  then show ?thesis
    using True flow_series_bound [of lo hi h dir "tbl d"] assms(4,5)
    by (simp add: granularity_width_def flow_series_def series_buckets strict_sorted_iff)
next
  case False
  with assms(2) have "\<exists>tab w. rollupTables g = Some tab \<and> tier_width tab = Some w"
    by (elim insertE emptyE) (simp_all add: rollupTables_def tier_width_def)
  then obtain tab w where tab: "rollupTables g = Some tab" "tier_width tab = Some w" by blast
  then have "ps = rollup_series tab h lo hi dir (tbl d)"
    using assms(1) False by (auto simp: fetch_series_def HostSeriesFromRollup_def dest!: query_InrD)
  then show ?thesis
    using False tab rollup_series_bound [OF assms(3) tab(2), of lo hi h dir] assms(5)
    by (simp add: granularity_width_def rollup_series_def series_buckets strict_sorted_iff)
qed

text \<open>C31: a series response stays small. Whatever range a client asks for (from the epoch on), the response
  has at most 25922 points unless the range exceeds two years, and then one per day; the three columns
  have the same length and the times increase strictly. The rollup tables only need the alignment
  that the rollup job maintains.\<close>

theorem series_points_bounded:
  assumes "aligned (tbl d)" and "parseRange rq = Some (lo, hi)" and "0 \<le> lo"
    and "api_hostSeries sess env rq d = (r, d')" and "rs_content r = Series g c"
  shows "length (col_t c) \<le> (if g = ''1d'' then nat ((hi - lo) div 86400) + 2 else 25922)
    \<and> length (col_sent c) = length (col_t c) \<and> length (col_recv c) = length (col_t c) \<and> sorted_wrt (<) (col_t c)"
proof -
  obtain h dir ps d1 where g: "g = pick_granularity lo hi (Unix (rq_clock rq 1))"
    and f: "fetch_series g h lo hi dir d = (Inr ps, d1)" and c: "c = toColumnarSeries ps"
    using assms(2,4,5) by (auto simp: api_hostSeries_def Let_def writeJSON_def writeJSONError_def split: option.splits prod.splits sum.splits)
  from granularity_span [OF assms(2,3) g [symmetric]] have s: "g \<in> {''raw'', ''1m'', ''5m'', ''1h'', ''1d''}"
    "g \<noteq> ''1d'' \<Longrightarrow> nat ((hi - lo) div granularity_width g) + 2 \<le> 25922" by blast+
  have "granularity_width ''1d'' = 86400" by (simp add: granularity_width_def rollupTables_def tier_width_def)
  then show ?thesis
    using fetch_series_bound [OF f s(1) assms(1,3) parseRange_bounds(2) [OF assms(2)]] s(2) by (auto simp: c toColumnarSeries_def)
qed

text \<open>The span is an \<open>int64\<close> difference. A client that asks for the whole range of \<open>int64\<close> gets a
  wrapped, negative span, so the finest granularity is chosen for the widest range and the handler
  reads the raw flows.\<close>

theorem widest_range_reads_raw:
  "pick_granularity (- (2 ^ 63)) (2 ^ 63 - 1) now = ''raw''"
proof -
  have "int64 ((2 ^ 63 - 1) - (- (2 ^ 63))) = - 1" by (simp add: int64_def)
  moreover have "int64 (now - 86400) \<le> 2 ^ 63 - 1" using int64_upper [of "now - 86400"] by linarith
  ultimately show ?thesis by (simp add: pick_granularity_def range_maxima)
qed

definition demo_session :: Session where
  "demo_session = \<lparr>ss_token = ''k1'', ss_user = 1, ss_role = RoleAdmin, ss_created = 0, ss_expires = 86400, ss_elevated = None\<rparr>"

definition series_demo :: request where
  "series_demo = (demo_request ''GET'' [''api'', ''hosts'', ''1'', ''series''] ''k1'' [])\<lparr>rq_query := [''from'' \<mapsto> ''0'', ''to'' \<mapsto> ''600'']\<rparr>"

theorem series_points_bounded_witness:
  "\<exists>c. rs_content (fst (api_hostSeries demo_session demo_env series_demo \<lparr>tbl = demo_tables, db_faults = []\<rparr>)) = Series ''raw'' c
     \<and> length (col_t c) \<le> 25922 \<and> sorted_wrt (<) (col_t c)"
proof -
  let ?d = "\<lparr>tbl = demo_tables, db_faults = []\<rparr>"
  have n: "ParseInt64 ''0'' = Some 0" "ParseInt64 ''600'' = Some 600" "parse_id ''1'' = Some 1"
    by (simp_all add: parse_id_def ParseInt64_def ParseUint_def isDigit_def digit_val_def)
  have range: "parseRange series_demo = Some (0, 600)" by (simp add: parseRange_def series_demo_def query_get_def n)
  have al: "aligned (tbl ?d)" by (simp add: aligned_def multiples_def demo_tables_def empty_tables_def)
  have "int64 600 = 600" "int64 (- 86400) = - 86400" by (simp_all add: int64_def)
  then have "pick_granularity 0 600 0 = ''raw''" by (simp add: pick_granularity_def range_maxima)
  then obtain c where "rs_content (fst (api_hostSeries demo_session demo_env series_demo ?d)) = Series ''raw'' c"
    using range by (simp add: api_hostSeries_def parseIDParam_def series_demo_def demo_request_def n parse_direction_def query_get_def
        Unix_def fetch_series_def HostSeriesFromFlowsRecent_def writeJSON_def)
  then show ?thesis
    using series_points_bounded [OF al range _ prod.collapse [symmetric], of demo_session demo_env "''raw''" c] by auto
qed

end
