(* ===== verification/Store_Queries.thy ===== *)
theory Store_Queries
  imports Store_Ops "HOL-Library.Char_ord" "HOL-Library.List_Lexorder" "HOL-Library.Product_Lexorder"
begin

text \<open>
  The read-only views the detectors use: \<open>store/detect_queries.go\<close>, \<open>RecentFlowPeers\<close> of
  \<open>store/known_peers.go\<close> and the two range queries of \<open>store/dns.go\<close>. Text columns compare
  bytewise (SQLite's default collation), which is the lexicographic order on character lists.
\<close>

definition in_window :: "int \<Rightarrow> int \<Rightarrow> FlowRecord \<Rightarrow> bool" where
  "in_window since now f \<longleftrightarrow> since \<le> f_last f \<and> f_last f \<le> now"

record PeerFlowTimestamp =
  pt_host :: int
  pt_rip :: string
  pt_rport :: int
  pt_first :: int

definition peer_timestamp :: "FlowRecord \<Rightarrow> PeerFlowTimestamp" where
  "peer_timestamp f = \<lparr>pt_host = f_host f, pt_rip = f_rip f, pt_rport = f_rport f, pt_first = f_first f\<rparr>"

definition peer_flow_timestamps :: "int \<Rightarrow> int \<Rightarrow> tables \<Rightarrow> PeerFlowTimestamp list" where
  "peer_flow_timestamps since now t =
     sort_key (\<lambda>p. (pt_host p, pt_rip p, pt_rport p, pt_first p))
       (map peer_timestamp (filter (in_window since now) (flows_recent t)))"

definition PeerFlowTimestamps :: "int \<Rightarrow> int \<Rightarrow> PeerFlowTimestamp list dbm" where
  "PeerFlowTimestamps since now = query (\<lambda>t. Inr (peer_flow_timestamps since now t))"

record HostByteTotals =
  bt_host :: int
  bt_sent :: int
  bt_recv :: int

definition host_outbound_totals :: "int \<Rightarrow> int \<Rightarrow> tables \<Rightarrow> HostByteTotals list" where
  "host_outbound_totals since now t =
     map (\<lambda>g. \<lparr>bt_host = fst g, bt_sent = sum_list (map f_sent (snd g)), bt_recv = sum_list (map f_recv (snd g))\<rparr>)
       (group_by f_host (filter (\<lambda>f. f_dir f = DirLANToWAN \<and> in_window since now f) (flows_recent t)))"

definition HostOutboundTotals :: "int \<Rightarrow> int \<Rightarrow> HostByteTotals list dbm" where
  "HostOutboundTotals since now = query (\<lambda>t. Inr (host_outbound_totals since now t))"

record TargetPortScan =
  ts_host :: int
  ts_rip :: string
  ts_csv :: string
  ts_count :: int

definition scan_port :: "bool \<Rightarrow> FlowRecord \<Rightarrow> int" where
  "scan_port countLocalPort f = (if countLocalPort then f_lport f else f_rport f)"

definition group_concat :: "int list \<Rightarrow> string" where
  "group_concat ports = join_with (CHR '','') (map Itoa ports)"

definition host_target_port_scans :: "int \<Rightarrow> int \<Rightarrow> int \<Rightarrow> bool \<Rightarrow> int \<Rightarrow> tables \<Rightarrow> TargetPortScan list" where
  "host_target_port_scans since now direction countLocalPort minPorts t =
     filter (\<lambda>s. minPorts \<le> ts_count s)
       (map (\<lambda>g. let ports = remdups (map (scan_port countLocalPort) (snd g))
                 in \<lparr>ts_host = fst (fst g), ts_rip = snd (fst g), ts_csv = group_concat ports, ts_count = int (length ports)\<rparr>)
         (group_by (\<lambda>f. (f_host f, f_rip f))
           (filter (\<lambda>f. f_dir f = direction \<and> in_window since now f) (flows_recent t))))"

definition HostTargetPortScans :: "int \<Rightarrow> int \<Rightarrow> int \<Rightarrow> bool \<Rightarrow> int \<Rightarrow> TargetPortScan list dbm" where
  "HostTargetPortScans since now direction countLocalPort minPorts =
     query (\<lambda>t. Inr (host_target_port_scans since now direction countLocalPort minPorts t))"

record DistinctRecentPeer =
  rp_host :: int
  rp_rip :: string
  rp_rport :: int
  rp_first :: int
  rp_out :: bool
  rp_in :: bool

definition recent_flow_peers :: "int \<Rightarrow> int \<Rightarrow> tables \<Rightarrow> DistinctRecentPeer list" where
  "recent_flow_peers since now t =
     map (\<lambda>g. case fst g of (h, ip, port) \<Rightarrow>
            \<lparr>rp_host = h, rp_rip = ip, rp_rport = port, rp_first = Min (set (map f_first (snd g))),
             rp_out = list_ex (\<lambda>f. f_dir f = DirLANToWAN) (snd g), rp_in = list_ex (\<lambda>f. f_dir f = DirWANToLAN) (snd g)\<rparr>)
       (group_by (\<lambda>f. (f_host f, f_rip f, f_rport f)) (filter (in_window since now) (flows_recent t)))"

definition RecentFlowPeers :: "int \<Rightarrow> int \<Rightarrow> DistinctRecentPeer list dbm" where
  "RecentFlowPeers since now = query (\<lambda>t. Inr (recent_flow_peers since now t))"

definition dns_in_window :: "int \<Rightarrow> int \<Rightarrow> DNSQueryRecord \<Rightarrow> bool" where
  "dns_in_window since now q \<longleftrightarrow> since \<le> q_ts q \<and> q_ts q \<le> now"

definition DNSQueryCounts :: "int \<Rightarrow> int \<Rightarrow> (int \<times> int) list dbm" where
  "DNSQueryCounts since now =
     query (\<lambda>t. Inr (map (\<lambda>g. (fst g, int (length (snd g))))
       (group_by q_host (filter (dns_in_window since now) (dns_queries t)))))"

record DNSQueryRow =
  dr_host :: int
  dr_name :: string
  dr_ts :: int

definition DNSQueriesInRange :: "int \<Rightarrow> int \<Rightarrow> DNSQueryRow list dbm" where
  "DNSQueriesInRange since now =
     query (\<lambda>t. Inr (map (\<lambda>q. \<lparr>dr_host = q_host q, dr_name = q_name q, dr_ts = q_ts q\<rparr>)
       (filter (dns_in_window since now) (dns_queries t))))"

end
