(* ===== verification/Go_Fmt.thy ===== *)
theory Go_Fmt
  imports Go_Strings Complex_Main
begin

text \<open>
  What the detectors use of \<open>unicode/utf8\<close>, \<open>fmt\<close>, \<open>time\<close> and \<open>encoding/json\<close> to
  render text. A \<open>float64\<close> is read as the real number it approximates: rounding of
  intermediate results is not modelled, and the shortest decimal form in which
  \<open>encoding/json\<close> prints a float, which depends on its binary representation, is an argument
  of the definitions that print one.
\<close>

section \<open>Runes\<close>

definition is_cont :: "nat \<Rightarrow> nat \<Rightarrow> nat \<Rightarrow> bool" where
  "is_cont lo hi b \<longleftrightarrow> lo \<le> b \<and> b \<le> hi"

text \<open>
  \<open>utf8.DecodeRune\<close>: the first rune of a byte sequence and its width; an invalid sequence is
  U+FFFD of width 1.
\<close>

fun DecodeRune :: "nat list \<Rightarrow> nat \<times> nat" where
  "DecodeRune [] = (65533, 0)"
| "DecodeRune (b0 # bs) =
     (if b0 < 128 then (b0, 1)
      else if 194 \<le> b0 \<and> b0 \<le> 223 then
        (case bs of b1 # _ \<Rightarrow> if is_cont 128 191 b1 then ((b0 - 192) * 64 + (b1 - 128), 2) else (65533, 1)
                  | _ \<Rightarrow> (65533, 1))
      else if 224 \<le> b0 \<and> b0 \<le> 239 then
        (case bs of
           b1 # b2 # _ \<Rightarrow>
             if is_cont (if b0 = 224 then 160 else 128) (if b0 = 237 then 159 else 191) b1 \<and> is_cont 128 191 b2
             then ((b0 - 224) * 4096 + (b1 - 128) * 64 + (b2 - 128), 3) else (65533, 1)
         | _ \<Rightarrow> (65533, 1))
      else if 240 \<le> b0 \<and> b0 \<le> 244 then
        (case bs of
           b1 # b2 # b3 # _ \<Rightarrow>
             if is_cont (if b0 = 240 then 144 else 128) (if b0 = 244 then 143 else 191) b1
                \<and> is_cont 128 191 b2 \<and> is_cont 128 191 b3
             then ((b0 - 240) * 262144 + (b1 - 128) * 4096 + (b2 - 128) * 64 + (b3 - 128), 4) else (65533, 1)
         | _ \<Rightarrow> (65533, 1))
      else (65533, 1))"

lemma DecodeRune_width:
  assumes "bs \<noteq> []"
  shows "0 < snd (DecodeRune bs)" and "snd (DecodeRune bs) \<le> length bs"
  using assms by (cases bs; auto split: list.splits)+

text \<open>\<open>for _, r := range s\<close>: the runes of a string with their bytes.\<close>

function rune_cells :: "nat list \<Rightarrow> (nat \<times> nat list) list" where
  "rune_cells bs =
     (if bs = [] then []
      else let (r, w) = DecodeRune bs in (r, take w bs) # rune_cells (drop w bs))"
  by pat_completeness auto
termination
proof (relation "measure length")
  fix bs :: "nat list" and p r w
  assume "bs \<noteq> []" and "p = DecodeRune bs" and "(r, w) = p"
  then show "(drop w bs, bs) \<in> measure length"
    using DecodeRune_width(1) [of bs] by (cases bs) (auto simp: prod_eq_iff)
qed simp

declare rune_cells.simps [simp del]

definition bytes_of :: "string \<Rightarrow> nat list" where
  "bytes_of s = map of_char s"

definition runes :: "string \<Rightarrow> nat list" where
  "runes s = map fst (rune_cells (bytes_of s))"

lemma length_rune_cells: "length (rune_cells bs) \<le> length bs"
proof (induction bs rule: rune_cells.induct)
  case (1 bs)
  show ?case
  proof (cases "bs = []")
    case True
    then show ?thesis by (simp add: rune_cells.simps)
  next
    case False
    obtain r w where rw: "DecodeRune bs = (r, w)" by (cases "DecodeRune bs")
    then have "0 < w" "w \<le> length bs" using DecodeRune_width [OF False] by simp_all
    moreover have "length (rune_cells (drop w bs)) \<le> length (drop w bs)" using 1 False rw by simp
    ultimately show ?thesis using False rw by (simp add: rune_cells.simps [of bs])
  qed
qed

lemma length_runes: "length (runes s) \<le> length s"
  using length_rune_cells [of "bytes_of s"] by (simp add: runes_def bytes_of_def)

lemma runes_nonempty: "s \<noteq> [] \<Longrightarrow> runes s \<noteq> []"
  by (auto simp: runes_def bytes_of_def rune_cells.simps [of "map of_char s"] split: prod.splits)

section \<open>fmt and time\<close>

definition em_dash :: string where
  "em_dash = [CHR 0xE2, CHR 0x80, CHR 0x94]"

text \<open>\<open>%.1f\<close> of a non-negative number: the nearest multiple of 1/10, ties to even.\<close>

definition round_even :: "real \<Rightarrow> int" where
  "round_even x =
     (let n = \<lfloor>x\<rfloor>; r = x - of_int n
      in if r < 1 / 2 \<or> (r = 1 / 2 \<and> even n) then n else n + 1)"

definition fmt_f1 :: "real \<Rightarrow> string" where
  "fmt_f1 x = (let n = round_even (10 * x) in Itoa (n div 10) @ ''.'' @ Itoa (n mod 10))"

text \<open>\<open>Duration.Round(time.Second)\<close> (halves away from zero) and \<open>Duration.String\<close> of a
  non-negative whole number of seconds.\<close>

definition round_seconds :: "duration \<Rightarrow> int" where
  "round_seconds d = (d + 500000000) div 1000000000"

definition dur_string :: "int \<Rightarrow> string" where
  "dur_string secs =
     (let h = secs div 3600; m = secs div 60 mod 60; s = secs mod 60
      in (if 0 < h then Itoa h @ ''h'' else []) @ (if 60 \<le> secs then Itoa m @ ''m'' else []) @ Itoa s @ ''s'')"

section \<open>encoding/json\<close>

datatype json = JStr string | JInt int | JFloat real | JBool bool | JInts "int list"

definition json_hex :: "nat \<Rightarrow> char" where
  "json_hex n = (if n < 10 then char_of (48 + n) else char_of (87 + n))"

definition json_rune :: "nat \<times> nat list \<Rightarrow> string" where
  "json_rune c =
     (case c of (r, bs) \<Rightarrow>
        if r = 34 then [CHR 0x5C, CHR 0x22]
        else if r = 92 then [CHR 0x5C, CHR 0x5C]
        else if r = 8 then [CHR 0x5C, CHR ''b'']
        else if r = 12 then [CHR 0x5C, CHR ''f'']
        else if r = 10 then [CHR 0x5C, CHR ''n'']
        else if r = 13 then [CHR 0x5C, CHR ''r'']
        else if r = 9 then [CHR 0x5C, CHR ''t'']
        else if r < 32 \<or> r \<in> {60, 62, 38} then
          [CHR 0x5C, CHR ''u'', CHR ''0'', CHR ''0'', json_hex (r div 16), json_hex (r mod 16)]
        else if r = 65533 \<and> length bs = 1 then [CHR 0x5C] @ ''ufffd''
        else if r \<in> {8232, 8233} then [CHR 0x5C] @ ''u202'' @ [json_hex (r mod 16)]
        else map char_of bs)"

definition json_string :: "string \<Rightarrow> string" where
  "json_string s = [CHR 0x22] @ concat (map json_rune (rune_cells (bytes_of s))) @ [CHR 0x22]"

primrec json_value :: "(real \<Rightarrow> string) \<Rightarrow> json \<Rightarrow> string" where
  "json_value ff (JStr s) = json_string s"
| "json_value ff (JInt n) = Itoa n"
| "json_value ff (JFloat x) = ff x"
| "json_value ff (JBool b) = (if b then ''true'' else ''false'')"
| "json_value ff (JInts ns) = ''['' @ join_with (CHR '','') (map Itoa ns) @ '']''"

text \<open>\<open>json.Marshal\<close> of a \<open>map[string]any\<close> sorts the keys; the callers list them sorted.\<close>

definition json_object :: "(real \<Rightarrow> string) \<Rightarrow> (string \<times> json) list \<Rightarrow> string" where
  "json_object ff kvs =
     ''{'' @ join_with (CHR '','') (map (\<lambda>(k, v). json_string k @ '':'' @ json_value ff v) kvs) @ ''}''"

end
