(* ===== verification/Detect_Core.thy ===== *)
theory Detect_Core
  imports Store_Queries Go_Fmt
begin

text \<open>
  Package \<open>detect\<close>, what the detectors share (\<open>detect.go\<close>): labels, \<open>raiseAlert\<close>, the per-run
  cache of host rows; and the contract every detector meets, as the locale \<open>detector\<close>: it
  keeps the schema invariant, keeps alerts of one subject a cooldown apart, only ever appends
  alerts (each for a stated reason), and touches nothing but alerts and known peers.
\<close>

section \<open>alerts.go: kinds and severities\<close>

definition AlertKindNewDestination :: string where "AlertKindNewDestination = ''new_destination''"
definition AlertKindBeaconing :: string where "AlertKindBeaconing = ''beaconing''"
definition AlertKindExfilRatio :: string where "AlertKindExfilRatio = ''exfil_ratio''"
definition AlertKindDNSAnomaly :: string where "AlertKindDNSAnomaly = ''dns_anomaly''"
definition AlertKindPortScan :: string where "AlertKindPortScan = ''port_scan''"
definition AlertKindGeoWatchlist :: string where "AlertKindGeoWatchlist = ''geo_watchlist''"

lemmas kind_defs = AlertKindNewDestination_def AlertKindBeaconing_def AlertKindExfilRatio_def
  AlertKindDNSAnomaly_def AlertKindPortScan_def AlertKindGeoWatchlist_def

definition SeverityInfo :: string where "SeverityInfo = ''info''"
definition SeverityWarning :: string where "SeverityWarning = ''warning''"
definition SeverityCritical :: string where "SeverityCritical = ''critical''"

section \<open>detect.go\<close>

definition hostLabel :: "Host \<Rightarrow> string" where
  "hostLabel h = (case h_display h of Some n \<Rightarrow> if n \<noteq> [] then n else h_ip h | None \<Rightarrow> h_ip h)"

definition classifyPeerDirection :: "bool \<Rightarrow> bool \<Rightarrow> string \<times> string" where
  "classifyPeerDirection hadOutbound hadInbound =
     (if hadOutbound \<and> hadInbound then (''bidirectional'', ''exchanged traffic with a'')
      else if hadOutbound then (''outbound'', ''contacted a'')
      else if hadInbound then (''inbound'', ''was contacted by a'')
      else (''unknown'', ''was linked to a''))"

text \<open>
  \<open>raiseAlert\<close>. The values the detectors pass always marshal; \<open>ff\<close> prints a float.
\<close>

definition raiseAlert :: "(real \<Rightarrow> string) \<Rightarrow> int \<Rightarrow> string \<Rightarrow> string \<Rightarrow> string \<Rightarrow> (string \<times> json) list option \<Rightarrow> string
    \<Rightarrow> int \<Rightarrow> int \<Rightarrow> db \<Rightarrow> db" where
  "raiseAlert ff hostID kind severity summary detail dedupeKey now cooldownSince d =
     (case RecentAlertExists hostID kind dedupeKey cooldownSince d of
        (Inl _, d1) \<Rightarrow> d1
      | (Inr ex, d1) \<Rightarrow>
          if ex then d1
          else snd (InsertAlert
                 \<lparr>al_host = hostID, al_kind = kind, al_severity = severity, al_summary = summary,
                  al_detail = (case detail of None \<Rightarrow> [] | Some kvs \<Rightarrow> json_object ff kvs),
                  al_dedupe = dedupeKey, al_detected = now\<rparr> d1))"

text \<open>The \<open>hosts\<close> map each detector keeps during one run.\<close>

type_synonym host_cache = "int \<rightharpoonup> Host"

definition cached_host :: "int \<Rightarrow> host_cache \<times> db \<Rightarrow> Host option \<times> host_cache \<times> db" where
  "cached_host i s =
     (case s of (cache, d) \<Rightarrow>
        (case cache i of
           Some h \<Rightarrow> (Some h, cache, d)
         | None \<Rightarrow>
             (case HostByID i d of
                (Inl _, d') \<Rightarrow> (None, cache, d')
              | (Inr h, d') \<Rightarrow> (Some h, cache(i \<mapsto> h), d'))))"

definition with_host :: "int \<Rightarrow> (Host \<Rightarrow> host_cache \<times> db \<Rightarrow> host_cache \<times> db) \<Rightarrow> host_cache \<times> db \<Rightarrow> host_cache \<times> db" where
  "with_host i f s = (case cached_host i s of (None, s') \<Rightarrow> s' | (Some h, s') \<Rightarrow> f h s')"

definition with_host_row :: "int \<Rightarrow> (Host \<Rightarrow> db \<Rightarrow> db) \<Rightarrow> db \<Rightarrow> db" where
  "with_host_row i f d = (case HostByID i d of (Inl _, d') \<Rightarrow> d' | (Inr h, d') \<Rightarrow> f h d')"

section \<open>The cooldown discipline\<close>

definition alert_cooldown :: "string \<Rightarrow> string \<Rightarrow> int" where
  "alert_cooldown kind dedupe =
     (if kind = AlertKindPortScan then 900
      else if kind = AlertKindGeoWatchlist then 86400
      else if kind = AlertKindDNSAnomaly \<and> dedupe = ''volume'' then 3600
      else 21600)"

definition same_subject :: "AlertRecord \<Rightarrow> AlertRecord \<Rightarrow> bool" where
  "same_subject a b \<longleftrightarrow> al_host a = al_host b \<and> al_kind a = al_kind b \<and> al_dedupe a = al_dedupe b"

definition apart :: "AlertRecord \<Rightarrow> AlertRecord \<Rightarrow> bool" where
  "apart a b \<longleftrightarrow>
     (same_subject a b \<longrightarrow> alert_cooldown (al_kind a) (al_dedupe a) < \<bar>al_detected a - al_detected b\<bar>)"

fun spaced :: "AlertRecord list \<Rightarrow> bool" where
  "spaced [] = True"
| "spaced (a # as) = (list_all (apart a) as \<and> spaced as)"

lemma apart_sym: "apart a b \<Longrightarrow> apart b a"
  by (auto simp: apart_def same_subject_def)

lemma spaced_snoc: "spaced (as @ [b]) \<longleftrightarrow> spaced as \<and> list_all (apart b) as"
  by (induction as) (auto simp: list_all_iff dest: apart_sym)

abbreviation alert_recs :: "tables \<Rightarrow> AlertRecord list" where
  "alert_recs t \<equiv> map ar_rec (alerts t)"

section \<open>What a detector may do\<close>

definition same_but_alerts :: "tables \<Rightarrow> tables \<Rightarrow> bool" where
  "same_but_alerts t t' \<longleftrightarrow>
     hosts t' = hosts t \<and> host_seq t' = host_seq t \<and> flows_recent t' = flows_recent t \<and> rollups t' = rollups t
     \<and> dns_queries t' = dns_queries t \<and> dhcp_hostnames t' = dhcp_hostnames t \<and> users t' = users t
     \<and> user_seq t' = user_seq t \<and> sessions t' = sessions t \<and> settings t' = settings t"

definition raises :: "(AlertRecord \<Rightarrow> bool) \<Rightarrow> tables \<Rightarrow> tables \<Rightarrow> bool" where
  "raises P t t' \<longleftrightarrow>
     same_but_alerts t t'
     \<and> (wf_tables t \<longrightarrow> wf_tables t')
     \<and> (spaced (alert_recs t) \<longrightarrow> spaced (alert_recs t'))
     \<and> (\<exists>new. alerts t' = alerts t @ new \<and> (\<forall>a \<in> set new. P (ar_rec a)))"

lemma raises_refl [simp]: "raises P t t"
  by (simp add: raises_def same_but_alerts_def)

lemma raises_trans: "raises P t t' \<Longrightarrow> raises P t' t'' \<Longrightarrow> raises P t t''"
  by (auto simp: raises_def same_but_alerts_def)

lemma raises_mono: "raises P t t' \<Longrightarrow> (\<And>a. P a \<Longrightarrow> Q a) \<Longrightarrow> raises Q t t'"
  by (fastforce simp: raises_def)

lemma raises_fold:
  assumes "\<And>x s. x \<in> set xs \<Longrightarrow> raises P (tbl (snd s)) (tbl (snd (step x s)))"
  shows "raises P (tbl (snd s)) (tbl (snd (fold step xs s)))"
  using assms
proof (induction xs arbitrary: s)
  case (Cons x xs)
  have "raises P (tbl (snd s)) (tbl (snd (step x s)))" using Cons.prems by simp
  moreover have "raises P (tbl (snd (step x s))) (tbl (snd (fold step xs (step x s))))"
    by (rule Cons.IH) (use Cons.prems in simp)
  ultimately show ?case by (auto intro: raises_trans)
qed simp

lemma raises_fold_db:
  assumes "\<And>x d. x \<in> set xs \<Longrightarrow> raises P (tbl d) (tbl (step x d))"
  shows "raises P (tbl d) (tbl (fold step xs d))"
proof -
  have "raises P (tbl (snd ((), d))) (tbl (snd (fold (\<lambda>x s. ((), step x (snd s))) xs ((), d))))"
    by (rule raises_fold) (simp add: assms)
  moreover have "fold (\<lambda>x s. ((), step x (snd s))) xs ((), d) = ((), fold step xs d)" for d
    by (induction xs arbitrary: d) simp_all
  ultimately show ?thesis by simp
qed

text \<open>An alert about the subject was detected at or after \<open>since\<close>.\<close>

definition alerted :: "tables \<Rightarrow> int \<Rightarrow> string \<Rightarrow> string \<Rightarrow> int \<Rightarrow> bool" where
  "alerted t hostID kind dedupe since \<longleftrightarrow>
     list_ex (\<lambda>a. al_host a = hostID \<and> al_kind a = kind \<and> al_dedupe a = dedupe \<and> since \<le> al_detected a) (alert_recs t)"

lemma alerted_raises: "raises P t t' \<Longrightarrow> alerted t h k u s \<Longrightarrow> alerted t' h k u s"
  by (auto simp: raises_def alerted_def)

lemma RecentAlertExists_alerted:
  "RecentAlertExists h k u s = query (\<lambda>t. Inr (alerted t h k u s))"
proof -
  have "0 < length (filter P xs) \<longleftrightarrow> list_ex P xs" for P and xs :: "alert_row list"
    by (induction xs) auto
  then show ?thesis
    by (simp add: RecentAlertExists_def alerted_def list_ex_iff)
qed

lemma insert_alert_raises:
  assumes st: "sql_insert_alert a t = Inr (u, t')"
    and new: "\<not> alerted t (al_host a) (al_kind a) (al_dedupe a) since"
    and cool: "since = al_detected a - alert_cooldown (al_kind a) (al_dedupe a)"
    and P: "P a"
  shows "raises P t t'"
proof -
  have t': "t' = t\<lparr>alerts := alerts t @ [\<lparr>ar_id = alert_seq t, ar_rec = a, ar_ack = False\<rparr>], alert_seq := alert_seq t + 1\<rparr>"
    using st by (simp add: sql_insert_alert_def split: if_splits)
  have "list_all (apart a) (alert_recs t)"
    using new cool by (auto simp: alerted_def list_ex_iff list_all_iff apart_def same_subject_def)
  moreover have "wf_tables t \<Longrightarrow> wf_tables t'"
    using wf_sql_insert_alert st by (auto simp: stmt_keeps_def)
  ultimately show ?thesis
    using P by (auto simp: raises_def same_but_alerts_def t' spaced_snoc)
qed

lemma raises_raiseAlert:
  assumes "since = now - alert_cooldown kind dedupe"
    and "\<And>a. al_host a = hostID \<Longrightarrow> al_kind a = kind \<Longrightarrow> al_dedupe a = dedupe \<Longrightarrow> al_detected a = now
          \<Longrightarrow> al_severity a = severity \<Longrightarrow> al_summary a = summary \<Longrightarrow> P a"
  shows "raises P (tbl d) (tbl (raiseAlert ff hostID kind severity summary detail dedupe now since d))"
proof -
  obtain r d1 where r: "RecentAlertExists hostID kind dedupe since d = (r, d1)"
    by (cases "RecentAlertExists hostID kind dedupe since d")
  have t1: "tbl d1 = tbl d" using arg_cong [OF r, of "\<lambda>x. tbl (snd x)"] by (simp add: RecentAlertExists_alerted)
  show ?thesis
  proof (cases "r = Inr False")
    case True
    then have "\<not> alerted (tbl d1) hostID kind dedupe since"
      using r t1 by (auto simp: RecentAlertExists_alerted query_def split: prod.splits if_splits)
    then show ?thesis
      using True r t1 assms
      by (cases rule: exec_cases [of "sql_insert_alert \<lparr>al_host = hostID, al_kind = kind, al_severity = severity, al_summary = summary,
                  al_detail = (case detail of None \<Rightarrow> [] | Some kvs \<Rightarrow> json_object ff kvs),
                  al_dedupe = dedupe, al_detected = now\<rparr>" d1])
        (auto simp: raiseAlert_def InsertAlert_def intro!: insert_alert_raises)
  next
    case False
    then show ?thesis using r t1 by (auto simp: raiseAlert_def split: sum.splits)
  qed
qed

lemma insert_alert_known_peers: "sql_insert_alert a t = Inr (u, t') \<Longrightarrow> known_peers t' = known_peers t"
  by (auto simp: sql_insert_alert_def split: if_splits)

lemma raiseAlert_known_peers:
  "known_peers (tbl (raiseAlert ff hostID kind severity summary detail dedupe now since d)) = known_peers (tbl d)"
proof -
  obtain r d1 where r: "RecentAlertExists hostID kind dedupe since d = (r, d1)" by fastforce
  have t1: "tbl d1 = tbl d" using r by (auto simp: RecentAlertExists_def dest: query_tblD)
  have "known_peers (tbl (snd (InsertAlert a d1))) = known_peers (tbl d1)" for a
    by (cases rule: exec_cases [of "sql_insert_alert a" d1])
      (auto simp: InsertAlert_def dest: insert_alert_known_peers)
  then show ?thesis using r t1 by (simp add: raiseAlert_def split: sum.split)
qed

text \<open>Without driver errors an alert about a stored host is there afterwards.\<close>

lemma raiseAlert_ok:
  assumes "db_faults d = []" and "hostID \<in> host_ids (tbl d)" and "since \<le> now"
  shows "db_faults (raiseAlert ff hostID kind severity summary detail dedupe now since d) = []"
    and "alerted (tbl (raiseAlert ff hostID kind severity summary detail dedupe now since d)) hostID kind dedupe since"
  using assms
  by (auto simp: raiseAlert_def RecentAlertExists_alerted InsertAlert_def exec_ok sql_insert_alert_def alerted_def)

lemma cached_host_tbl: "tbl (snd (snd (cached_host i s))) = tbl (snd s)"
proof -
  obtain c d where s: "s = (c, d)" by (cases s)
  have "tbl (snd (HostByID i d)) = tbl d" by (simp add: HostByID_def)
  then show ?thesis
    by (auto simp: s cached_host_def split: option.splits prod.splits sum.splits)
qed

text \<open>Without driver errors the cache holds the stored rows, and every stored host is found.\<close>

definition cache_ok :: "host_cache \<times> db \<Rightarrow> bool" where
  "cache_ok s \<longleftrightarrow> db_faults (snd s) = [] \<and> (\<forall>i h. fst s i = Some h \<longrightarrow> find (\<lambda>h. h_id h = i) (hosts (tbl (snd s))) = Some h)"

lemma cached_host_ok:
  assumes "cache_ok s" and "i \<in> host_ids (tbl (snd s))"
  shows "\<exists>h. fst (cached_host i s) = Some h \<and> h \<in> set (hosts (tbl (snd s))) \<and> h_id h = i"
    and "cache_ok (snd (cached_host i s))"
    and "snd (snd (cached_host i s)) = snd s"
proof -
  obtain c d where s: "s = (c, d)" by (cases s)
  obtain h where h: "find (\<lambda>h. h_id h = i) (hosts (tbl d)) = Some h"
    using assms(2) by (cases "find (\<lambda>h. h_id h = i) (hosts (tbl d))") (auto simp: s host_ids_def find_None_iff)
  have f: "db_faults d = []" using assms(1) by (simp add: s cache_ok_def)
  have c: "c i = Some h' \<Longrightarrow> h' = h" for h' using assms(1) h by (auto simp: s cache_ok_def)
  show "\<exists>h. fst (cached_host i s) = Some h \<and> h \<in> set (hosts (tbl (snd s))) \<and> h_id h = i"
    using h c f find_SomeD [OF h] by (cases "c i") (auto simp: s cached_host_def HostByID_def)
  show "cache_ok (snd (cached_host i s))"
    using assms(1) h f by (cases "c i") (auto simp: s cached_host_def HostByID_def cache_ok_def)
  show "snd (snd (cached_host i s)) = snd s"
    using h f by (cases "c i") (auto simp: s cached_host_def HostByID_def)
qed

lemma raises_with_host:
  assumes "\<And>h c d. raises P (tbl d) (tbl (snd (f h (c, d))))"
  shows "raises P (tbl (snd s)) (tbl (snd (with_host i f s)))"
proof -
  obtain h c d where ch: "cached_host i s = (h, c, d)" by (cases "cached_host i s") auto
  have "tbl d = tbl (snd s)" using cached_host_tbl [of i s] ch by simp
  then show ?thesis using ch assms [of d _ c] by (cases h) (auto simp: with_host_def)
qed

text \<open>A cache of stored rows, whatever the driver does.\<close>

definition cache_rows :: "host_cache \<times> db \<Rightarrow> bool" where
  "cache_rows s \<longleftrightarrow> (\<forall>i h. fst s i = Some h \<longrightarrow> h \<in> set (hosts (tbl (snd s))) \<and> h_id h = i)"

lemma cache_rows_empty [simp]: "cache_rows (Map.empty, d)"
  by (simp add: cache_rows_def)

lemma cache_rows_raises: "cache_rows (c, d) \<Longrightarrow> raises P (tbl d) (tbl d') \<Longrightarrow> cache_rows (c, d')"
  by (simp add: cache_rows_def raises_def same_but_alerts_def)

lemma cached_host_rows:
  assumes "cache_rows s" and "cached_host i s = (r, c, d)"
  shows "cache_rows (c, d)" and "r = Some h \<Longrightarrow> h \<in> set (hosts (tbl d)) \<and> h_id h = i"
proof -
  obtain c0 d0 where s: "s = (c0, d0)" by (cases s)
  obtain q d1 where q: "HostByID i d0 = (q, d1)" by (cases "HostByID i d0")
  have d1: "tbl d1 = tbl d0" using q by (auto simp: HostByID_def dest: query_tblD)
  have row: "h \<in> set (hosts (tbl d0)) \<and> h_id h = i" if "q = Inr h" for h
    using q that by (auto simp: HostByID_def query_def split: prod.splits if_splits option.splits dest!: find_SomeD)
  show "cache_rows (c, d)"
    using assms q d1 row by (auto simp: s cached_host_def cache_rows_def split: option.splits sum.splits if_splits)
  show "r = Some h \<Longrightarrow> h \<in> set (hosts (tbl d)) \<and> h_id h = i"
    using assms q d1 row by (auto simp: s cached_host_def cache_rows_def split: option.splits sum.splits if_splits)
qed

lemma raises_with_host_rows:
  assumes "cache_rows s"
    and "\<And>h c d. tbl d = tbl (snd s) \<Longrightarrow> h \<in> set (hosts (tbl d)) \<Longrightarrow> h_id h = i
      \<Longrightarrow> fst (f h (c, d)) = c \<and> raises P (tbl d) (tbl (snd (f h (c, d))))"
  shows "raises P (tbl (snd s)) (tbl (snd (with_host i f s))) \<and> cache_rows (with_host i f s)"
proof -
  obtain r c d where ch: "cached_host i s = (r, c, d)" by (cases "cached_host i s") auto
  have d: "tbl d = tbl (snd s)" using cached_host_tbl [of i s] ch by simp
  note rows = cached_host_rows [OF assms(1) ch]
  show ?thesis
  proof (cases r)
    case None
    then show ?thesis using ch d rows(1) by (simp add: with_host_def)
  next
    case (Some h)
    then have "fst (f h (c, d)) = c" "raises P (tbl d) (tbl (snd (f h (c, d))))"
      using assms(2) [OF d] rows(2) by auto
    moreover from this have "cache_rows (f h (c, d))"
      using cache_rows_raises [OF rows(1)] by (metis prod.collapse)
    ultimately show ?thesis using ch d Some by (simp add: with_host_def)
  qed
qed

lemma raises_with_host_row:
  assumes "\<And>h d. raises P (tbl d) (tbl (f h d))"
  shows "raises P (tbl d) (tbl (with_host_row i f d))"
proof -
  obtain r d' where r: "HostByID i d = (r, d')" by (cases "HostByID i d")
  then have "tbl d' = tbl d" by (auto simp: HostByID_def dest: query_tblD)
  then show ?thesis using r assms [of d'] by (auto simp: with_host_row_def split: sum.split)
qed

lemma with_host_row_ok:
  assumes "db_faults d = []" and "i \<in> host_ids (tbl d)"
  obtains h where "with_host_row i f d = f h d" "h \<in> set (hosts (tbl d))" "h_id h = i"
proof -
  obtain h where "find (\<lambda>h. h_id h = i) (hosts (tbl d)) = Some h"
    using assms(2) by (cases "find (\<lambda>h. h_id h = i) (hosts (tbl d))") (auto simp: host_ids_def find_None_iff)
  then show thesis
    using assms(1) that find_SomeD [of "\<lambda>h. h_id h = i"] by (auto simp: with_host_row_def HostByID_def)
qed

lemma with_host_ok:
  assumes "cache_ok s" and "i \<in> host_ids (tbl (snd s))"
  obtains h c where "with_host i f s = f h (c, snd s)" "cache_ok (c, snd s)" "h \<in> set (hosts (tbl (snd s)))" "h_id h = i"
  using cached_host_ok [OF assms] by (cases "cached_host i s") (auto simp: with_host_def)

text \<open>A loop establishes for every element what one step establishes and no later step undoes.\<close>

lemma fold_inv: "(\<And>y s. y \<in> set ys \<Longrightarrow> J s \<Longrightarrow> J (step y s)) \<Longrightarrow> J s \<Longrightarrow> J (fold step ys s)"
  by (induction ys arbitrary: s) auto

lemma fold_each:
  assumes "\<And>x s. x \<in> set xs \<Longrightarrow> I s \<Longrightarrow> I (step x s) \<and> Q x (step x s)"
    and "\<And>x y s. y \<in> set xs \<Longrightarrow> I s \<Longrightarrow> Q x s \<Longrightarrow> Q x (step y s)"
    and "I s"
  shows "I (fold step xs s) \<and> (\<forall>x \<in> set xs. Q x (fold step xs s))"
  using assms
proof (induction xs arbitrary: s)
  case (Cons x xs)
  have s: "I (step x s) \<and> Q x (step x s)" using Cons.prems(1) [of x s] Cons.prems(3) by simp
  have "I (fold step xs (step x s)) \<and> Q x (fold step xs (step x s))"
    by (rule fold_inv [where J = "\<lambda>s. I s \<and> Q x s", OF _ s]) (use Cons.prems in auto)
  moreover have "\<forall>y \<in> set xs. Q y (fold step xs (step x s))"
    using Cons.IH [of "step x s"] Cons.prems(1,2) s by auto
  ultimately show ?case by simp
qed simp

section \<open>Completeness without driver errors\<close>

definition det_inv :: "tables \<Rightarrow> host_cache \<times> db \<Rightarrow> bool" where
  "det_inv t0 s \<longleftrightarrow> cache_ok s \<and> raises (\<lambda>_. True) t0 (tbl (snd s))"

lemma det_inv_init: "db_faults d = [] \<Longrightarrow> det_inv (tbl d) (Map.empty, d)"
  by (simp add: det_inv_def cache_ok_def)

lemma det_inv_hosts: "det_inv t0 s \<Longrightarrow> host_ids (tbl (snd s)) = host_ids t0"
  by (simp add: det_inv_def raises_def same_but_alerts_def host_ids_def)

lemma det_inv_faults: "det_inv t0 s \<Longrightarrow> db_faults (snd s) = []"
  by (simp add: det_inv_def cache_ok_def)

lemma det_inv_raise:
  assumes "det_inv t0 s" and "i \<in> host_ids t0" and "since = now - alert_cooldown kind dedupe"
  shows "det_inv t0 (fst s, raiseAlert ff i kind sev summary detail dedupe now since (snd s))"
    and "alerted (tbl (raiseAlert ff i kind sev summary detail dedupe now since (snd s))) i kind dedupe since"
proof -
  let ?d = "raiseAlert ff i kind sev summary detail dedupe now since (snd s)"
  have pos: "since \<le> now" using assms(3) by (simp add: alert_cooldown_def)
  have r: "raises (\<lambda>_. True) (tbl (snd s)) (tbl ?d)" by (rule raises_raiseAlert) (simp_all add: assms(3))
  have i: "i \<in> host_ids (tbl (snd s))" using assms(1,2) by (simp add: det_inv_hosts)
  note ok = raiseAlert_ok [OF det_inv_faults [OF assms(1)] i pos]
  have "hosts (tbl ?d) = hosts (tbl (snd s))" using r by (simp add: raises_def same_but_alerts_def)
  then show "det_inv t0 (fst s, ?d)"
    using assms(1) r ok(1) by (auto simp: det_inv_def cache_ok_def intro: raises_trans)
  show "alerted (tbl ?d) i kind dedupe since" by (rule ok(2))
qed

lemma det_inv_with_host:
  assumes "det_inv t0 s" and "i \<in> host_ids t0" and "since = now - alert_cooldown kind dedupe"
    and f: "\<And>h c d. f h (c, d) = (c, raiseAlert ff i kind (sev h) (summary h) (detail h) dedupe now since d)"
  shows "det_inv t0 (with_host i f s)"
    and "alerted (tbl (snd (with_host i f s))) i kind dedupe since"
proof -
  have "cache_ok s" "i \<in> host_ids (tbl (snd s))" using assms(1,2) by (simp_all add: det_inv_hosts, simp add: det_inv_def)
  then obtain h c where w: "with_host i f s = f h (c, snd s)" "cache_ok (c, snd s)"
    by (rule with_host_ok)
  then have "det_inv t0 (c, snd s)" using assms(1) by (simp add: det_inv_def)
  from det_inv_raise [OF this assms(2,3)]
  show "det_inv t0 (with_host i f s)" "alerted (tbl (snd (with_host i f s))) i kind dedupe since"
    by (simp_all add: w f)
qed

lemma with_host_inv:
  assumes "det_inv t0 s" and "i \<in> host_ids t0" and "\<And>h c. det_inv t0 (c, snd s) \<Longrightarrow> Q (f h (c, snd s))"
  shows "Q (with_host i f s)"
proof -
  have "cache_ok s" "i \<in> host_ids (tbl (snd s))" using assms(1,2) by (simp_all add: det_inv_hosts, simp add: det_inv_def)
  then obtain h c where w: "with_host i f s = f h (c, snd s)" "cache_ok (c, snd s)"
    by (rule with_host_ok)
  then have "det_inv t0 (c, snd s)" using assms(1) by (simp add: det_inv_def)
  then show ?thesis using assms(3) w(1) by simp
qed

text \<open>Once an alert is there, no later step of a run removes it.\<close>

lemma alerted_with_host:
  assumes "\<And>h c d. raises P (tbl d) (tbl (snd (f h (c, d))))" and "alerted (tbl (snd s)) h k u since"
  shows "alerted (tbl (snd (with_host i f s))) h k u since"
  using raises_with_host [of P f s i] assms alerted_raises by blast

section \<open>The contract of a detector\<close>

text \<open>The scheduler runs a detector only while its setting allows it.\<close>

definition gated :: "string \<Rightarrow> (gotime \<Rightarrow> db \<Rightarrow> db) \<Rightarrow> gotime \<Rightarrow> db \<Rightarrow> db" where
  "gated key run now d = (let (on, d') = DetectorEnabled key d in if on then run now d' else d')"

locale detector =
  fixes run :: "gotime \<Rightarrow> db \<Rightarrow> db"
    and reason :: "gotime \<Rightarrow> tables \<Rightarrow> AlertRecord \<Rightarrow> bool"
  assumes run_raises: "raises (reason now (tbl d)) (tbl d) (tbl (run now d))"
begin

lemma run_wf: "wf_tables (tbl d) \<Longrightarrow> wf_tables (tbl (run now d))"
  using run_raises [of now d] by (simp add: raises_def)

lemma run_spaced: "spaced (alert_recs (tbl d)) \<Longrightarrow> spaced (alert_recs (tbl (run now d)))"
  using run_raises [of now d] by (simp add: raises_def)

lemma run_frame: "same_but_alerts (tbl d) (tbl (run now d))"
  using run_raises [of now d] by (simp add: raises_def)

lemma run_sound:
  "a \<in> set (alerts (tbl (run now d))) \<Longrightarrow> a \<in> set (alerts (tbl d)) \<or> reason now (tbl d) (ar_rec a)"
  using run_raises [of now d] by (auto simp: raises_def)

lemma run_gated:
  "raises (\<lambda>_. True) (tbl d) (tbl (gated key run now d))"
proof -
  obtain on d' where e: "DetectorEnabled key d = (on, d')" by (cases "DetectorEnabled key d")
  have "tbl d' = tbl d"
    using e by (rule DetectorEnabled_tbl)
  then show ?thesis using e run_raises [of now d'] by (auto simp: gated_def intro: raises_mono)
qed

end

end
