(* ===== verification/Detect_Flows.thy ===== *)
theory Detect_Flows
  imports Detect_Core
begin

text \<open>
  The detectors over \<open>flows_recent\<close> that keep no state of their own: \<open>port_scan.go\<close> and
  \<open>exfil.go\<close>. Both are shown to meet the contract \<open>detector\<close> (their alerts are sound), and to
  be complete when the driver does not fail.
\<close>

section \<open>port_scan.go\<close>

definition PortScanWindow :: duration where "PortScanWindow = 2 * Minute"
definition portScanPortsPerTargetThreshold :: int where "portScanPortsPerTargetThreshold = 15"
definition portScanDetailPortCap :: nat where "portScanDetailPortCap = 50"
definition portScanCooldown :: duration where "portScanCooldown = 15 * Minute"

record portScanCheck =
  pc_direction :: int
  pc_countLocalPort :: bool
  pc_dedupePrefix :: string
  pc_buildSummary :: "string \<Rightarrow> string \<Rightarrow> int \<Rightarrow> string"
  pc_detailDir :: string

definition portScanChecks :: "portScanCheck list" where
  "portScanChecks =
     [\<lparr>pc_direction = DirLANToWAN, pc_countLocalPort = False, pc_dedupePrefix = ''wan_out:'',
       pc_buildSummary = (\<lambda>h ip n. h @ '' (this device) probed '' @ Itoa n @ '' distinct ports on '' @ ip @ '' ''
          @ em_dash @ '' outbound scan initiated by this host''),
       pc_detailDir = ''outbound''\<rparr>,
      \<lparr>pc_direction = DirLANOut, pc_countLocalPort = False, pc_dedupePrefix = ''lan_out:'',
       pc_buildSummary = (\<lambda>h ip n. h @ '' (this device) probed '' @ Itoa n @ '' distinct ports on LAN peer '' @ ip @ '' ''
          @ em_dash @ '' outbound scan initiated by this host''),
       pc_detailDir = ''outbound''\<rparr>,
      \<lparr>pc_direction = DirLANIn, pc_countLocalPort = True, pc_dedupePrefix = ''lan_in:'',
       pc_buildSummary = (\<lambda>h ip n. h @ '' was probed on '' @ Itoa n @ '' distinct ports by '' @ ip @ '' ''
          @ em_dash @ '' another device on the LAN scanned this host (not the other way around)''),
       pc_detailDir = ''inbound''\<rparr>]"

definition parsePortsCSV :: "string \<Rightarrow> int list" where
  "parsePortsCSV csv =
     (if csv = [] then [] else sort (List.map_filter (\<lambda>p. Atoi (TrimSpace p)) (split_on (CHR '','') csv)))"

definition port_scan_target :: "(real \<Rightarrow> string) \<Rightarrow> portScanCheck \<Rightarrow> int \<Rightarrow> TargetPortScan \<Rightarrow> host_cache \<times> db \<Rightarrow> host_cache \<times> db" where
  "port_scan_target ff check nowUnix t s =
     with_host (ts_host t) (\<lambda>host (cache, d).
       let ports = parsePortsCSV (ts_csv t);
           truncated = portScanDetailPortCap < length ports;
           shown = (if truncated then take portScanDetailPortCap ports else ports);
           summary = pc_buildSummary check (hostLabel host) (ts_rip t) (ts_count t);
           detail = [(''direction'', JStr (pc_detailDir check)), (''port_count'', JInt (ts_count t)),
                     (''ports'', JInts shown), (''ports_truncated'', JBool truncated),
                     (''remote_ip'', JStr (ts_rip t)), (''window_seconds'', JInt (DurSeconds PortScanWindow))]
       in (cache, raiseAlert ff (ts_host t) AlertKindPortScan SeverityCritical summary (Some detail)
                    (pc_dedupePrefix check @ ts_rip t) nowUnix (nowUnix - DurSeconds portScanCooldown) d)) s"

definition port_scan_check :: "(real \<Rightarrow> string) \<Rightarrow> int \<Rightarrow> portScanCheck \<Rightarrow> host_cache \<times> db \<Rightarrow> host_cache \<times> db" where
  "port_scan_check ff nowUnix check s =
     (case s of (cache, d) \<Rightarrow>
        (case HostTargetPortScans (nowUnix - DurSeconds PortScanWindow) nowUnix (pc_direction check)
                (pc_countLocalPort check) portScanPortsPerTargetThreshold d of
           (Inl _, d') \<Rightarrow> (cache, d')
         | (Inr targets, d') \<Rightarrow> fold (port_scan_target ff check nowUnix) targets (cache, d')))"

definition PortScan :: "(real \<Rightarrow> string) \<Rightarrow> gotime \<Rightarrow> db \<Rightarrow> db" where
  "PortScan ff now d = snd (fold (port_scan_check ff (Unix now)) portScanChecks (Map.empty, d))"

text \<open>The ports of one peer relationship in the window.\<close>

definition scan_ports :: "bool \<Rightarrow> int \<Rightarrow> int \<Rightarrow> string \<Rightarrow> int \<Rightarrow> tables \<Rightarrow> int set" where
  "scan_ports local dir h ip nowUnix t =
     scan_port local ` {f \<in> set (flows_recent t). f_host f = h \<and> f_rip f = ip \<and> f_dir f = dir
                                                    \<and> in_window (nowUnix - 120) nowUnix f}"

definition port_scan_reason :: "gotime \<Rightarrow> tables \<Rightarrow> AlertRecord \<Rightarrow> bool" where
  "port_scan_reason now t a \<longleftrightarrow>
     al_kind a = AlertKindPortScan \<and> al_detected a = Unix now
     \<and> (\<exists>check \<in> set portScanChecks. \<exists>ip. al_dedupe a = pc_dedupePrefix check @ ip
          \<and> 15 \<le> card (scan_ports (pc_countLocalPort check) (pc_direction check) (al_host a) ip (Unix now) t))"

lemma port_scan_row:
  assumes "s \<in> set (host_target_port_scans (n - 120) n dir local 15 t)"
  shows "15 \<le> card (scan_ports local dir (ts_host s) (ts_rip s) n t)"
proof -
  let ?rows = "filter (\<lambda>f. f_dir f = dir \<and> in_window (n - 120) n f) (flows_recent t)"
  obtain g where g: "g \<in> set (group_by (\<lambda>f. (f_host f, f_rip f)) ?rows)"
    and s: "ts_host s = fst (fst g)" "ts_rip s = snd (fst g)"
      "ts_count s = int (length (remdups (map (scan_port local) (snd g))))" "15 \<le> ts_count s"
    using assms unfolding host_target_port_scans_def Let_def by auto
  have "snd g = filter (\<lambda>f. (f_host f, f_rip f) = fst g) ?rows"
    using g group_by_mem [of "fst g" "snd g"] by simp
  then have "set (map (scan_port local) (snd g)) = scan_ports local dir (ts_host s) (ts_rip s) n t"
    by (auto simp: scan_ports_def prod_eq_iff s(1,2))
  then show ?thesis using s(3,4) by (simp add: length_remdups_card_conv)
qed

lemma port_scan_row_exists:
  assumes "15 \<le> card (scan_ports local dir h ip n t)"
  shows "\<exists>s \<in> set (host_target_port_scans (n - 120) n dir local 15 t). ts_host s = h \<and> ts_rip s = ip"
proof -
  let ?rows = "filter (\<lambda>f. f_dir f = dir \<and> in_window (n - 120) n f) (flows_recent t)"
  let ?grp = "filter (\<lambda>f. (f_host f, f_rip f) = (h, ip)) ?rows"
  have set: "set (map (scan_port local) ?grp) = scan_ports local dir h ip n t"
    by (auto simp: scan_ports_def)
  then have "15 \<le> length (remdups (map (scan_port local) ?grp))"
    using assms by (simp add: length_remdups_card_conv)
  moreover have "scan_ports local dir h ip n t \<noteq> {}" using assms by auto
  then have "(h, ip) \<in> (\<lambda>f. (f_host f, f_rip f)) ` set ?rows"
    unfolding set [symmetric] by (auto simp: filter_empty_conv)
  then have "((h, ip), ?grp) \<in> set (group_by (\<lambda>f. (f_host f, f_rip f)) ?rows)"
    by (simp only: group_by_mem)
  ultimately show ?thesis
    unfolding host_target_port_scans_def Let_def by force
qed

lemma DurSeconds_detect [simp]:
  "DurSeconds PortScanWindow = 120" "DurSeconds portScanCooldown = 900"
  by (simp_all add: PortScanWindow_def portScanCooldown_def go_time)

lemma cooldown_port_scan [simp]: "alert_cooldown AlertKindPortScan u = 900"
  by (simp add: alert_cooldown_def)

lemma raises_port_scan_target:
  assumes "\<And>a. al_host a = ts_host t \<Longrightarrow> al_kind a = AlertKindPortScan \<Longrightarrow> al_dedupe a = pc_dedupePrefix check @ ts_rip t
      \<Longrightarrow> al_detected a = n \<Longrightarrow> P a"
  shows "raises P (tbl (snd s)) (tbl (snd (port_scan_target ff check n t s)))"
  unfolding port_scan_target_def Let_def
  by (rule raises_with_host) (simp only: prod.case snd_conv, rule raises_raiseAlert, simp_all add: assms)

lemma raises_port_scan_check:
  assumes "same_but_alerts t0 (tbl (snd s))" and "check \<in> set portScanChecks"
  shows "raises (port_scan_reason now t0) (tbl (snd s)) (tbl (snd (port_scan_check ff (Unix now) check s)))"
proof -
  obtain c d where s: "s = (c, d)" by (cases s)
  have fl: "flows_recent (tbl d) = flows_recent t0" using assms(1) by (simp add: s same_but_alerts_def)
  let ?q = "HostTargetPortScans (Unix now - 120) (Unix now) (pc_direction check) (pc_countLocalPort check) 15 d"
  obtain r d' where r: "?q = (r, d')" by (cases ?q)
  have d': "tbl d' = tbl d" using r by (auto simp: HostTargetPortScans_def dest: query_tblD)
  show ?thesis
  proof (cases r)
    case (Inl e)
    then show ?thesis using r d' by (simp add: s port_scan_check_def portScanPortsPerTargetThreshold_def)
  next
    case (Inr targets)
    have tg: "targets = host_target_port_scans (Unix now - 120) (Unix now) (pc_direction check) (pc_countLocalPort check) 15 t0"
      using r Inr fl
      by (auto simp: HostTargetPortScans_def query_def host_target_port_scans_def split: prod.splits if_splits)
    have "raises (port_scan_reason now t0) (tbl (snd (c, d'))) (tbl (snd (fold (port_scan_target ff check (Unix now)) targets (c, d'))))"
    proof (intro raises_fold raises_port_scan_target)
      fix x and a :: AlertRecord
      assume "x \<in> set targets" and a: "al_host a = ts_host x" "al_kind a = AlertKindPortScan"
        "al_dedupe a = pc_dedupePrefix check @ ts_rip x" "al_detected a = Unix now"
      then have "15 \<le> card (scan_ports (pc_countLocalPort check) (pc_direction check) (al_host a) (ts_rip x) (Unix now) t0)"
        by (simp add: tg port_scan_row)
      then show "port_scan_reason now t0 a"
        using a assms(2) unfolding port_scan_reason_def by blast
    qed
    then show ?thesis
      using r d' Inr by (simp add: s port_scan_check_def portScanPortsPerTargetThreshold_def)
  qed
qed

lemma raises_same: "raises P t t' \<Longrightarrow> same_but_alerts t t'"
  by (simp add: raises_def)

lemma same_but_alerts_trans: "same_but_alerts t t' \<Longrightarrow> same_but_alerts t' t'' \<Longrightarrow> same_but_alerts t t''"
  by (simp add: same_but_alerts_def)

interpretation port_scan: detector "PortScan ff" port_scan_reason
proof
  fix now :: gotime and d :: db
  have "raises (port_scan_reason now (tbl d)) (tbl (snd s)) (tbl (snd (fold (port_scan_check ff (Unix now)) cs s)))"
    if "same_but_alerts (tbl d) (tbl (snd s))" "set cs \<subseteq> set portScanChecks" for cs s
    using that
  proof (induction cs arbitrary: s)
    case (Cons c cs)
    have 1: "raises (port_scan_reason now (tbl d)) (tbl (snd s)) (tbl (snd (port_scan_check ff (Unix now) c s)))"
      using Cons.prems by (intro raises_port_scan_check) auto
    moreover have "same_but_alerts (tbl d) (tbl (snd (port_scan_check ff (Unix now) c s)))"
      using Cons.prems(1) raises_same [OF 1] by (rule same_but_alerts_trans)
    ultimately show ?case
      using Cons.IH [of "port_scan_check ff (Unix now) c s"] Cons.prems(2) raises_trans [OF 1] by simp
  qed simp
  from this [of "(Map.empty, d)" portScanChecks]
  show "raises (port_scan_reason now (tbl d)) (tbl d) (tbl (PortScan ff now d))"
    by (simp add: PortScan_def same_but_alerts_def)
qed

lemma port_scan_targets_ok:
  assumes "det_inv t0 s" and "\<forall>t \<in> set targets. ts_host t \<in> host_ids t0"
  shows "det_inv t0 (fold (port_scan_target ff check n) targets s)
    \<and> (\<forall>t \<in> set targets. alerted (tbl (snd (fold (port_scan_target ff check n) targets s)))
         (ts_host t) AlertKindPortScan (pc_dedupePrefix check @ ts_rip t) (n - 900))"
proof (rule fold_each [where I = "det_inv t0"])
  fix t s
  assume "t \<in> set targets" "det_inv t0 s"
  then show "det_inv t0 (port_scan_target ff check n t s) \<and> alerted (tbl (snd (port_scan_target ff check n t s)))
      (ts_host t) AlertKindPortScan (pc_dedupePrefix check @ ts_rip t) (n - 900)"
    using assms(2) unfolding port_scan_target_def Let_def by (intro conjI det_inv_with_host) auto
next
  fix t t' and s :: "host_cache \<times> db"
  assume "alerted (tbl (snd s)) (ts_host t) AlertKindPortScan (pc_dedupePrefix check @ ts_rip t) (n - 900)"
  then show "alerted (tbl (snd (port_scan_target ff check n t' s)))
      (ts_host t) AlertKindPortScan (pc_dedupePrefix check @ ts_rip t) (n - 900)"
    by (rule alerted_raises [OF raises_port_scan_target, rotated]) simp
qed (rule assms(1))


lemma wf_flow_hosts: "wf_tables t \<Longrightarrow> f \<in> set (flows_recent t) \<Longrightarrow> f_host f \<in> host_ids t"
  by (simp add: wf_defs)

lemma target_hosts:
  assumes "wf_tables t" and "s \<in> set (host_target_port_scans a n dir local m t)"
  shows "ts_host s \<in> host_ids t"
  using assms unfolding host_target_port_scans_def Let_def by (auto simp: group_by_def wf_flow_hosts)

lemma port_scan_check_ok:
  assumes "det_inv t0 s" and "wf_tables t0"
  shows "det_inv t0 (port_scan_check ff n check s)
    \<and> (\<forall>h ip. 15 \<le> card (scan_ports (pc_countLocalPort check) (pc_direction check) h ip n t0) \<longrightarrow>
         alerted (tbl (snd (port_scan_check ff n check s))) h AlertKindPortScan (pc_dedupePrefix check @ ip) (n - 900))"
proof -
  let ?ts = "host_target_port_scans (n - 120) n (pc_direction check) (pc_countLocalPort check) 15 t0"
  have "flows_recent (tbl (snd s)) = flows_recent t0"
    using assms(1) by (simp add: det_inv_def raises_def same_but_alerts_def)
  then have "port_scan_check ff n check s = fold (port_scan_target ff check n) ?ts s"
    using det_inv_faults [OF assms(1)]
    by (cases s) (simp add: port_scan_check_def HostTargetPortScans_def portScanPortsPerTargetThreshold_def
        host_target_port_scans_def)
  then show ?thesis
    using port_scan_targets_ok [OF assms(1), of ?ts] target_hosts [OF assms(2)] port_scan_row_exists by metis
qed

lemma raises_check: "raises (\<lambda>_. True) (tbl (snd s)) (tbl (snd (port_scan_check ff n check s)))"
proof -
  obtain c d where s: "s = (c, d)" by (cases s)
  have *: "raises (\<lambda>_. True) (tbl d') (tbl (snd (fold (port_scan_target ff check n) ts (c, d'))))" for ts d'
    using raises_fold [where s = "(c, d')"] raises_port_scan_target by (metis snd_conv)
  obtain r d' where q: "HostTargetPortScans (n - DurSeconds PortScanWindow) n (pc_direction check) (pc_countLocalPort check)
      portScanPortsPerTargetThreshold d = (r, d')" by fastforce
  then have "tbl d' = tbl d" by (auto simp: HostTargetPortScans_def dest: query_tblD)
  then show ?thesis using * [of d'] q by (auto simp: s port_scan_check_def split: sum.split)
qed

lemma PortScan_complete:
  assumes "db_faults d = []" and "wf_tables (tbl d)" and "check \<in> set portScanChecks"
    and "15 \<le> card (scan_ports (pc_countLocalPort check) (pc_direction check) h ip (Unix now) (tbl d))"
  shows "alerted (tbl (PortScan ff now d)) h AlertKindPortScan (pc_dedupePrefix check @ ip) (Unix now - 900)"
proof -
  let ?Q = "\<lambda>check s. \<forall>h ip. 15 \<le> card (scan_ports (pc_countLocalPort check) (pc_direction check) h ip (Unix now) (tbl d)) \<longrightarrow>
         alerted (tbl (snd s)) h AlertKindPortScan (pc_dedupePrefix check @ ip) (Unix now - 900)"
  let ?s = "fold (port_scan_check ff (Unix now)) portScanChecks (Map.empty, d)"
  have "det_inv (tbl d) ?s \<and> (\<forall>check \<in> set portScanChecks. ?Q check ?s)"
  proof (rule fold_each)
    show "det_inv (tbl d) (Map.empty, d)" using assms(1) by (rule det_inv_init)
    show "det_inv (tbl d) (port_scan_check ff (Unix now) c s) \<and> ?Q c (port_scan_check ff (Unix now) c s)"
      if "det_inv (tbl d) s" for c s
      using port_scan_check_ok [OF that assms(2)] by blast
    show "?Q c (port_scan_check ff (Unix now) c' s)" if "?Q c s" for c c' s
      using that alerted_raises [OF raises_check] by blast
  qed
  then show ?thesis using assms(3,4) by (simp add: PortScan_def)
qed

lemma Itoa_no_comma: "0 \<le> n \<Longrightarrow> CHR '','' \<notin> set (Itoa n)"
  using Itoa_digits [of n] by (auto simp: list_all_iff dest!: bspec isDigit_not_sep)

lemma Atoi_TrimSpace_Itoa:
  assumes "0 \<le> n" and "n < 2 ^ 63"
  shows "Atoi (TrimSpace (Itoa n)) = Some n"
proof -
  have "TrimSpace (Itoa n) = Itoa n"
    using Itoa_digits [OF assms(1)] by (intro TrimSpace_no_space) (auto simp: list_all_iff dest!: bspec isDigit_not_sep)
  then show ?thesis using ParseInt64_Itoa [of n] assms by simp
qed

text \<open>The ports an alert shows are the ports that were probed: parsing the
  \<open>GROUP_CONCAT\<close> text of any list of port numbers gives back exactly these ports, in ascending
  order.\<close>

theorem parsePortsCSV_group_concat:
  assumes "list_all (\<lambda>p. 0 \<le> p \<and> p \<le> 65535) ports"
  shows "parsePortsCSV (group_concat ports) = sort ports"
proof (cases ports)
  case Nil
  then show ?thesis by (simp add: group_concat_def parsePortsCSV_def)
next
  case (Cons p ps)
  have "split_on (CHR '','') (join_with (CHR '','') (map Itoa ports)) = map Itoa ports"
    using Cons assms by (intro split_on_join) (auto simp: list_all_iff Itoa_no_comma)
  moreover have "group_concat ports \<noteq> []"
    using calculation Cons by (cases ps) (auto simp: group_concat_def Itoa_def)
  moreover have "List.map_filter (\<lambda>p. Atoi (TrimSpace p)) (map Itoa ports) = ports"
    using assms by (induction ports) (auto simp: Atoi_TrimSpace_Itoa List.map_filter_def)
  ultimately show ?thesis by (simp add: parsePortsCSV_def group_concat_def)
qed

theorem parsePortsCSV_group_concat_witness:
  "parsePortsCSV (group_concat [443, 80, 8080]) = [80, 443, 8080]"
  using parsePortsCSV_group_concat [of "[443, 80, 8080]"] by simp


definition scan_flow :: "int \<Rightarrow> FlowRecord" where
  "scan_flow p = \<lparr>f_host = 1, f_dir = DirLANToWAN, f_proto = 6, f_lip = ''10.0.0.1'', f_lport = 40000,
     f_rip = ''1.2.3.4'', f_rport = p, f_first = 90, f_last = 100, f_sent = 60, f_recv = 0, f_psent = 1, f_precv = 0\<rparr>"

definition scan_demo :: db where
  "scan_demo = \<lparr>tbl = empty_tables
     \<lparr>hosts := [\<lparr>h_id = 1, h_ip = ''10.0.0.1'', h_display = None, h_mac = None, h_first = 0, h_last = 100\<rparr>],
      host_seq := 2,
      flows_recent := map scan_flow [1..15]\<rparr>,
     db_faults = []\<rparr>"


section \<open>exfil.go\<close>

definition ExfilWindow :: duration where "ExfilWindow = 1 * Hour"
definition exfilMinBytesSent :: int where "exfilMinBytesSent = 20 * 1024 * 1024"
definition exfilRatioThreshold :: real where "exfilRatioThreshold = 5"
definition exfilCooldown :: duration where "exfilCooldown = 6 * Hour"

text \<open>
  \<open>fmtBytesShort\<close>: the loop carries \<open>v\<close>, \<open>div\<close> (an \<open>int64\<close>) and \<open>exp\<close>. The unit
  letter is an indexed access into a string of six bytes.
\<close>

function byte_unit :: "int \<Rightarrow> int \<Rightarrow> nat \<Rightarrow> int \<times> nat" where
  "byte_unit v dv ex = (if 1024 \<le> v then byte_unit (v div 1024) (int64 (dv * 1024)) (ex + 1) else (dv, ex))"
  by pat_completeness auto
termination
  by (relation "measure (\<lambda>(v, _, _). nat v)") auto

declare byte_unit.simps [simp del]

definition fmtBytesShort :: "int \<Rightarrow> string" where
  "fmtBytesShort n =
     (if n < 1024 then Itoa n @ ''B''
      else let (dv, ex) = byte_unit (n div 1024) 1024 0
           in fmt_f1 (of_int n / of_int dv) @ [''KMGTPE'' ! ex] @ ''iB'')"

definition exfil_ratio :: "HostByteTotals \<Rightarrow> real" where
  "exfil_ratio t = (if 0 < bt_recv t then of_int (bt_sent t) / of_int (bt_recv t) else exfilRatioThreshold + 1)"

definition exfil_alert :: "(real \<Rightarrow> string) \<Rightarrow> int \<Rightarrow> HostByteTotals \<Rightarrow> Host \<Rightarrow> db \<Rightarrow> db" where
  "exfil_alert ff nowUnix t host =
     raiseAlert ff (bt_host t) AlertKindExfilRatio SeverityWarning
       (hostLabel host @ '' sent '' @ fmtBytesShort (bt_sent t) @ '' but only received '' @ fmtBytesShort (bt_recv t)
          @ '' over the last hour (ratio '' @ fmt_f1 (exfil_ratio t) @ ''x)'')
       (Some [(''bytes_recv'', JInt (bt_recv t)), (''bytes_sent'', JInt (bt_sent t)), (''ratio'', JFloat (exfil_ratio t))])
       ''outbound_ratio'' nowUnix (nowUnix - DurSeconds exfilCooldown)"

definition exfil_step :: "(real \<Rightarrow> string) \<Rightarrow> int \<Rightarrow> HostByteTotals \<Rightarrow> db \<Rightarrow> db" where
  "exfil_step ff nowUnix t d =
     (if bt_sent t < exfilMinBytesSent then d
      else if exfil_ratio t < exfilRatioThreshold then d
      else with_host_row (bt_host t) (exfil_alert ff nowUnix t) d)"

definition ExfilRatio :: "(real \<Rightarrow> string) \<Rightarrow> gotime \<Rightarrow> db \<Rightarrow> db" where
  "ExfilRatio ff now d =
     (case HostOutboundTotals (Unix now - DurSeconds ExfilWindow) (Unix now) d of
        (Inl _, d') \<Rightarrow> d'
      | (Inr totals, d') \<Rightarrow> fold (exfil_step ff (Unix now)) totals d')"

definition exfil_suspicious :: "HostByteTotals \<Rightarrow> bool" where
  "exfil_suspicious t \<longleftrightarrow> exfilMinBytesSent \<le> bt_sent t \<and> (0 < bt_recv t \<longrightarrow> 5 * bt_recv t \<le> bt_sent t)"

lemma exfil_suspicious_iff:
  "exfil_suspicious t \<longleftrightarrow> \<not> bt_sent t < exfilMinBytesSent \<and> \<not> exfil_ratio t < exfilRatioThreshold"
proof (cases "0 < bt_recv t")
  case True
  have "exfil_ratio t < exfilRatioThreshold \<longleftrightarrow> real_of_int (bt_sent t) < 5 * real_of_int (bt_recv t)"
    using True by (simp add: exfil_ratio_def exfilRatioThreshold_def divide_less_eq)
  also have "\<dots> \<longleftrightarrow> bt_sent t < 5 * bt_recv t" by linarith
  finally show ?thesis using True by (auto simp: exfil_suspicious_def)
next
  case False
  then show ?thesis by (auto simp: exfil_suspicious_def exfil_ratio_def)
qed

definition exfil_reason :: "gotime \<Rightarrow> tables \<Rightarrow> AlertRecord \<Rightarrow> bool" where
  "exfil_reason now t a \<longleftrightarrow>
     al_kind a = AlertKindExfilRatio \<and> al_dedupe a = ''outbound_ratio'' \<and> al_detected a = Unix now
     \<and> (\<exists>b \<in> set (host_outbound_totals (Unix now - 3600) (Unix now) t). bt_host b = al_host a \<and> exfil_suspicious b)"

lemma DurSeconds_exfil [simp]: "DurSeconds ExfilWindow = 3600" "DurSeconds exfilCooldown = 21600"
  by (simp_all add: ExfilWindow_def exfilCooldown_def go_time)

lemma cooldown_exfil [simp]: "alert_cooldown AlertKindExfilRatio u = 21600"
  by (simp add: alert_cooldown_def kind_defs)

lemma raises_exfil_step:
  assumes "exfil_suspicious t \<Longrightarrow> (\<And>a. al_host a = bt_host t \<Longrightarrow> al_kind a = AlertKindExfilRatio
      \<Longrightarrow> al_dedupe a = ''outbound_ratio'' \<Longrightarrow> al_detected a = n \<Longrightarrow> P a)"
  shows "raises P (tbl d) (tbl (exfil_step ff n t d))"
proof (cases "exfil_suspicious t")
  case True
  have "raises P (tbl d) (tbl (exfil_alert ff n t h d))" for h d
    unfolding exfil_alert_def by (rule raises_raiseAlert) (simp_all add: assms [OF True])
  then show ?thesis using True by (simp add: exfil_step_def exfil_suspicious_iff raises_with_host_row)
next
  case False
  then have "exfil_step ff n t d = d" by (auto simp: exfil_step_def exfil_suspicious_iff)
  then show ?thesis by simp
qed

interpretation exfil: detector "ExfilRatio ff" exfil_reason
proof
  fix now :: gotime and d :: db
  obtain r d' where r: "HostOutboundTotals (Unix now - 3600) (Unix now) d = (r, d')" by fastforce
  then have d': "tbl d' = tbl d" by (auto simp: HostOutboundTotals_def dest: query_tblD)
  show "raises (exfil_reason now (tbl d)) (tbl d) (tbl (ExfilRatio ff now d))"
  proof (cases r)
    case (Inr totals)
    then have tot: "totals = host_outbound_totals (Unix now - 3600) (Unix now) (tbl d)"
      using r by (auto simp: HostOutboundTotals_def query_def split: prod.splits if_splits)
    have "raises (exfil_reason now (tbl d)) (tbl d') (tbl (fold (exfil_step ff (Unix now)) totals d'))"
    proof (intro raises_fold_db raises_exfil_step)
      fix b and a :: AlertRecord
      assume "b \<in> set totals" "exfil_suspicious b" "al_host a = bt_host b" "al_kind a = AlertKindExfilRatio"
        "al_dedupe a = ''outbound_ratio''" "al_detected a = Unix now"
      then show "exfil_reason now (tbl d) a" unfolding exfil_reason_def tot by auto
    qed
    then show ?thesis using r Inr d' by (simp add: ExfilRatio_def)
  qed (use r d' in \<open>simp add: ExfilRatio_def\<close>)
qed

lemma outbound_hosts: "wf_tables t \<Longrightarrow> b \<in> set (host_outbound_totals a n t) \<Longrightarrow> bt_host b \<in> host_ids t"
  by (auto simp: host_outbound_totals_def group_by_def wf_flow_hosts)

lemma exfil_step_ok:
  assumes "det_inv t0 (Map.empty, d)" and "bt_host b \<in> host_ids t0"
  shows "det_inv t0 (Map.empty, exfil_step ff n b d)
    \<and> (exfil_suspicious b \<longrightarrow> alerted (tbl (exfil_step ff n b d)) (bt_host b) AlertKindExfilRatio ''outbound_ratio'' (n - 21600))"
proof (cases "exfil_suspicious b")
  case True
  obtain h where "with_host_row (bt_host b) (exfil_alert ff n b) d = exfil_alert ff n b h d"
    using assms det_inv_faults [OF assms(1)] det_inv_hosts [OF assms(1)] by (auto elim!: with_host_row_ok [of d "bt_host b"])
  then have "exfil_step ff n b d = exfil_alert ff n b h d"
    using True by (simp add: exfil_step_def exfil_suspicious_iff)
  then show ?thesis
    using det_inv_raise [OF assms, of "n - 21600" n AlertKindExfilRatio "''outbound_ratio''"] by (simp add: exfil_alert_def)
next
  case False
  then have "exfil_step ff n b d = d" by (auto simp: exfil_step_def exfil_suspicious_iff)
  with assms(1) False show ?thesis by simp
qed

lemma ExfilRatio_complete:
  assumes "db_faults d = []" and "wf_tables (tbl d)"
    and "b \<in> set (host_outbound_totals (Unix now - 3600) (Unix now) (tbl d))" and "exfil_suspicious b"
  shows "alerted (tbl (ExfilRatio ff now d)) (bt_host b) AlertKindExfilRatio ''outbound_ratio'' (Unix now - 21600)"
proof -
  let ?tot = "host_outbound_totals (Unix now - 3600) (Unix now) (tbl d)"
  let ?Q = "\<lambda>b d. exfil_suspicious b \<longrightarrow> alerted (tbl d) (bt_host b) AlertKindExfilRatio ''outbound_ratio'' (Unix now - 21600)"
  have "det_inv (tbl d) (Map.empty, fold (exfil_step ff (Unix now)) ?tot d) \<and> (\<forall>b \<in> set ?tot. ?Q b (fold (exfil_step ff (Unix now)) ?tot d))"
  proof (rule fold_each)
    show "det_inv (tbl d) (Map.empty, d)" using assms(1) by (rule det_inv_init)
    show "det_inv (tbl d) (Map.empty, exfil_step ff (Unix now) b d') \<and> ?Q b (exfil_step ff (Unix now) b d')"
      if "b \<in> set ?tot" "det_inv (tbl d) (Map.empty, d')" for b d'
      using exfil_step_ok [OF that(2)] outbound_hosts [OF assms(2) that(1)] by blast
    show "?Q b (exfil_step ff (Unix now) b' d')" if "?Q b d'" for b b' d'
      using that alerted_raises [OF raises_exfil_step [where P = "\<lambda>_. True"]] by blast
  qed
  then show ?thesis using assms(1,3,4) by (simp add: ExfilRatio_def HostOutboundTotals_def)
qed


definition exfil_demo :: db where
  "exfil_demo = \<lparr>tbl = empty_tables
     \<lparr>hosts := [\<lparr>h_id = 1, h_ip = ''10.0.0.1'', h_display = None, h_mac = None, h_first = 0, h_last = 100\<rparr>],
      host_seq := 2,
      flows_recent :=
        [\<lparr>f_host = 1, f_dir = DirLANToWAN, f_proto = 6, f_lip = ''10.0.0.1'', f_lport = 40000, f_rip = ''1.2.3.4'', f_rport = 443,
          f_first = 90, f_last = 100, f_sent = 30000000, f_recv = 0, f_psent = 1, f_precv = 0\<rparr>,
         \<lparr>f_host = 1, f_dir = DirWANToLAN, f_proto = 6, f_lip = ''10.0.0.1'', f_lport = 40000, f_rip = ''1.2.3.4'', f_rport = 443,
          f_first = 90, f_last = 100, f_sent = 0, f_recv = 3000000000, f_psent = 0, f_precv = 1\<rparr>]\<rparr>,
     db_faults = []\<rparr>"

lemma exfil_demo_wf: "wf_tables (tbl exfil_demo)" "db_faults exfil_demo = []"
  by (auto simp: exfil_demo_def wf_defs host_ids_def empty_tables_def)

lemma exfil_demo_totals:
  "host_outbound_totals (- 3500) 100 (tbl exfil_demo) = [\<lparr>bt_host = 1, bt_sent = 30000000, bt_recv = 0\<rparr>]"
  by code_simp


lemma outbound_totals_iff:
  fixes t n a h
  defines "g \<equiv> filter (\<lambda>f. f_host f = h \<and> f_dir f = DirLANToWAN \<and> in_window a n f) (flows_recent t)"
  shows "b \<in> set (host_outbound_totals a n t) \<and> bt_host b = h \<longleftrightarrow>
    g \<noteq> [] \<and> b = \<lparr>bt_host = h, bt_sent = sum_list (map f_sent g), bt_recv = sum_list (map f_recv g)\<rparr>"
proof -
  let ?rows = "filter (\<lambda>f. f_dir f = DirLANToWAN \<and> in_window a n f) (flows_recent t)"
  have g: "filter (\<lambda>f. f_host f = h) ?rows = g" unfolding g_def by (auto intro: filter_cong)
  have pick: "(\<exists>k \<in> K. b = F k) \<and> bt_host b = h \<longleftrightarrow> h \<in> K \<and> b = F h" if "\<And>k. bt_host (F k) = k" for F K
    using that by auto
  have "b \<in> set (host_outbound_totals a n t) \<longleftrightarrow> (\<exists>k r. (k, r) \<in> set (group_by f_host ?rows)
      \<and> b = \<lparr>bt_host = k, bt_sent = sum_list (map f_sent r), bt_recv = sum_list (map f_recv r)\<rparr>)"
    by (simp add: host_outbound_totals_def image_iff Bex_def)
  then have "b \<in> set (host_outbound_totals a n t) \<longleftrightarrow> (\<exists>k \<in> f_host ` set ?rows. b = \<lparr>bt_host = k,
      bt_sent = sum_list (map f_sent (filter (\<lambda>f. f_host f = k) ?rows)), bt_recv = sum_list (map f_recv (filter (\<lambda>f. f_host f = k) ?rows))\<rparr>)"
    unfolding group_by_mem by blast
  then have "b \<in> set (host_outbound_totals a n t) \<and> bt_host b = h \<longleftrightarrow> h \<in> f_host ` set ?rows
      \<and> b = \<lparr>bt_host = h, bt_sent = sum_list (map f_sent g), bt_recv = sum_list (map f_recv g)\<rparr>"
    using pick [of "\<lambda>k. \<lparr>bt_host = k, bt_sent = sum_list (map f_sent (filter (\<lambda>f. f_host f = k) ?rows)),
      bt_recv = sum_list (map f_recv (filter (\<lambda>f. f_host f = k) ?rows))\<rparr>" "f_host ` set ?rows"] unfolding g [symmetric] by simp
  moreover have "h \<in> f_host ` set ?rows \<longleftrightarrow> g \<noteq> []" unfolding g [symmetric] by (auto simp: filter_empty_conv)
  ultimately show ?thesis by simp
qed

text \<open>The ratio ignores downloads. When outbound rows carry no received bytes (the decoder
  accounts a packet from the LAN as sent only), any host that sent 20 MiB to the Internet in the
  hour is flagged, however much it received on the rows of the other direction.\<close>

theorem exfil_ignores_downloads:
  assumes "db_faults d = []" and "wf_tables (tbl d)"
    and recv: "\<forall>f \<in> set (flows_recent (tbl d)). f_dir f = DirLANToWAN \<longrightarrow> f_recv f = 0"
    and sent: "exfilMinBytesSent \<le> sum_list (map f_sent (filter (\<lambda>f. f_host f = h \<and> f_dir f = DirLANToWAN
                  \<and> in_window (Unix now - 3600) (Unix now) f) (flows_recent (tbl d))))"
  shows "alerted (tbl (ExfilRatio ff now d)) h AlertKindExfilRatio ''outbound_ratio'' (Unix now - 21600)"
proof -
  let ?g = "filter (\<lambda>f. f_host f = h \<and> f_dir f = DirLANToWAN \<and> in_window (Unix now - 3600) (Unix now) f) (flows_recent (tbl d))"
  let ?b = "\<lparr>bt_host = h, bt_sent = sum_list (map f_sent ?g), bt_recv = sum_list (map f_recv ?g)\<rparr>"
  have "?g \<noteq> []" using sent by (auto simp: exfilMinBytesSent_def)
  then have b: "?b \<in> set (host_outbound_totals (Unix now - 3600) (Unix now) (tbl d))"
    using outbound_totals_iff [of ?b "Unix now - 3600" "Unix now" "tbl d" h] by simp
  have "sum_list (map f_recv ?g) = 0" using recv by (intro sum_list_map_zero) auto
  then have "exfil_suspicious ?b" using sent by (simp add: exfil_suspicious_def)
  from ExfilRatio_complete [OF assms(1,2) b this] show ?thesis by simp
qed

theorem exfil_ignores_downloads_witness:
  "alerted (tbl (ExfilRatio (\<lambda>_. []) 100000000000 exfil_demo)) 1 AlertKindExfilRatio ''outbound_ratio'' (- 21500)
   \<and> sum_list (map f_recv (flows_recent (tbl exfil_demo))) = 3000000000"
  using exfil_ignores_downloads [of exfil_demo 1 100000000000 "\<lambda>_. []"] exfil_demo_wf
  by (simp add: Unix_def exfil_demo_def exfilMinBytesSent_def in_window_def dir_defs)

lemma byte_unit_spec:
  assumes "0 \<le> v" and "v < 1024 ^ (k + 1)" and "ex + k \<le> 5" and "dv = 1024 ^ (ex + 1)"
  shows "\<exists>e \<le> 5. byte_unit v dv ex = (1024 ^ (e + 1), e) \<and> ex \<le> e"
  using assms
proof (induction k arbitrary: v dv ex)
  case 0
  then show ?case by (auto simp: byte_unit.simps [of v])
next
  case (Suc k)
  show ?case
  proof (cases "1024 \<le> v")
    case True
    have "(1024 :: int) ^ (ex + 2) \<le> 1024 ^ 6"
      using Suc.prems(3) by (intro power_increasing) auto
    then have "int64 (dv * 1024) = 1024 ^ (ex + 1 + 1)"
      using Suc.prems(4) order_trans [of "- 8796093022208" 0 "1024 ^ ex :: int"]
      by (subst int64_id) (auto simp: power_add)
    moreover have "v div 1024 < 1024 ^ (k + 1)"
      using Suc.prems(2) using mult_le_iff_le_div [of 1024 "1024 ^ (k + 1)" v] by (simp add: not_le [symmetric] mult.commute)
    moreover have "0 \<le> v div 1024" using True by simp
    ultimately obtain e where "e \<le> 5" "byte_unit (v div 1024) (int64 (dv * 1024)) (ex + 1) = (1024 ^ (e + 1), e)" "ex + 1 \<le> e"
      using Suc.IH [of "v div 1024" "ex + 1" "1024 ^ (ex + 1 + 1)"] Suc.prems(3) by auto
    then show ?thesis
      using True byte_unit.simps [of v dv ex] by (intro exI [of _ e]) simp
  qed (use Suc.prems in \<open>auto simp: byte_unit.simps [of v]\<close>)
qed


lemma byte_unit_int64:
  assumes "1024 \<le> n" and "n < 2 ^ 63"
  shows "\<exists>e \<le> 5. byte_unit (n div 1024) 1024 0 = (1024 ^ (e + 1), e)"
proof -
  have "n div 1024 < 1024 ^ 6"
    using assms(2) mult_le_iff_le_div [of 1024 "1024 ^ 6" n] by (simp add: not_le [symmetric])
  then show ?thesis using byte_unit_spec [of "n div 1024" 5 0 1024] assms(1) by auto
qed

text \<open>\<open>fmtBytesShort\<close> stays inside its table of unit letters for every \<open>int64\<close>, and its
  divisor is the matching power of 1024, without overflow.\<close>

theorem fmtBytesShort_unit_in_range:
  assumes "n < 2 ^ 63"
  shows "n < 1024 \<and> fmtBytesShort n = Itoa n @ ''B''
         \<or> (\<exists>e < length ''KMGTPE''. 1024 \<le> n \<and> fmtBytesShort n = fmt_f1 (of_int n / 1024 ^ (e + 1)) @ [''KMGTPE'' ! e] @ ''iB'')"
proof (cases "n < 1024")
  case False
  then obtain e where e: "e \<le> 5" "byte_unit (n div 1024) 1024 0 = (1024 ^ (e + 1), e)"
    using byte_unit_int64 [of n] assms by auto
  then show ?thesis using False by (auto simp: fmtBytesShort_def intro!: exI [of _ e])
qed (simp add: fmtBytesShort_def)

theorem fmtBytesShort_unit_in_range_witness:
  "\<exists>e < length ''KMGTPE''. fmtBytesShort 9223372036854775807 = fmt_f1 (of_int 9223372036854775807 / 1024 ^ (e + 1)) @ [''KMGTPE'' ! e] @ ''iB''"
  using fmtBytesShort_unit_in_range [of 9223372036854775807] by auto

end
