(* ===== verification/GeoIP.thy ===== *)
theory GeoIP
  imports Go_Net
begin

text \<open>
  The embedded IPv4-to-country table: \<open>internal/geoip/geoip.go\<close>, which parses the fixed-width
  file and looks addresses up by binary search, and \<open>tools/geoip-gen/main.go\<close>, which
  builds that file from the registries' allocation lists (parse, stable sort, resolve overlaps,
  write). The specification of both is \<open>claim\<close>: the country of the first record, in table
  order, whose range holds the address. The locale \<open>table_source\<close> is the interface
  between them: whatever builds the table promises an ordered one, and the lookup is proved
  against that promise alone.
\<close>

section \<open>Records and the lookup (internal/geoip)\<close>

record geo_record =
  r_start :: "32 word"
  r_end :: "32 word"
  r_cc :: string

definition recordSize :: nat where
  "recordSize = 10"

definition byte_char :: "byte \<Rightarrow> char" where
  "byte_char b = char_of (unat b)"

definition char_byte :: "char \<Rightarrow> byte" where
  "char_byte c = of_nat (of_char c)"

definition parse_record :: "byte list \<Rightarrow> nat \<Rightarrow> geo_record" where
  "parse_record data i =
     (let off = i * recordSize
      in \<lparr>r_start = be_uint32 (take 4 (drop off data)),
          r_end = be_uint32 (take 4 (drop (off + 4) data)),
          r_cc = map byte_char (take 2 (drop (off + 8) data))\<rparr>)"

definition parseTable :: "byte list \<Rightarrow> geo_record list" where
  "parseTable data = map (parse_record data) [0 ..< length data div recordSize]"

text \<open>\<open>sort.Search\<close>: the loop keeps \<open>f (i-1) = false\<close> and \<open>f j = true\<close>.\<close>

function search_loop :: "(nat \<Rightarrow> bool) \<Rightarrow> nat \<Rightarrow> nat \<Rightarrow> nat" where
  "search_loop f i j =
     (if i < j then
        (let h = (i + j) div 2
         in if \<not> f h then search_loop f (h + 1) j else search_loop f i h)
      else i)"
  by pat_completeness auto
termination
  by (relation "measure (\<lambda>(f, i, j). j - i)") auto

declare search_loop.simps [simp del]

definition sort_Search :: "nat \<Rightarrow> (nat \<Rightarrow> bool) \<Rightarrow> nat" where
  "sort_Search n f = search_loop f 0 n"

definition CountryForIP :: "geo_record list \<Rightarrow> ip \<Rightarrow> string option" where
  "CountryForIP tbl a =
     (case To4 a of
        None \<Rightarrow> None
      | Some ip4 \<Rightarrow>
          (let target = be_uint32 ip4;
               i = sort_Search (length tbl) (\<lambda>i. target \<le> r_end (tbl ! i))
           in if i < length tbl \<and> r_start (tbl ! i) \<le> target then Some (r_cc (tbl ! i)) else None))"

section \<open>The generator (tools/geoip-gen)\<close>

text \<open>One line of a registry's file; \<^const>\<open>None\<close> where the loop \<open>continue\<close>s.\<close>

definition parse_line :: "string \<Rightarrow> geo_record option" where
  "parse_line line =
     (if line = [] \<or> HasPrefix line ''#'' then None
      else
        (let fields = split_on CHR ''|'' line
         in if length fields < 7 then None
            else
              (let cc = fields ! 1; typ = fields ! 2; startStr = fields ! 3;
                   countStr = fields ! 4; status = fields ! 6
               in if typ \<noteq> ''ipv4'' then None
                  else if status \<noteq> ''allocated'' \<and> status \<noteq> ''assigned'' then None
                  else if length cc \<noteq> 2 then None
                  else
                    (case Option.bind (ParseIP startStr) To4 of
                       None \<Rightarrow> None
                     | Some a \<Rightarrow>
                         (case ParseUint 32 countStr of
                            None \<Rightarrow> None
                          | Some cnt \<Rightarrow>
                              if cnt = 0 then None
                              else Some \<lparr>r_start = be_uint32 a,
                                         r_end = be_uint32 a + of_nat cnt - 1,
                                         r_cc = cc\<rparr>)))))"

text \<open>The scanner hands over the lines it could read and, at the end, its error if any.\<close>

definition parseDelegatedExtended :: "string list \<Rightarrow> bool \<Rightarrow> geo_record list \<times> bool" where
  "parseDelegatedExtended lines scan_err = (List.map_filter parse_line lines, scan_err)"

fun resolve_loop :: "geo_record \<Rightarrow> geo_record list \<Rightarrow> geo_record list \<Rightarrow> geo_record list" where
  "resolve_loop cur out [] = out @ [cur]"
| "resolve_loop cur out (r # rs) =
     (let trueOverlap = (r_start r \<le> r_end cur)
      in if r_cc r = r_cc cur \<and> r_start r \<le> r_end cur + 1 then
           resolve_loop (if r_end cur < r_end r then cur\<lparr>r_end := r_end r\<rparr> else cur) out rs
         else if \<not> trueOverlap then resolve_loop r (out @ [cur]) rs
         else if r_end cur < r_end r then
           resolve_loop \<lparr>r_start = r_end cur + 1, r_end = r_end r, r_cc = r_cc r\<rparr> (out @ [cur]) rs
         else resolve_loop cur out rs)"

definition resolveOverlapsAndMergeAdjacent :: "geo_record list \<Rightarrow> geo_record list" where
  "resolveOverlapsAndMergeAdjacent srt =
     (case srt of [] \<Rightarrow> [] | cur # rest \<Rightarrow> resolve_loop cur [] rest)"

definition write_record :: "geo_record \<Rightarrow> byte list" where
  "write_record r = put_uint32 (r_start r) @ put_uint32 (r_end r)
     @ [char_byte (r_cc r ! 0), char_byte (r_cc r ! 1)]"

definition writeTable :: "geo_record list \<Rightarrow> byte list" where
  "writeTable rs = concat (map write_record rs)"

text \<open>
  \<open>main\<close>: one fetch result per source, in order; a failed fetch ends the program
  (\<open>log.Fatalf\<close>) before anything is written.
\<close>

fun fetch_all :: "(geo_record list \<times> bool) list \<Rightarrow> geo_record list option" where
  "fetch_all [] = Some []"
| "fetch_all ((recs, err) # rest) =
     (if err then None else map_option ((@) recs) (fetch_all rest))"

definition geoip_gen :: "(geo_record list \<times> bool) list \<Rightarrow> byte list option" where
  "geoip_gen fetched =
     map_option (\<lambda>all. writeTable (resolveOverlapsAndMergeAdjacent (sort_key r_start all)))
       (fetch_all fetched)"

section \<open>Specification\<close>

definition covers :: "geo_record \<Rightarrow> 32 word \<Rightarrow> bool" where
  "covers r a \<longleftrightarrow> r_start r \<le> a \<and> a \<le> r_end r"

definition claim :: "geo_record list \<Rightarrow> 32 word \<Rightarrow> string option" where
  "claim rs a = map_option r_cc (find (\<lambda>r. covers r a) rs)"

definition proper :: "geo_record \<Rightarrow> bool" where
  "proper r \<longleftrightarrow> r_start r \<le> r_end r"

definition ordered_table :: "geo_record list \<Rightarrow> bool" where
  "ordered_table tbl \<longleftrightarrow>
     list_all proper tbl \<and> sorted_wrt (\<lambda>r s. r_end r < r_start s) tbl"

lemma claim_Nil [simp]: "claim [] a = None"
  by (simp add: claim_def)

lemma claim_Cons: "claim (r # rs) a = (if covers r a then Some (r_cc r) else claim rs a)"
  by (simp add: claim_def)

lemma claim_append:
  "claim (xs @ ys) a = (case claim xs a of None \<Rightarrow> claim ys a | Some c \<Rightarrow> Some c)"
  by (induction xs) (auto simp: claim_Cons)

section \<open>Binary search\<close>

definition upward :: "nat \<Rightarrow> (nat \<Rightarrow> bool) \<Rightarrow> bool" where
  "upward n f \<longleftrightarrow> (\<forall>k l. k \<le> l \<longrightarrow> l < n \<longrightarrow> f k \<longrightarrow> f l)"

lemma upwardD: "upward n f \<Longrightarrow> f k \<Longrightarrow> k \<le> l \<Longrightarrow> l < n \<Longrightarrow> f l"
  by (auto simp: upward_def)

lemma search_loop_spec:
  assumes "upward n f" and "i \<le> j" and "j \<le> n"
    and "\<forall>k < i. \<not> f k" and "\<forall>k. j \<le> k \<longrightarrow> k < n \<longrightarrow> f k"
  shows "search_loop f i j \<le> n \<and> (\<forall>k < search_loop f i j. \<not> f k)
         \<and> (\<forall>k. search_loop f i j \<le> k \<longrightarrow> k < n \<longrightarrow> f k)"
  using assms
proof (induction f i j rule: search_loop.induct)
  case (1 f i j)
  define h where "h = (i + j) div 2"
  show ?case
  proof (cases "i < j")
    case False
    then have "search_loop f i j = i"
      by (simp add: search_loop.simps [of f i j])
    with False "1.prems" show ?thesis by simp
  next
    case True
    then have h: "i \<le> h" "h < j" by (auto simp: h_def)
    show ?thesis
    proof (cases "f h")
      case True
      then have eq: "search_loop f i j = search_loop f i h"
        using \<open>i < j\<close> by (subst search_loop.simps) (simp add: h_def Let_def)
      have above: "\<forall>k. h \<le> k \<longrightarrow> k < n \<longrightarrow> f k"
        using upwardD [OF "1.prems"(1) True] by blast
      have "\<not> \<not> f h" and "h \<le> n"
        using True h(2) "1.prems"(3) by simp_all
      then show ?thesis
        unfolding eq using "1.IH"(2) [OF \<open>i < j\<close> h_def _ "1.prems"(1) h(1) _ "1.prems"(4) above] by blast
    next
      case False
      then have eq: "search_loop f i j = search_loop f (h + 1) j"
        using \<open>i < j\<close> by (subst search_loop.simps) (simp add: h_def Let_def)
      have below: "\<forall>k < h + 1. \<not> f k"
        using False upwardD [OF "1.prems"(1), of _ h] h "1.prems"(3) by fastforce
      have "h + 1 \<le> j" using h(2) by simp
      then show ?thesis
        unfolding eq
        by (rule "1.IH"(1) [OF \<open>i < j\<close> h_def False "1.prems"(1) _ "1.prems"(3) below "1.prems"(5)])
    qed
  qed
qed

lemma sort_Search_spec:
  assumes "upward n f"
  shows "sort_Search n f \<le> n" and "k < sort_Search n f \<Longrightarrow> \<not> f k"
    and "sort_Search n f < n \<Longrightarrow> f (sort_Search n f)"
  using search_loop_spec [OF assms, of 0 n] by (auto simp: sort_Search_def)

lemma ordered_table_ends:
  assumes "ordered_table tbl" and "k \<le> l" and "l < length tbl"
  shows "r_end (tbl ! k) \<le> r_end (tbl ! l)"
proof (cases "k = l")
  case False
  with assms have "r_end (tbl ! k) < r_start (tbl ! l)" and "proper (tbl ! l)"
    by (auto simp: ordered_table_def sorted_wrt_iff_nth_less list_all_length)
  then show ?thesis by (simp add: proper_def)
qed simp

lemma find_covers_nth:
  assumes "i < length tbl" and "\<And>k. k < i \<Longrightarrow> \<not> P (tbl ! k)" and "P (tbl ! i)"
  shows "find P tbl = Some (tbl ! i)"
  using assms by (auto simp: find_Some_iff)

lemma CountryForIP_ordered:
  assumes "ordered_table tbl" and "To4 a = Some ip4"
  shows "CountryForIP tbl a = claim tbl (be_uint32 ip4)"
proof -
  define t where "t = be_uint32 ip4"
  define f where "f = (\<lambda>i. t \<le> r_end (tbl ! i))"
  define i where "i = sort_Search (length tbl) f"
  have "upward (length tbl) f"
    using ordered_table_ends [OF assms(1)] by (auto simp: upward_def f_def intro: order_trans)
  note s = sort_Search_spec [OF this, folded i_def]
  have eq: "CountryForIP tbl a =
      (if i < length tbl \<and> r_start (tbl ! i) \<le> t then Some (r_cc (tbl ! i)) else None)"
    using assms(2) by (simp add: CountryForIP_def t_def i_def f_def Let_def)
  have below: "\<not> covers (tbl ! k) t" if "k < i" for k
    using s(2) [OF that] by (simp add: f_def covers_def)
  show ?thesis
  proof (cases "i < length tbl \<and> r_start (tbl ! i) \<le> t")
    case True
    then have "covers (tbl ! i) t"
      using s(3) by (simp add: covers_def f_def)
    then have "find (\<lambda>r. covers r t) tbl = Some (tbl ! i)"
      using True below by (intro find_covers_nth) auto
    then show ?thesis
      using eq True by (simp add: claim_def t_def)
  next
    case False
    have "\<not> covers (tbl ! k) t" if k: "k < length tbl" for k
    proof (cases "k < i")
      case False
      with k have "i < length tbl" by simp
      with \<open>\<not> (i < length tbl \<and> r_start (tbl ! i) \<le> t)\<close> have "t < r_start (tbl ! i)" by auto
      moreover have "r_start (tbl ! i) \<le> r_start (tbl ! k)"
      proof (cases "k = i")
        case False
        with k \<open>\<not> k < i\<close> assms(1) have "r_end (tbl ! i) < r_start (tbl ! k)" and "proper (tbl ! i)"
          by (auto simp: ordered_table_def sorted_wrt_iff_nth_less list_all_length)
        then show ?thesis by (simp add: proper_def)
      qed simp
      ultimately show ?thesis by (auto simp: covers_def)
    qed (rule below)
    then have "find (\<lambda>r. covers r t) tbl = None"
      by (auto simp: find_None_iff in_set_conv_nth)
    then show ?thesis
      using eq False by (auto simp: claim_def t_def)
  qed
qed

section \<open>Resolving overlaps\<close>

lemma word_above_iff: "e < (f :: 32 word) \<Longrightarrow> e + 1 \<le> a \<longleftrightarrow> e < a"
  by uint_arith

lemma word_le_plus1: "(a :: 32 word) \<le> e + 1 \<Longrightarrow> e < b \<Longrightarrow> a \<le> b"
  by uint_arith

definition resolve_inv :: "geo_record list \<Rightarrow> geo_record \<Rightarrow> 32 word \<Rightarrow> bool" where
  "resolve_inv out cur l \<longleftrightarrow>
     ordered_table (out @ [cur]) \<and> (\<forall>a. l \<le> a \<longrightarrow> a \<le> r_end cur \<longrightarrow> claim (out @ [cur]) a \<noteq> None)"

lemma ordered_table_snoc:
  "ordered_table (out @ [cur]) \<longleftrightarrow>
     ordered_table out \<and> proper cur \<and> (\<forall>r \<in> set out. r_end r < r_start cur)"
  by (auto simp: ordered_table_def sorted_wrt_append)

lemma ordered_below_end:
  assumes "ordered_table (out @ [cur])" and "r \<in> set (out @ [cur])"
  shows "r_end r \<le> r_end cur"
  using assms by (auto simp: ordered_table_snoc proper_def dest: order_less_le_trans order_less_imp_le)

lemma ordered_table_extend:
  assumes "ordered_table (out @ [cur])" and "proper r" and "r_end cur < r_start r"
  shows "ordered_table ((out @ [cur]) @ [r])"
  unfolding ordered_table_snoc [of "out @ [cur]"]
  using assms ordered_below_end [OF assms(1)] by (blast intro: order_le_less_trans)

lemma claim_above_end:
  assumes "ordered_table (out @ [cur])" and "r_end cur < a"
  shows "claim (out @ [cur]) a = None"
proof -
  have "\<not> covers r a" if "r \<in> set (out @ [cur])" for r
    using ordered_below_end [OF assms(1) that] assms(2) by (auto simp: covers_def)
  then show ?thesis
    unfolding claim_def by (simp add: find_None_iff)
qed

lemma resolve_step_merge:
  assumes "resolve_inv out cur l" and "l \<le> r_start r" and "r_cc r = r_cc cur"
    and "r_start r \<le> r_end cur + 1" and "r_end cur < r_end r"
  defines "cur' \<equiv> cur\<lparr>r_end := r_end r\<rparr>"
  shows "claim (out @ [cur']) a = claim (out @ [cur, r]) a" and "resolve_inv out cur' (r_start r)"
proof -
  have ord: "ordered_table (out @ [cur])" and pc: "r_start cur \<le> r_end cur"
    using assms(1) by (auto simp: resolve_inv_def ordered_table_snoc proper_def)
  have eq: "claim (out @ [cur']) a = claim (out @ [cur, r]) a" for a
  proof (cases "r_end cur < a")
    case True
    then have "claim (out @ [cur]) a = None"
      using ord by (rule claim_above_end [rotated])
    moreover have "r_start r \<le> a"
      using assms(4) True by (rule word_le_plus1)
    ultimately show ?thesis
      using True pc assms(3) by (auto simp: claim_append claim_Cons covers_def cur'_def split: option.splits if_splits)
  next
    case False
    then have "covers cur' a = covers cur a"
      using assms(5) by (auto simp: covers_def cur'_def)
    moreover have "covers r a \<Longrightarrow> claim (out @ [cur]) a \<noteq> None"
      using assms(1,2) False by (auto simp: resolve_inv_def covers_def)
    ultimately show ?thesis
      by (auto simp: claim_append claim_Cons cur'_def split: option.splits if_splits)
  qed
  then show "claim (out @ [cur']) a = claim (out @ [cur, r]) a" .
  have "ordered_table (out @ [cur'])"
    using ord assms(5) pc by (auto simp: ordered_table_snoc proper_def cur'_def)
  moreover have "claim (out @ [cur']) a \<noteq> None" if "r_start r \<le> a" "a \<le> r_end r" for a
    using eq [of a] that by (auto simp: claim_append claim_Cons covers_def split: option.splits)
  ultimately show "resolve_inv out cur' (r_start r)"
    by (simp add: resolve_inv_def cur'_def)
qed

lemma resolve_step_skip:
  assumes "resolve_inv out cur l" and "l \<le> r_start r" and "\<not> r_end cur < r_end r"
  shows "claim (out @ [cur]) a = claim (out @ [cur, r]) a" and "resolve_inv out cur (r_start r)"
proof -
  have "covers r a \<Longrightarrow> claim (out @ [cur]) a \<noteq> None"
    using assms by (auto simp: resolve_inv_def covers_def)
  then show "claim (out @ [cur]) a = claim (out @ [cur, r]) a"
    by (auto simp: claim_append claim_Cons split: option.splits if_splits)
  show "resolve_inv out cur (r_start r)"
    using assms(1,2) by (auto simp: resolve_inv_def)
qed

lemma resolve_step_new:
  assumes "resolve_inv out cur l" and "proper r" and "r_end cur < r_start r"
  shows "resolve_inv (out @ [cur]) r (r_start r)"
proof -
  have "ordered_table ((out @ [cur]) @ [r])"
    using assms by (intro ordered_table_extend) (auto simp: resolve_inv_def)
  then show ?thesis
    by (auto simp: resolve_inv_def claim_append claim_Cons covers_def split: option.splits)
qed

lemma resolve_step_truncate:
  assumes "resolve_inv out cur l" and "l \<le> r_start r" and "r_start r \<le> r_end cur" and "r_end cur < r_end r"
  defines "cur' \<equiv> \<lparr>r_start = r_end cur + 1, r_end = r_end r, r_cc = r_cc r\<rparr>"
  shows "claim ((out @ [cur]) @ [cur']) a = claim (out @ [cur, r]) a"
    and "resolve_inv (out @ [cur]) cur' (r_start r)"
proof -
  have cov: "covers cur' a \<longleftrightarrow> r_end cur < a \<and> a \<le> r_end r" for a
    using assms(4) by (simp add: covers_def cur'_def word_above_iff)
  have eq: "claim ((out @ [cur]) @ [cur']) a = claim (out @ [cur, r]) a" for a
  proof (cases "claim (out @ [cur]) a")
    case None
    then have "covers cur' a = covers r a"
      unfolding cov using assms(1-3)
      by (auto simp: covers_def resolve_inv_def) (metis linorder_not_le order_trans option.distinct(1))
    with None show ?thesis
      by (simp add: claim_append claim_Cons cur'_def split: option.splits if_splits)
  next
    case (Some c)
    then show ?thesis
      by (auto simp: claim_append claim_Cons split: option.splits if_splits)
  qed
  then show "claim ((out @ [cur]) @ [cur']) a = claim (out @ [cur, r]) a" .
  have "r_end cur < r_start cur'" and "proper cur'"
    using assms(4) word_above_iff [OF assms(4), of "r_end cur + 1"]
    by (simp_all add: cur'_def proper_def word_above_iff)
  then have "ordered_table ((out @ [cur]) @ [cur'])"
    using assms(1) by (intro ordered_table_extend) (auto simp: resolve_inv_def)
  moreover have "claim ((out @ [cur]) @ [cur']) a \<noteq> None" if "r_start r \<le> a" "a \<le> r_end r" for a
    unfolding eq using that by (auto simp: claim_append claim_Cons covers_def split: option.splits)
  ultimately show "resolve_inv (out @ [cur]) cur' (r_start r)"
    by (simp add: resolve_inv_def cur'_def)
qed

lemma claim_append_cong: "claim xs a = claim ys a \<Longrightarrow> claim (xs @ zs) a = claim (ys @ zs) a"
  by (simp add: claim_append)

lemma resolve_loop_correct:
  assumes "resolve_inv out cur l" and "list_all proper rs" and "sorted (l # map r_start rs)"
  shows "ordered_table (resolve_loop cur out rs)
         \<and> claim (resolve_loop cur out rs) a = claim ((out @ [cur]) @ rs) a"
  using assms
proof (induction cur out rs arbitrary: l rule: resolve_loop.induct)
  case (1 cur out)
  then show ?case by (simp add: resolve_inv_def)
next
  case (2 cur out r rs)
  have l: "l \<le> r_start r" and s: "sorted (r_start r # map r_start rs)" and p: "proper r"
    and ps: "list_all proper rs"
    using "2.prems" by auto
  consider (merge) "r_cc r = r_cc cur \<and> r_start r \<le> r_end cur + 1" "r_end cur < r_end r"
    | (skip) "r_cc r = r_cc cur \<and> r_start r \<le> r_end cur + 1" "\<not> r_end cur < r_end r"
    | (new) "\<not> (r_cc r = r_cc cur \<and> r_start r \<le> r_end cur + 1)" "\<not> r_start r \<le> r_end cur"
    | (trunc) "\<not> (r_cc r = r_cc cur \<and> r_start r \<le> r_end cur + 1)" "r_start r \<le> r_end cur" "r_end cur < r_end r"
    | (drop) "\<not> (r_cc r = r_cc cur \<and> r_start r \<le> r_end cur + 1)" "r_start r \<le> r_end cur" "\<not> r_end cur < r_end r"
    by blast
  then show ?case
  proof cases
    case merge
    note step = resolve_step_merge [OF "2.prems"(1) l merge(1) [THEN conjunct1] merge(1) [THEN conjunct2] merge(2)]
    show ?thesis
      using "2.IH"(1) [OF refl merge(1) _ ps s] step(2) claim_append_cong [OF step(1) [of a], of rs] merge
      by simp
  next
    case skip
    note step = resolve_step_skip [OF "2.prems"(1) l skip(2)]
    show ?thesis
      using "2.IH"(1) [OF refl skip(1) _ ps s] step(2) claim_append_cong [OF step(1) [of a], of rs] skip
      by simp
  next
    case new
    then have "resolve_inv (out @ [cur]) r (r_start r)"
      using "2.prems"(1) p by (intro resolve_step_new) auto
    then show ?thesis
      using "2.IH"(2) [OF refl new(1) _ _ ps s] new by auto
  next
    case trunc
    note step = resolve_step_truncate [OF "2.prems"(1) l trunc(2,3)]
    show ?thesis
      using "2.IH"(3) [OF refl trunc(1) _ trunc(3) _ ps s] step(2) claim_append_cong [OF step(1) [of a], of rs] trunc
      by auto
  next
    case drop
    note step = resolve_step_skip [OF "2.prems"(1) l drop(3)]
    show ?thesis
      using "2.IH"(4) [OF refl drop(1) _ drop(3) _ ps s] step(2) claim_append_cong [OF step(1) [of a], of rs] drop
      by auto
  qed
qed

lemma resolve_correct:
  assumes "list_all proper rs" and "sorted (map r_start rs)"
  shows "ordered_table (resolveOverlapsAndMergeAdjacent rs)"
    and "claim (resolveOverlapsAndMergeAdjacent rs) a = claim rs a"
proof -
  have "ordered_table (resolveOverlapsAndMergeAdjacent rs)
        \<and> claim (resolveOverlapsAndMergeAdjacent rs) a = claim rs a"
  proof (cases rs)
    case Nil
    then show ?thesis
      by (simp add: resolveOverlapsAndMergeAdjacent_def ordered_table_def)
  next
    case (Cons r rest)
    then have "resolve_inv [] r (r_start r)"
      using assms by (auto simp: resolve_inv_def ordered_table_def claim_Cons covers_def)
    then show ?thesis
      using resolve_loop_correct [of "[]" r "r_start r" rest a] assms Cons
      by (simp add: resolveOverlapsAndMergeAdjacent_def)
  qed
  then show "ordered_table (resolveOverlapsAndMergeAdjacent rs)"
    and "claim (resolveOverlapsAndMergeAdjacent rs) a = claim rs a" by auto
qed

lemma resolve_loop_cc:
  "list_all (\<lambda>r. length (r_cc r) = n) (out @ cur # rs) \<Longrightarrow>
     list_all (\<lambda>r. length (r_cc r) = n) (resolve_loop cur out rs)"
  by (induction cur out rs rule: resolve_loop.induct) (auto simp: Let_def)

lemma resolve_cc:
  "list_all (\<lambda>r. length (r_cc r) = n) rs \<Longrightarrow>
     list_all (\<lambda>r. length (r_cc r) = n) (resolveOverlapsAndMergeAdjacent rs)"
  by (cases rs) (simp_all add: resolveOverlapsAndMergeAdjacent_def resolve_loop_cc)

section \<open>The file format\<close>

lemma byte_char_byte [simp]: "byte_char (char_byte c) = c"
proof -
  have "unat (of_nat (of_char c) :: byte) = of_char c"
    by (simp add: unat_of_nat)
  then show ?thesis by (simp add: byte_char_def char_byte_def)
qed

lemma length_write_record [simp]: "length (write_record r) = recordSize"
  by (simp add: write_record_def recordSize_def)

lemma length_writeTable [simp]: "length (writeTable rs) = length rs * recordSize"
  by (induction rs) (simp_all add: writeTable_def)

lemma parse_record_write:
  "length (r_cc r) = 2 \<Longrightarrow> parse_record (write_record r @ rest) 0 = r"
  by (cases r) (auto simp: parse_record_def write_record_def length_Suc_conv numeral_2_eq_2)

lemma parse_record_skip:
  "length xs = recordSize \<Longrightarrow> parse_record (xs @ data) (Suc i) = parse_record data i"
  by (simp add: parse_record_def Let_def add.assoc)

lemma parseTable_write_Cons:
  assumes "length (r_cc r) = 2"
  shows "parseTable (write_record r @ data) = r # parseTable data"
proof -
  have n: "length (write_record r @ data) div recordSize = Suc (length data div recordSize)"
    by (simp add: recordSize_def)
  show ?thesis
    unfolding parseTable_def n
    by (simp add: map_upt_Suc parse_record_write [OF assms] parse_record_skip del: upt_Suc)
qed

lemma parse_writeTable:
  "list_all (\<lambda>r. length (r_cc r) = 2) rs \<Longrightarrow> parseTable (writeTable rs) = rs"
proof (induction rs)
  case Nil
  then show ?case by (simp add: parseTable_def writeTable_def)
next
  case (Cons r rs)
  then show ?case
    using parseTable_write_Cons [of r "writeTable rs"] by (simp add: writeTable_def)
qed

section \<open>From the registries' records to a lookup\<close>

lemma fetch_all_Some:
  "fetch_all fetched = Some all \<Longrightarrow> all = concat (map fst fetched)"
  by (induction fetched arbitrary: all rule: fetch_all.induct) (auto split: if_splits)

text \<open>
  The interface between the code that builds the table and the code that searches it: \<open>build\<close>
  yields an ordered table for valid inputs, and the table's content is \<open>spec\<close>.
\<close>

locale table_source =
  fixes build :: "'a \<Rightarrow> geo_record list"
    and valid :: "'a \<Rightarrow> bool"
    and spec :: "'a \<Rightarrow> 32 word \<Rightarrow> string option"
  assumes build_ordered: "valid x \<Longrightarrow> ordered_table (build x)"
    and build_claim: "valid x \<Longrightarrow> claim (build x) a = spec x a"
begin

lemma lookup_v4: "valid x \<Longrightarrow> To4 a = Some a4 \<Longrightarrow> CountryForIP (build x) a = spec x (be_uint32 a4)"
  using CountryForIP_ordered [OF build_ordered] build_claim by metis

lemma lookup_v6: "To4 a = None \<Longrightarrow> CountryForIP (build x) a = None"
  by (simp add: CountryForIP_def)

end

definition usable :: "geo_record \<Rightarrow> bool" where
  "usable r \<longleftrightarrow> proper r \<and> length (r_cc r) = 2"

definition embedded_table :: "geo_record list \<Rightarrow> geo_record list" where
  "embedded_table all = parseTable (writeTable (resolveOverlapsAndMergeAdjacent (sort_key r_start all)))"

lemma embedded_table_eq:
  assumes "list_all usable all"
  shows "embedded_table all = resolveOverlapsAndMergeAdjacent (sort_key r_start all)"
  unfolding embedded_table_def using assms
  by (intro parse_writeTable resolve_cc) (auto simp: list_all_iff usable_def)

interpretation embedded: table_source embedded_table "list_all usable" "\<lambda>all. claim (sort_key r_start all)"
proof
  fix all a
  assume v: "list_all usable all"
  then have p: "list_all proper (sort_key r_start all)"
    by (auto simp: list_all_iff usable_def)
  show "ordered_table (embedded_table all)"
    unfolding embedded_table_eq [OF v] using p by (rule resolve_correct(1)) simp
  show "claim (embedded_table all) a = claim (sort_key r_start all) a"
    unfolding embedded_table_eq [OF v] using p by (rule resolve_correct(2)) simp
qed

section \<open>Properties\<close>

text \<open>For records that are proper ranges, sorted by start, the resolved table is strictly
  ordered and free of overlaps, as the comment on the generator promises, and the country it
  gives to any address is the one of the first record of the sorted input that holds the
  address: nothing is lost and the first claim wins.\<close>

theorem resolve_first_claim_wins:
  assumes "list_all proper rs" and "sorted (map r_start rs)"
  shows "ordered_table (resolveOverlapsAndMergeAdjacent rs)
         \<and> (\<forall>a. claim (resolveOverlapsAndMergeAdjacent rs) a = claim rs a)"
  using resolve_correct [OF assms] by blast

theorem resolve_first_claim_wins_witness:
  "ordered_table (resolveOverlapsAndMergeAdjacent
      [\<lparr>r_start = 10, r_end = 20, r_cc = ''SE''\<rparr>, \<lparr>r_start = 15, r_end = 30, r_cc = ''NO''\<rparr>])
   \<and> (\<forall>a. claim (resolveOverlapsAndMergeAdjacent
      [\<lparr>r_start = 10, r_end = 20, r_cc = ''SE''\<rparr>, \<lparr>r_start = 15, r_end = 30, r_cc = ''NO''\<rparr>]) a
     = claim [\<lparr>r_start = 10, r_end = 20, r_cc = ''SE''\<rparr>, \<lparr>r_start = 15, r_end = 30, r_cc = ''NO''\<rparr>] a)"
  by (rule resolve_first_claim_wins) (simp_all add: proper_def)

text \<open>C33: the binary search of \<open>CountryForIP\<close> is equivalent to a linear scan of the table
  whenever the table is ordered: it finds the record that holds the address if there is one and
  reports none otherwise; IPv6 addresses are never found.\<close>

theorem CountryForIP_linear_scan:
  assumes "ordered_table tbl"
  shows "CountryForIP tbl a = (case To4 a of None \<Rightarrow> None | Some a4 \<Rightarrow> claim tbl (be_uint32 a4))"
  using CountryForIP_ordered [OF assms] by (simp add: CountryForIP_def split: option.splits)

theorem CountryForIP_linear_scan_witness:
  "CountryForIP [\<lparr>r_start = 0x0A000000, r_end = 0x0A0000FF, r_cc = ''SE''\<rparr>] [10, 0, 0, 7] = Some ''SE''"
proof -
  have "ordered_table [\<lparr>r_start = 0x0A000000, r_end = 0x0A0000FF, r_cc = ''SE''\<rparr>]"
    by (simp add: ordered_table_def proper_def)
  from CountryForIP_linear_scan [OF this, of "[10, 0, 0, 7]"] show ?thesis
    by (simp add: To4_def claim_def covers_def)
qed

text \<open>The table file round trips: parsing what \<open>writeTable\<close> wrote gives back the same
  records, for any records with two-letter country codes.\<close>

theorem parseTable_writeTable:
  assumes "list_all (\<lambda>r. length (r_cc r) = 2) rs"
  shows "parseTable (writeTable rs) = rs"
  using assms by (rule parse_writeTable)

theorem parseTable_writeTable_witness:
  "parseTable (writeTable [\<lparr>r_start = 1, r_end = 2, r_cc = ''SE''\<rparr>]) = [\<lparr>r_start = 1, r_end = 2, r_cc = ''SE''\<rparr>]"
  by (rule parseTable_writeTable) simp

text \<open>C32: end to end. When every fetch succeeded and every record is usable, the embedded file
  makes the lookup of an IPv4 address return the country of the first registry record, in
  (stable) order of range start, that holds the address.\<close>

theorem geoip_end_to_end:
  assumes "geoip_gen fetched = Some data" and "list_all usable (concat (map fst fetched))"
    and "To4 a = Some a4"
  shows "CountryForIP (parseTable data) a
         = claim (sort_key r_start (concat (map fst fetched))) (be_uint32 a4)"
proof -
  have "parseTable data = embedded_table (concat (map fst fetched))"
    using assms(1) by (auto simp: geoip_gen_def embedded_table_def dest: fetch_all_Some)
  then show ?thesis
    using embedded.lookup_v4 [OF assms(2,3)] by simp
qed

theorem geoip_end_to_end_witness:
  "CountryForIP (parseTable (writeTable [\<lparr>r_start = 0x0A000000, r_end = 0x0A0000FF, r_cc = ''SE''\<rparr>])) [10, 0, 0, 7]
   = Some ''SE''"
proof -
  define r where "r = \<lparr>r_start = 0x0A000000 :: 32 word, r_end = 0x0A0000FF, r_cc = ''SE''\<rparr>"
  have "geoip_gen [([r], False)] = Some (writeTable [r])"
    by (simp add: geoip_gen_def resolveOverlapsAndMergeAdjacent_def)
  moreover have "list_all usable (concat (map fst [([r], False)]))"
    by (simp add: usable_def proper_def r_def)
  moreover have "To4 [10, 0, 0, 7] = Some [10, 0, 0, 7]"
    by (simp add: To4_def)
  ultimately have "CountryForIP (parseTable (writeTable [r])) [10, 0, 0, 7]
      = claim (sort_key r_start (concat (map fst [([r], False)]))) (be_uint32 [10, 0, 0, 7])"
    by (rule geoip_end_to_end)
  then show ?thesis
    by (simp add: r_def claim_def covers_def)
qed

end
