(* ===== verification/Detect_Peers.thy ===== *)
theory Detect_Peers
  imports Detect_Core GeoIP
begin

text \<open>
  The detectors over distinct recent peers: \<open>new_destination.go\<close>, which learns the peers of a
  host in \<open>known_peers\<close>, and \<open>geo_watchlist.go\<close>, which resolves them with the embedded
  GeoIP table.
\<close>

section \<open>new_destination.go\<close>

definition NewDestinationScanWindow :: duration where "NewDestinationScanWindow = 2 * Minute"
definition NewDestinationNoveltyWindow :: duration where "NewDestinationNoveltyWindow = 30 * 24 * Hour"
definition NewDestinationLearningPeriod :: duration where "NewDestinationLearningPeriod = 3 * 24 * Hour"
definition newDestinationCooldown :: duration where "newDestinationCooldown = 6 * Hour"

lemma DurSeconds_new_dest [simp]:
  "DurSeconds NewDestinationScanWindow = 120" "DurSeconds NewDestinationNoveltyWindow = 2592000"
  "DurSeconds NewDestinationLearningPeriod = 259200" "DurSeconds newDestinationCooldown = 21600"
  by (simp_all add: NewDestinationScanWindow_def NewDestinationNoveltyWindow_def NewDestinationLearningPeriod_def
      newDestinationCooldown_def go_time)

definition peer_dedupe :: "DistinctRecentPeer \<Rightarrow> string" where
  "peer_dedupe p = rp_rip p @ '':'' @ Itoa (rp_rport p)"

definition new_dest_alert :: "(real \<Rightarrow> string) \<Rightarrow> int \<Rightarrow> DistinctRecentPeer \<Rightarrow> Host \<Rightarrow> db \<Rightarrow> db" where
  "new_dest_alert ff nowUnix p host =
     (let (direction, directionPhrase) = classifyPeerDirection (rp_out p) (rp_in p);
          summary = hostLabel host @ '' '' @ directionPhrase @ '' new destination '' @ rp_rip p @ '':'' @ Itoa (rp_rport p);
          detail = [(''direction'', JStr direction), (''remote_ip'', JStr (rp_rip p)), (''remote_port'', JInt (rp_rport p))];
          severity = (if direction = ''inbound'' then SeverityWarning else SeverityInfo)
      in raiseAlert ff (rp_host p) AlertKindNewDestination severity summary (Some detail) (peer_dedupe p) nowUnix
           (nowUnix - DurSeconds newDestinationCooldown))"

definition new_dest_host :: "(real \<Rightarrow> string) \<Rightarrow> int \<Rightarrow> DistinctRecentPeer \<Rightarrow> Host \<Rightarrow> db \<Rightarrow> db" where
  "new_dest_host ff nowUnix p host d =
     (case KnownPeerLastSeen (rp_host p) (rp_rip p) (rp_rport p) d of
        (Inl _, d1) \<Rightarrow> d1
      | (Inr lastSeen, d1) \<Rightarrow>
          (let isNew = (case lastSeen of None \<Rightarrow> True | Some l \<Rightarrow> l < nowUnix - DurSeconds NewDestinationNoveltyWindow);
               d2 = snd (UpsertKnownPeer (rp_host p) (rp_rip p) (rp_rport p) nowUnix d1)
           in if \<not> isNew then d2
              else if nowUnix - h_first host < DurSeconds NewDestinationLearningPeriod then d2
              else new_dest_alert ff nowUnix p host d2))"

definition new_dest_peer :: "(real \<Rightarrow> string) \<Rightarrow> int \<Rightarrow> DistinctRecentPeer \<Rightarrow> host_cache \<times> db \<Rightarrow> host_cache \<times> db" where
  "new_dest_peer ff nowUnix p = with_host (rp_host p) (\<lambda>host (cache, d). (cache, new_dest_host ff nowUnix p host d))"

definition NewDestinations :: "(real \<Rightarrow> string) \<Rightarrow> gotime \<Rightarrow> db \<Rightarrow> db" where
  "NewDestinations ff now d =
     (case RecentFlowPeers (Unix now - DurSeconds NewDestinationScanWindow) (Unix now) d of
        (Inl _, d') \<Rightarrow> d'
      | (Inr peers, d') \<Rightarrow> snd (fold (new_dest_peer ff (Unix now)) peers (Map.empty, d')))"

definition peer_key :: "DistinctRecentPeer \<Rightarrow> peer_key" where
  "peer_key p = (rp_host p, rp_rip p, rp_rport p)"

text \<open>A peer is novel when it is unknown or was last seen more than 30 days ago.\<close>

definition novel :: "int \<Rightarrow> tables \<Rightarrow> DistinctRecentPeer \<Rightarrow> bool" where
  "novel n t p \<longleftrightarrow> (case map_of (known_peers t) (peer_key p) of None \<Rightarrow> True | Some (_, l) \<Rightarrow> l < n - 2592000)"

definition new_dest_reason :: "gotime \<Rightarrow> tables \<Rightarrow> AlertRecord \<Rightarrow> bool" where
  "new_dest_reason now t a \<longleftrightarrow>
     al_kind a = AlertKindNewDestination \<and> al_detected a = Unix now
     \<and> (\<exists>p \<in> set (recent_flow_peers (Unix now - 120) (Unix now) t). \<exists>h \<in> set (hosts t).
          al_host a = rp_host p \<and> al_dedupe a = peer_dedupe p \<and> novel (Unix now) t p
          \<and> h_id h = rp_host p \<and> 259200 \<le> Unix now - h_first h
          \<and> al_severity a = (if rp_in p \<and> \<not> rp_out p then SeverityWarning else SeverityInfo))"

lemma distinct_recent_flow_peers: "distinct (map peer_key (recent_flow_peers since now t))"
proof -
  have "map peer_key (recent_flow_peers since now t)
      = map fst (group_by (\<lambda>f. (f_host f, f_rip f, f_rport f)) (filter (in_window since now) (flows_recent t)))"
    by (simp add: recent_flow_peers_def comp_def peer_key_def case_prod_beta)
  then show ?thesis by (simp add: group_by_keys)
qed

lemma cooldown_new_dest [simp]: "alert_cooldown AlertKindNewDestination u = 21600"
  by (simp add: alert_cooldown_def kind_defs)

lemma UpsertKnownPeer_effect:
  "raises P (tbl d) (tbl (snd (UpsertKnownPeer h ip port n d)))
   \<and> (\<forall>k. k \<noteq> (h, ip, port) \<longrightarrow> map_of (known_peers (tbl (snd (UpsertKnownPeer h ip port n d)))) k = map_of (known_peers (tbl d)) k)
   \<and> alerts (tbl (snd (UpsertKnownPeer h ip port n d))) = alerts (tbl d)"
proof (cases rule: exec_cases [of "sql_upsert_peer h ip port n" d])
  case fail
  then show ?thesis by (simp add: UpsertKnownPeer_def)
next
  case (success u t')
  then have t': "t' = (tbl d)\<lparr>known_peers := upsert (h, ip, port)
      (\<lambda>old. case old of None \<Rightarrow> (n, n) | Some (fs, _) \<Rightarrow> (fs, n)) (known_peers (tbl d))\<rparr>"
    by (simp add: sql_upsert_peer_def split: if_splits)
  have "wf_tables (tbl d) \<Longrightarrow> wf_tables t'"
    using wf_sql_upsert_peer success(1) by (auto simp: stmt_keeps_def)
  then show ?thesis
    using success(3) by (auto simp: UpsertKnownPeer_def t' raises_def same_but_alerts_def map_of_upsert)
qed

lemma raises_new_dest_host:
  assumes P: "\<And>a. novel n (tbl d) p \<Longrightarrow> 259200 \<le> n - h_first host \<Longrightarrow> al_host a = rp_host p \<Longrightarrow> al_kind a = AlertKindNewDestination
      \<Longrightarrow> al_dedupe a = peer_dedupe p \<Longrightarrow> al_detected a = n
      \<Longrightarrow> al_severity a = (if rp_in p \<and> \<not> rp_out p then SeverityWarning else SeverityInfo) \<Longrightarrow> P a"
  shows "raises P (tbl d) (tbl (new_dest_host ff n p host d))"
    and "k \<noteq> peer_key p \<Longrightarrow> map_of (known_peers (tbl (new_dest_host ff n p host d))) k = map_of (known_peers (tbl d)) k"
proof -
  obtain r d1 where r: "KnownPeerLastSeen (rp_host p) (rp_rip p) (rp_rport p) d = (r, d1)" by fastforce
  have d1: "tbl d1 = tbl d" using r by (auto simp: KnownPeerLastSeen_def dest: query_tblD)
  define d2 where "d2 = snd (UpsertKnownPeer (rp_host p) (rp_rip p) (rp_rport p) n d1)"
  note up = UpsertKnownPeer_effect [of _ d1 "rp_host p" "rp_rip p" "rp_rport p" n, folded d2_def, unfolded d1]
  have al: "raises Q (tbl d2) (tbl (new_dest_alert ff n p host d2))"
    if "\<And>a. al_host a = rp_host p \<Longrightarrow> al_kind a = AlertKindNewDestination \<Longrightarrow> al_dedupe a = peer_dedupe p \<Longrightarrow> al_detected a = n
      \<Longrightarrow> al_severity a = (if rp_in p \<and> \<not> rp_out p then SeverityWarning else SeverityInfo) \<Longrightarrow> Q a" for Q
    unfolding new_dest_alert_def classifyPeerDirection_def Let_def
    by (cases "rp_out p"; cases "rp_in p") (auto intro!: raises_raiseAlert that)
  have kp: "known_peers (tbl (new_dest_alert ff n p host d2)) = known_peers (tbl d2)"
    by (simp add: new_dest_alert_def Let_def raiseAlert_known_peers split: prod.split)
  show "raises P (tbl d) (tbl (new_dest_host ff n p host d))"
  proof (cases r)
    case (Inr l)
    have l: "l = map_option snd (map_of (known_peers (tbl d)) (peer_key p))"
      using r Inr by (auto simp: KnownPeerLastSeen_def query_def peer_key_def split: prod.splits if_splits)
    then have nov: "(case l of None \<Rightarrow> True | Some l \<Rightarrow> l < n - DurSeconds NewDestinationNoveltyWindow) \<longleftrightarrow> novel n (tbl d) p"
      by (auto simp: novel_def split: option.split)
    have eq: "new_dest_host ff n p host d
        = (if novel n (tbl d) p \<and> 259200 \<le> n - h_first host then new_dest_alert ff n p host d2 else d2)"
      using r Inr nov by (simp add: new_dest_host_def Let_def d2_def)
    have "raises P (tbl d2) (tbl (new_dest_alert ff n p host d2))" if "novel n (tbl d) p \<and> 259200 \<le> n - h_first host"
      by (rule al) (use P that in blast)
    then show ?thesis unfolding eq using up [of P] by (auto intro: raises_trans)
  qed (use r d1 in \<open>simp add: new_dest_host_def\<close>)
  show "k \<noteq> peer_key p \<Longrightarrow> map_of (known_peers (tbl (new_dest_host ff n p host d))) k = map_of (known_peers (tbl d)) k"
  proof -
    assume "k \<noteq> peer_key p"
    then have "map_of (known_peers (tbl d2)) k = map_of (known_peers (tbl d)) k"
      using up [of P] by (metis peer_key_def)
    then show ?thesis
      using r d1 kp by (simp add: new_dest_host_def Let_def d2_def [symmetric] split: sum.split)
  qed
qed

text \<open>Peers still to be processed are known exactly as before the run.\<close>

definition agree :: "tables \<Rightarrow> tables \<Rightarrow> DistinctRecentPeer list \<Rightarrow> bool" where
  "agree t0 t ps \<longleftrightarrow> (\<forall>p \<in> set ps. map_of (known_peers t) (peer_key p) = map_of (known_peers t0) (peer_key p))"

lemma new_dest_peer_known:
  "k \<noteq> peer_key p \<Longrightarrow> map_of (known_peers (tbl (snd (new_dest_peer ff n p s)))) k = map_of (known_peers (tbl (snd s))) k"
proof -
  assume k: "k \<noteq> peer_key p"
  obtain r c d where ch: "cached_host (rp_host p) s = (r, c, d)" by (cases "cached_host (rp_host p) s") auto
  have d: "tbl d = tbl (snd s)" using cached_host_tbl [of "rp_host p" s] ch by simp
  show ?thesis
    using ch d raises_new_dest_host(2) [where P = "\<lambda>_. True" and d = d and n = n, OF TrueI k]
    by (cases r) (auto simp: new_dest_peer_def with_host_def)
qed

lemma agree_step:
  assumes "agree t0 (tbl (snd s)) (p # ps)" and "distinct (map peer_key (p # ps))"
  shows "agree t0 (tbl (snd (new_dest_peer ff n p s))) ps"
proof -
  have "peer_key q \<noteq> peer_key p" if "q \<in> set ps" for q
    using assms(2) that by (metis distinct.simps(2) image_eqI list.simps(9) list.set_map)
  then show ?thesis using assms(1) by (simp add: agree_def new_dest_peer_known)
qed

lemma novel_agree: "agree t0 t (p # ps) \<Longrightarrow> novel n t p = novel n t0 p"
  by (simp add: agree_def novel_def)

lemma raises_new_dest_fold:
  assumes "set ps \<subseteq> set (recent_flow_peers (Unix now - 120) (Unix now) t0)" and "distinct (map peer_key ps)"
    and "same_but_alerts t0 (tbl (snd s))" and "cache_rows s" and "agree t0 (tbl (snd s)) ps"
  shows "raises (new_dest_reason now t0) (tbl (snd s)) (tbl (snd (fold (new_dest_peer ff (Unix now)) ps s)))"
  using assms
proof (induction ps arbitrary: s)
  case (Cons p ps)
  let ?s = "new_dest_peer ff (Unix now) p s"
  have h: "hosts (tbl (snd s)) = hosts t0" using Cons.prems(3) by (simp add: same_but_alerts_def)
  have "raises (new_dest_reason now t0) (tbl (snd s)) (tbl (snd ?s)) \<and> cache_rows ?s"
    unfolding new_dest_peer_def
  proof (rule raises_with_host_rows [OF Cons.prems(4)])
    fix host c and d :: db
    assume d: "tbl d = tbl (snd s)" and host: "host \<in> set (hosts (tbl d))" "h_id host = rp_host p"
    have "novel (Unix now) (tbl d) p = novel (Unix now) t0 p"
      using Cons.prems(5) d by (metis novel_agree)
    then have "raises (new_dest_reason now t0) (tbl d) (tbl (new_dest_host ff (Unix now) p host d))"
      using Cons.prems(1) host h d by (intro raises_new_dest_host(1)) (auto simp: new_dest_reason_def)
    then show "fst ((\<lambda>(cache, d). (cache, new_dest_host ff (Unix now) p host d)) (c, d)) = c \<and>
        raises (new_dest_reason now t0) (tbl d) (tbl (snd ((\<lambda>(cache, d). (cache, new_dest_host ff (Unix now) p host d)) (c, d))))"
      by simp
  qed
  moreover from this have "same_but_alerts t0 (tbl (snd ?s))"
    using Cons.prems(3) by (auto simp: raises_def same_but_alerts_def)
  moreover have "agree t0 (tbl (snd ?s)) ps" using Cons.prems(2,5) by (intro agree_step)
  ultimately have "raises (new_dest_reason now t0) (tbl (snd ?s)) (tbl (snd (fold (new_dest_peer ff (Unix now)) ps ?s)))"
    using Cons.prems(1,2) by (intro Cons.IH) auto
  with \<open>raises (new_dest_reason now t0) (tbl (snd s)) (tbl (snd ?s)) \<and> cache_rows ?s\<close> show ?case
    by (auto intro: raises_trans)
qed simp

interpretation new_destination: detector "NewDestinations ff" new_dest_reason
proof
  fix now :: gotime and d :: db
  obtain r d' where r: "RecentFlowPeers (Unix now - 120) (Unix now) d = (r, d')" by fastforce
  then have d': "tbl d' = tbl d" by (auto simp: RecentFlowPeers_def dest: query_tblD)
  show "raises (new_dest_reason now (tbl d)) (tbl d) (tbl (NewDestinations ff now d))"
  proof (cases r)
    case (Inr peers)
    then have "peers = recent_flow_peers (Unix now - 120) (Unix now) (tbl d)"
      using r by (auto simp: RecentFlowPeers_def query_def split: prod.splits if_splits)
    then have "raises (new_dest_reason now (tbl d)) (tbl (snd (Map.empty :: host_cache, d')))
        (tbl (snd (fold (new_dest_peer ff (Unix now)) peers (Map.empty, d'))))"
      using d' by (intro raises_new_dest_fold)
        (simp_all add: distinct_recent_flow_peers same_but_alerts_def agree_def)
    then show ?thesis using r Inr d' by (simp add: NewDestinations_def)
  qed (use r d' in \<open>simp add: NewDestinations_def\<close>)
qed

lemma recent_peer_hosts:
  assumes "wf_tables t" and "p \<in> set (recent_flow_peers since now t)"
  shows "rp_host p \<in> host_ids t"
proof -
  obtain g where g: "g \<in> set (group_by (\<lambda>f. (f_host f, f_rip f, f_rport f)) (filter (in_window since now) (flows_recent t)))"
    and p: "rp_host p = fst (fst g)"
    using assms(2) by (auto simp: recent_flow_peers_def split: prod.splits)
  then obtain f where "f \<in> set (flows_recent t)" "fst g = (f_host f, f_rip f, f_rport f)"
    by (auto simp: group_by_def)
  then show ?thesis using assms(1) p by (simp add: wf_defs)
qed

lemma UpsertKnownPeer_ok:
  assumes "db_faults d = []" and "h \<in> host_ids (tbl d)"
  shows "db_faults (snd (UpsertKnownPeer h ip port n d)) = []"
    and "map_option snd (map_of (known_peers (tbl (snd (UpsertKnownPeer h ip port n d)))) (h, ip, port)) = Some n"
  using assms by (auto simp: UpsertKnownPeer_def exec_ok sql_upsert_peer_def map_of_upsert split: option.split)

lemma det_inv_raises: "det_inv t0 (c, d) \<Longrightarrow> raises (\<lambda>_. True) (tbl d) (tbl d') \<Longrightarrow> db_faults d' = [] \<Longrightarrow> det_inv t0 (c, d')"
  by (auto simp: det_inv_def cache_ok_def raises_def same_but_alerts_def)

lemma new_dest_host_ok:
  fixes ff n h
  assumes inv: "det_inv t0 (c, d)" and host: "rp_host p \<in> host_ids t0"
  defines "d' \<equiv> new_dest_host ff n p h d"
  shows "det_inv t0 (c, d')"
    and "novel n (tbl d) p \<Longrightarrow> 259200 \<le> n - h_first h
        \<Longrightarrow> alerted (tbl d') (rp_host p) AlertKindNewDestination (peer_dedupe p) (n - 21600)"
    and "map_option snd (map_of (known_peers (tbl d')) (peer_key p)) = Some n"
proof -
  define d2 where "d2 = snd (UpsertKnownPeer (rp_host p) (rp_rip p) (rp_rport p) n d)"
  have f: "db_faults d = []" using inv by (simp add: det_inv_def cache_ok_def)
  have "rp_host p \<in> host_ids (tbl d)" using det_inv_hosts [OF inv] host by simp
  note up = UpsertKnownPeer_ok [OF f this, of "rp_rip p" "rp_rport p" n, folded d2_def]
  have inv2: "det_inv t0 (c, d2)"
    using inv UpsertKnownPeer_effect [of "\<lambda>_. True" d] up(1) unfolding d2_def by (blast intro: det_inv_raises)
  have "(case map_option snd (map_of (known_peers (tbl d)) (peer_key p)) of None \<Rightarrow> True
      | Some l \<Rightarrow> l < n - DurSeconds NewDestinationNoveltyWindow) \<longleftrightarrow> novel n (tbl d) p"
    by (auto simp: novel_def split: option.split)
  then have eq: "d' = (if novel n (tbl d) p \<and> 259200 \<le> n - h_first h then new_dest_alert ff n p h d2 else d2)"
    using f by (simp add: d'_def new_dest_host_def KnownPeerLastSeen_def d2_def Let_def peer_key_def)
  have al: "det_inv t0 (c, new_dest_alert ff n p h d2)
      \<and> alerted (tbl (new_dest_alert ff n p h d2)) (rp_host p) AlertKindNewDestination (peer_dedupe p) (n - 21600)"
    using det_inv_raise [OF inv2 host, of "n - 21600" n AlertKindNewDestination "peer_dedupe p"]
    by (auto simp: new_dest_alert_def Let_def split: prod.split)
  have kp: "known_peers (tbl (new_dest_alert ff n p h d2)) = known_peers (tbl d2)"
    by (simp add: new_dest_alert_def Let_def raiseAlert_known_peers split: prod.split)
  show "det_inv t0 (c, d')" using eq inv2 al by simp
  show "novel n (tbl d) p \<Longrightarrow> 259200 \<le> n - h_first h
      \<Longrightarrow> alerted (tbl d') (rp_host p) AlertKindNewDestination (peer_dedupe p) (n - 21600)"
    using eq al by simp
  show "map_option snd (map_of (known_peers (tbl d')) (peer_key p)) = Some n"
    using eq up(2) kp by (simp add: peer_key_def)
qed

text \<open>What holds of a peer once its step has run.\<close>

definition peer_settled :: "int \<Rightarrow> tables \<Rightarrow> DistinctRecentPeer \<Rightarrow> tables \<Rightarrow> bool" where
  "peer_settled n t0 p t \<longleftrightarrow>
     (novel n t0 p \<and> (\<exists>h \<in> set (hosts t0). h_id h = rp_host p \<and> 259200 \<le> n - h_first h)
        \<longrightarrow> alerted t (rp_host p) AlertKindNewDestination (peer_dedupe p) (n - 21600))
     \<and> map_option snd (map_of (known_peers t) (peer_key p)) = Some n"

lemma raises_new_dest_peer: "raises (\<lambda>_. True) (tbl (snd s)) (tbl (snd (new_dest_peer ff n p s)))"
  unfolding new_dest_peer_def by (rule raises_with_host) (simp add: raises_new_dest_host(1))

lemma new_dest_peer_ok:
  assumes "wf_tables t0" and inv: "det_inv t0 s" and host: "rp_host p \<in> host_ids t0" and nov: "novel n (tbl (snd s)) p = novel n t0 p"
  shows "det_inv t0 (new_dest_peer ff n p s) \<and> peer_settled n t0 p (tbl (snd (new_dest_peer ff n p s)))"
proof -
  have hs: "hosts (tbl (snd s)) = hosts t0" using inv by (simp add: det_inv_def raises_def same_but_alerts_def)
  have "cache_ok s" "rp_host p \<in> host_ids (tbl (snd s))"
    using inv det_inv_hosts [OF inv] host by (simp_all add: det_inv_def)
  then obtain h c where w: "new_dest_peer ff n p s = (c, new_dest_host ff n p h (snd s))" "cache_ok (c, snd s)"
    "h \<in> set (hosts (tbl (snd s)))" "h_id h = rp_host p"
    by (rule with_host_ok [where f = "\<lambda>host (cache, d). (cache, new_dest_host ff n p host d)"]) (simp add: new_dest_peer_def)
  have "det_inv t0 (c, snd s)" using inv w(2) by (simp add: det_inv_def)
  note ok = new_dest_host_ok [OF this host, where ff = ff and n = n and h = h]
  have "h' = h" if "h' \<in> set (hosts t0)" "h_id h' = rp_host p" for h'
    using that w(3,4) hs assms(1) by (auto simp: wf_defs distinct_map inj_on_def)
  then show ?thesis using ok nov w(1) by (auto simp: peer_settled_def)
qed

lemma peer_settled_step:
  assumes "peer_settled n t0 p (tbl (snd s))" and "peer_key p \<noteq> peer_key q"
  shows "peer_settled n t0 p (tbl (snd (new_dest_peer ff n q s)))"
  using assms new_dest_peer_known [OF assms(2)] alerted_raises [OF raises_new_dest_peer] by (auto simp: peer_settled_def)

lemma new_dest_fold_ok:
  assumes "wf_tables t0" and "distinct (map peer_key ps)" and "\<forall>p \<in> set ps. rp_host p \<in> host_ids t0"
    and "det_inv t0 s" and "agree t0 (tbl (snd s)) ps"
  shows "\<forall>p \<in> set ps. peer_settled n t0 p (tbl (snd (fold (new_dest_peer ff n) ps s)))"
  using assms(2-)
proof (induction ps arbitrary: s)
  case (Cons p ps)
  let ?s = "new_dest_peer ff n p s"
  have 1: "det_inv t0 ?s" "peer_settled n t0 p (tbl (snd ?s))"
    using new_dest_peer_ok [OF assms(1) Cons.prems(3)] Cons.prems(2,4) novel_agree by auto
  have "agree t0 (tbl (snd ?s)) ps" using Cons.prems(1,4) by (intro agree_step)
  then have "\<forall>q \<in> set ps. peer_settled n t0 q (tbl (snd (fold (new_dest_peer ff n) ps ?s)))"
    using Cons 1(1) by auto
  moreover have "peer_settled n t0 p (tbl (snd (fold (new_dest_peer ff n) ps ?s)))"
    using Cons.prems(1)
    by (intro fold_inv [where J = "\<lambda>s. peer_settled n t0 p (tbl (snd s))", OF peer_settled_step 1(2)]) auto
  ultimately show ?case by simp
qed simp

text \<open>C23: the new-destination detector. Without driver errors, after a run every peer seen in
  the two-minute window is a known peer with the time of the run, and every peer that was unknown
  or unseen for 30 days, of a host first seen at least three days ago, has an alert in the
  six-hour cooldown window. Whatever fails, every alert a run adds is for such a peer, with severity
  warning exactly for peers that only reached in.\<close>

theorem NewDestinations_exact:
  "(db_faults d = [] \<and> wf_tables (tbl d) \<longrightarrow>
      (\<forall>p \<in> set (recent_flow_peers (Unix now - 120) (Unix now) (tbl d)).
         peer_settled (Unix now) (tbl d) p (tbl (NewDestinations ff now d))))
   \<and> (\<forall>a \<in> set (alerts (tbl (NewDestinations ff now d))). a \<in> set (alerts (tbl d)) \<or> new_dest_reason now (tbl d) (ar_rec a))"
proof (intro conjI impI)
  assume a: "db_faults d = [] \<and> wf_tables (tbl d)"
  let ?ps = "recent_flow_peers (Unix now - 120) (Unix now) (tbl d)"
  have "NewDestinations ff now d = snd (fold (new_dest_peer ff (Unix now)) ?ps (Map.empty, d))"
    using a by (simp add: NewDestinations_def RecentFlowPeers_def)
  then show "\<forall>p \<in> set ?ps. peer_settled (Unix now) (tbl d) p (tbl (NewDestinations ff now d))"
    using new_dest_fold_ok [of "tbl d" ?ps "(Map.empty, d)" "Unix now" ff] a
    by (simp add: distinct_recent_flow_peers recent_peer_hosts det_inv_init agree_def)
next
  show "\<forall>a \<in> set (alerts (tbl (NewDestinations ff now d))). a \<in> set (alerts (tbl d)) \<or> new_dest_reason now (tbl d) (ar_rec a)"
    using new_destination.run_sound by blast
qed


definition new_dest_demo :: db where
  "new_dest_demo = \<lparr>tbl = empty_tables
     \<lparr>hosts := [\<lparr>h_id = 1, h_ip = ''10.0.0.1'', h_display = None, h_mac = None, h_first = 0, h_last = 100\<rparr>],
      host_seq := 2,
      flows_recent :=
        [\<lparr>f_host = 1, f_dir = DirLANToWAN, f_proto = 6, f_lip = ''10.0.0.1'', f_lport = 40000, f_rip = ''1.2.3.4'', f_rport = 443,
          f_first = 299990, f_last = 300000, f_sent = 10, f_recv = 0, f_psent = 1, f_precv = 0\<rparr>]\<rparr>,
     db_faults = []\<rparr>"

theorem NewDestinations_exact_witness:
  "alerted (tbl (NewDestinations (\<lambda>_. []) 300000000000000 new_dest_demo)) 1 AlertKindNewDestination ''1.2.3.4:443'' 278400"
proof -
  let ?p = "\<lparr>rp_host = 1, rp_rip = ''1.2.3.4'', rp_rport = 443, rp_first = 299990, rp_out = True, rp_in = False\<rparr>"
  have wf: "wf_tables (tbl new_dest_demo) \<and> db_faults new_dest_demo = []"
    by (auto simp: new_dest_demo_def wf_defs host_ids_def empty_tables_def)
  have "recent_flow_peers (300000 - 120) 300000 (tbl new_dest_demo) = [?p]" by code_simp
  then have "peer_settled 300000 (tbl new_dest_demo) ?p (tbl (NewDestinations (\<lambda>_. []) 300000000000000 new_dest_demo))"
    using NewDestinations_exact [of new_dest_demo 300000000000000 "\<lambda>_. []"] wf by (simp add: Unix_def)
  moreover have "peer_dedupe ?p = ''1.2.3.4:443''" by code_simp
  ultimately show ?thesis
    by (simp add: peer_settled_def) (simp add: new_dest_demo_def novel_def empty_tables_def)
qed

section \<open>geo_watchlist.go\<close>

definition GeoWatchlistScanWindow :: duration where "GeoWatchlistScanWindow = 2 * Minute"
definition geoWatchlistCooldown :: duration where "geoWatchlistCooldown = 24 * Hour"
definition KeyGeoWatchlistCountries :: string where "KeyGeoWatchlistCountries = ''geo_watchlist_countries''"

lemma DurSeconds_geo [simp]: "DurSeconds GeoWatchlistScanWindow = 120" "DurSeconds geoWatchlistCooldown = 86400"
  by (simp_all add: GeoWatchlistScanWindow_def geoWatchlistCooldown_def go_time)

lemma cooldown_geo [simp]: "alert_cooldown AlertKindGeoWatchlist u = 86400"
  by (simp add: alert_cooldown_def kind_defs)

definition watch_sep :: "char \<Rightarrow> bool" where
  "watch_sep r \<longleftrightarrow> r = CHR '','' \<or> r = CHR '' '' \<or> r = CHR 0x09 \<or> r = CHR 0x0A \<or> r = CHR 0x0D"

definition ParseGeoWatchlist :: "string \<Rightarrow> string set" where
  "ParseGeoWatchlist raw =
     set (filter (\<lambda>cc. length cc = 2) (map (\<lambda>part. ToUpper (TrimSpace part)) (FieldsFunc watch_sep raw)))"

definition geo_key :: "DistinctRecentPeer \<Rightarrow> string" where
  "geo_key p = Itoa (rp_host p) @ '':'' @ rp_rip p"

definition watched_country :: "geo_record list \<Rightarrow> string set \<Rightarrow> string \<Rightarrow> string option" where
  "watched_country table watch remoteIP =
     (case ParseIP remoteIP of
        None \<Rightarrow> None
      | Some a \<Rightarrow> (case CountryForIP table a of None \<Rightarrow> None | Some cc \<Rightarrow> if cc \<in> watch then Some cc else None))"

definition geo_alert :: "(real \<Rightarrow> string) \<Rightarrow> int \<Rightarrow> DistinctRecentPeer \<Rightarrow> string \<Rightarrow> Host \<Rightarrow> db \<Rightarrow> db" where
  "geo_alert ff nowUnix p cc host =
     (let (direction, directionPhrase) = classifyPeerDirection (rp_out p) (rp_in p);
          summary = hostLabel host @ '' '' @ directionPhrase @ '' watchlisted-country ('' @ cc @ '') address '' @ rp_rip p;
          detail = [(''country'', JStr cc), (''direction'', JStr direction), (''remote_ip'', JStr (rp_rip p))]
      in raiseAlert ff (rp_host p) AlertKindGeoWatchlist SeverityWarning summary (Some detail)
           (rp_rip p) nowUnix (nowUnix - DurSeconds geoWatchlistCooldown))"

text \<open>The state of the loop: the addresses already handled, the host cache, the database.\<close>

definition geo_peer :: "(real \<Rightarrow> string) \<Rightarrow> geo_record list \<Rightarrow> string set \<Rightarrow> int \<Rightarrow> DistinctRecentPeer
    \<Rightarrow> string set \<times> host_cache \<times> db \<Rightarrow> string set \<times> host_cache \<times> db" where
  "geo_peer ff table watch nowUnix p st =
     (case st of (seen, s) \<Rightarrow>
        if geo_key p \<in> seen then (seen, s)
        else (insert (geo_key p) seen,
              (case watched_country table watch (rp_rip p) of
                 None \<Rightarrow> s
               | Some cc \<Rightarrow> with_host (rp_host p) (\<lambda>host (cache, d). (cache, geo_alert ff nowUnix p cc host d)) s)))"

definition GeoWatchlist :: "(real \<Rightarrow> string) \<Rightarrow> geo_record list \<Rightarrow> gotime \<Rightarrow> db \<Rightarrow> db" where
  "GeoWatchlist ff table now d =
     (case GetSetting KeyGeoWatchlistCountries d of
        (Inl _, d1) \<Rightarrow> d1
      | (Inr None, d1) \<Rightarrow> d1
      | (Inr (Some raw), d1) \<Rightarrow>
          (let watch = ParseGeoWatchlist raw
           in if watch = {} then d1
              else (case RecentFlowPeers (Unix now - DurSeconds GeoWatchlistScanWindow) (Unix now) d1 of
                      (Inl _, d2) \<Rightarrow> d2
                    | (Inr peers, d2) \<Rightarrow> snd (snd (fold (geo_peer ff table watch (Unix now)) peers ({}, Map.empty, d2))))))"

definition watchlist_of :: "tables \<Rightarrow> string set" where
  "watchlist_of t = (case map_of (settings t) KeyGeoWatchlistCountries of None \<Rightarrow> {} | Some raw \<Rightarrow> ParseGeoWatchlist raw)"

definition geo_reason :: "geo_record list \<Rightarrow> gotime \<Rightarrow> tables \<Rightarrow> AlertRecord \<Rightarrow> bool" where
  "geo_reason table now t a \<longleftrightarrow>
     al_kind a = AlertKindGeoWatchlist \<and> al_detected a = Unix now
     \<and> (\<exists>p \<in> set (recent_flow_peers (Unix now - 120) (Unix now) t).
          al_host a = rp_host p \<and> al_dedupe a = rp_rip p \<and> watched_country table (watchlist_of t) (rp_rip p) \<noteq> None)"

lemma raises_geo_alert:
  assumes "\<And>a. al_host a = rp_host p \<Longrightarrow> al_kind a = AlertKindGeoWatchlist \<Longrightarrow> al_dedupe a = rp_rip p \<Longrightarrow> al_detected a = n \<Longrightarrow> P a"
  shows "raises P (tbl d) (tbl (geo_alert ff n p cc h d))"
  unfolding geo_alert_def Let_def
  by (cases "classifyPeerDirection (rp_out p) (rp_in p)") (simp, rule raises_raiseAlert, simp_all add: assms)

lemma raises_geo_peer:
  assumes "watched_country table watch (rp_rip p) \<noteq> None \<Longrightarrow> (\<And>a. al_host a = rp_host p \<Longrightarrow> al_kind a = AlertKindGeoWatchlist
      \<Longrightarrow> al_dedupe a = rp_rip p \<Longrightarrow> al_detected a = n \<Longrightarrow> P a)"
  shows "raises P (tbl (snd (snd st))) (tbl (snd (snd (geo_peer ff table watch n p st))))"
proof -
  obtain seen s where st: "st = (seen, s)" by (cases st)
  have "raises P (tbl (snd s)) (tbl (snd (with_host (rp_host p) (\<lambda>host (cache, d). (cache, geo_alert ff n p cc host d)) s)))"
    if "watched_country table watch (rp_rip p) = Some cc" for cc
    by (rule raises_with_host, simp, rule raises_geo_alert) (use assms that in auto)
  then show ?thesis by (auto simp: st geo_peer_def split: option.split)
qed

lemma raises_geo_fold:
  assumes "\<And>p. p \<in> set ps \<Longrightarrow> watched_country table watch (rp_rip p) \<noteq> None \<Longrightarrow> (\<And>a. al_host a = rp_host p
      \<Longrightarrow> al_kind a = AlertKindGeoWatchlist \<Longrightarrow> al_dedupe a = rp_rip p \<Longrightarrow> al_detected a = n \<Longrightarrow> P a)"
  shows "raises P (tbl (snd (snd st))) (tbl (snd (snd (fold (geo_peer ff table watch n) ps st))))"
  using assms
proof (induction ps arbitrary: st)
  case (Cons p ps)
  have "raises P (tbl (snd (snd st))) (tbl (snd (snd (geo_peer ff table watch n p st))))"
    using Cons.prems [of p] by (intro raises_geo_peer) auto
  moreover have "raises P (tbl (snd (snd (geo_peer ff table watch n p st))))
      (tbl (snd (snd (fold (geo_peer ff table watch n) ps (geo_peer ff table watch n p st)))))"
    by (rule Cons.IH) (use Cons.prems in auto)
  ultimately show ?case by (auto intro: raises_trans)
qed simp

interpretation geo_watchlist: detector "GeoWatchlist ff table" "geo_reason table"
proof
  fix now :: gotime and d :: db
  let ?R = "raises (geo_reason table now (tbl d))"
  obtain g d1 where g: "GetSetting KeyGeoWatchlistCountries d = (g, d1)" by fastforce
  have d1: "tbl d1 = tbl d" using g by (auto simp: GetSetting_def dest: query_tblD)
  obtain r d2 where r: "RecentFlowPeers (Unix now - 120) (Unix now) d1 = (r, d2)" by fastforce
  have d2: "tbl d2 = tbl d" using r d1 by (auto simp: RecentFlowPeers_def dest: query_tblD)
  show "?R (tbl d) (tbl (GeoWatchlist ff table now d))"
  proof (cases "\<exists>raw peers. g = Inr (Some raw) \<and> ParseGeoWatchlist raw \<noteq> {} \<and> r = Inr peers")
    case True
    then obtain raw peers where gr: "g = Inr (Some raw)" "ParseGeoWatchlist raw \<noteq> {}" "r = Inr peers" by blast
    have "map_of (settings (tbl d)) KeyGeoWatchlistCountries = Some raw"
      using g gr(1) by (auto simp: GetSetting_def query_def split: prod.splits if_splits)
    then have w: "watchlist_of (tbl d) = ParseGeoWatchlist raw" by (simp add: watchlist_of_def)
    have peers: "peers = recent_flow_peers (Unix now - 120) (Unix now) (tbl d)"
      using r gr(3) d1 by (auto simp: RecentFlowPeers_def query_def split: prod.splits if_splits)
    have "?R (tbl (snd (snd ({} :: string set, Map.empty :: host_cache, d2))))
        (tbl (snd (snd (fold (geo_peer ff table (ParseGeoWatchlist raw) (Unix now)) peers ({}, Map.empty, d2)))))"
      by (rule raises_geo_fold) (auto simp: geo_reason_def peers w)
    then show ?thesis using g r gr d2 by (simp add: GeoWatchlist_def)
  next
    case False
    then have "tbl (GeoWatchlist ff table now d) = tbl d"
      using g r d1 d2 by (auto simp: GeoWatchlist_def Let_def split: sum.splits option.splits)
    then show ?thesis by simp
  qed
qed


lemma geo_key_inj:
  assumes "geo_key p = geo_key q" and "0 \<le> rp_host p" and "0 \<le> rp_host q"
  shows "rp_host p = rp_host q \<and> rp_rip p = rp_rip q"
proof -
  have no: "CHR '':'' \<notin> set (Itoa n)" if "0 \<le> n" for n
    using Itoa_digits [OF that] by (auto simp: list_all_iff dest!: bspec isDigit_not_sep)
  have "hd (split_on (CHR '':'') (geo_key x)) = Itoa (rp_host x)" if "0 \<le> rp_host x" for x
    using no [OF that] by (simp add: geo_key_def split_on_append_sep)
  then have "Itoa (rp_host p) = Itoa (rp_host q)" using assms by metis
  then show ?thesis using assms by (auto simp: geo_key_def dest: Itoa_inj)
qed

definition geo_settled :: "geo_record list \<Rightarrow> string set \<Rightarrow> int \<Rightarrow> DistinctRecentPeer \<Rightarrow> tables \<Rightarrow> bool" where
  "geo_settled table watch n p t \<longleftrightarrow>
     (watched_country table watch (rp_rip p) \<noteq> None \<longrightarrow> alerted t (rp_host p) AlertKindGeoWatchlist (rp_rip p) (n - 86400))"

lemma geo_peer_ok:
  assumes inv: "det_inv t0 (snd st)" and host: "rp_host p \<in> host_ids t0"
    and seen: "geo_key p \<in> fst st \<Longrightarrow> geo_settled table watch n p (tbl (snd (snd st)))"
  shows "det_inv t0 (snd (geo_peer ff table watch n p st))"
    and "geo_settled table watch n p (tbl (snd (snd (geo_peer ff table watch n p st))))"
    and "fst (geo_peer ff table watch n p st) = insert (geo_key p) (fst st)"
proof -
  obtain sn s where st: "st = (sn, s)" by (cases st)
  let ?Q = "\<lambda>s. det_inv t0 s \<and> alerted (tbl (snd s)) (rp_host p) AlertKindGeoWatchlist (rp_rip p) (n - 86400)"
  have "?Q (c, geo_alert ff n p cc h d)" if "det_inv t0 (c, d)" for c cc h d
    using det_inv_raise [OF that host, of "n - 86400" n AlertKindGeoWatchlist "rp_rip p"]
    by (simp add: geo_alert_def Let_def split: prod.split)
  then have w: "?Q (with_host (rp_host p) (\<lambda>host (cache, d). (cache, geo_alert ff n p cc host d)) s)" for cc
    using inv host by (intro with_host_inv [of t0 s "rp_host p" ?Q]) (simp_all add: st)
  show "det_inv t0 (snd (geo_peer ff table watch n p st))"
    using inv w by (auto simp: st geo_peer_def split: option.split)
  show "geo_settled table watch n p (tbl (snd (snd (geo_peer ff table watch n p st))))"
    using seen w by (auto simp: st geo_peer_def geo_settled_def split: option.split)
  show "fst (geo_peer ff table watch n p st) = insert (geo_key p) (fst st)"
    by (auto simp: st geo_peer_def)
qed

lemma geo_settled_step:
  "geo_settled table watch n q (tbl (snd (snd st))) \<Longrightarrow> geo_settled table watch n q (tbl (snd (snd (geo_peer ff table watch n p st))))"
  unfolding geo_settled_def using alerted_raises [OF raises_geo_peer [where P = "\<lambda>_. True"]] by blast

lemma geo_fold_ok:
  assumes "\<forall>p \<in> set ps. rp_host p \<in> host_ids t0 \<and> 0 \<le> rp_host p" and "det_inv t0 (snd st)"
    and "\<forall>p \<in> set ps. geo_key p \<in> fst st \<longrightarrow> geo_settled table watch n p (tbl (snd (snd st)))"
  shows "\<forall>p \<in> set ps. geo_settled table watch n p (tbl (snd (snd (fold (geo_peer ff table watch n) ps st))))"
  using assms
proof (induction ps arbitrary: st)
  case (Cons p ps)
  let ?st = "geo_peer ff table watch n p st"
  have "rp_host p \<in> host_ids t0" using Cons.prems(1) by simp
  from geo_peer_ok [OF Cons.prems(2) this, of table watch n ff]
  have "det_inv t0 (snd ?st)" "geo_settled table watch n p (tbl (snd (snd ?st)))" "fst ?st = insert (geo_key p) (fst st)"
    using Cons.prems(3) by simp_all
  note st = this
  have "geo_settled table watch n q (tbl (snd (snd ?st)))" if "q \<in> set ps" "geo_key q \<in> fst ?st" for q
  proof (cases "geo_key q = geo_key p")
    case True
    then have "rp_host q = rp_host p \<and> rp_rip q = rp_rip p" 
      using geo_key_inj [of q p] Cons.prems(1) that(1) by simp
    then show ?thesis using st(2) by (simp add: geo_settled_def)
  next
    case False
    then show ?thesis using Cons.prems(3) that st(3) by (auto intro: geo_settled_step)
  qed
  then have "\<forall>q \<in> set ps. geo_settled table watch n q (tbl (snd (snd (fold (geo_peer ff table watch n) ps ?st))))"
    using Cons st(1) by auto
  moreover have "geo_settled table watch n p (tbl (snd (snd (fold (geo_peer ff table watch n) ps ?st))))"
    by (rule fold_inv [where J = "\<lambda>st. geo_settled table watch n p (tbl (snd (snd st)))", OF geo_settled_step st(2)])
  ultimately show ?case by simp
qed simp

text \<open>C24: the geo-watchlist detector. Without driver errors, after a run every remote address seen
  in the two-minute window whose country, by the embedded table, is on the administrator's list
  has an alert for each host that talked to it within the 24-hour cooldown, although several
  ports of a peer are collapsed; whatever fails, every alert a run adds is for such an address,
  and with no watchlist none is added.\<close>

theorem GeoWatchlist_exact:
  "(db_faults d = [] \<and> wf_tables (tbl d) \<longrightarrow>
      (\<forall>p \<in> set (recent_flow_peers (Unix now - 120) (Unix now) (tbl d)).
         watched_country table (watchlist_of (tbl d)) (rp_rip p) \<noteq> None \<longrightarrow>
         alerted (tbl (GeoWatchlist ff table now d)) (rp_host p) AlertKindGeoWatchlist (rp_rip p) (Unix now - 86400)))
   \<and> (\<forall>a \<in> set (alerts (tbl (GeoWatchlist ff table now d))). a \<in> set (alerts (tbl d)) \<or> geo_reason table now (tbl d) (ar_rec a))"
proof (intro conjI impI ballI)
  fix p
  assume a: "db_faults d = [] \<and> wf_tables (tbl d)"
    and p: "p \<in> set (recent_flow_peers (Unix now - 120) (Unix now) (tbl d))"
    and w: "watched_country table (watchlist_of (tbl d)) (rp_rip p) \<noteq> None"
  let ?ps = "recent_flow_peers (Unix now - 120) (Unix now) (tbl d)"
  have "watchlist_of (tbl d) \<noteq> {}" using w by (auto simp: watched_country_def split: option.splits)
  then have "GeoWatchlist ff table now d
      = snd (snd (fold (geo_peer ff table (watchlist_of (tbl d)) (Unix now)) ?ps ({}, Map.empty, d)))"
    using a by (auto simp: GeoWatchlist_def GetSetting_def RecentFlowPeers_def watchlist_of_def Let_def split: option.split)
  moreover have "rp_host q \<in> host_ids (tbl d) \<and> 0 \<le> rp_host q" if "q \<in> set ?ps" for q
    using recent_peer_hosts [OF conjunct2 [OF a] that] a by (force simp: wf_defs host_ids_def)
  ultimately show "alerted (tbl (GeoWatchlist ff table now d)) (rp_host p) AlertKindGeoWatchlist (rp_rip p) (Unix now - 86400)"
    using geo_fold_ok [of ?ps "tbl d" "({}, Map.empty, d)" table "watchlist_of (tbl d)" "Unix now" ff] a p w
    by (simp add: det_inv_init geo_settled_def)
qed (use geo_watchlist.run_sound in blast)

definition geo_demo :: db where
  "geo_demo = new_dest_demo\<lparr>tbl := (tbl new_dest_demo)\<lparr>settings := [(KeyGeoWatchlistCountries, ''cn, ru'')]\<rparr>\<rparr>"

theorem GeoWatchlist_exact_witness:
  "alerted (tbl (GeoWatchlist (\<lambda>_. []) [\<lparr>r_start = 0x01020300, r_end = 0x010203FF, r_cc = ''RU''\<rparr>] 300000000000000 geo_demo))
     1 AlertKindGeoWatchlist ''1.2.3.4'' 213600"
proof -
  let ?p = "\<lparr>rp_host = 1, rp_rip = ''1.2.3.4'', rp_rport = 443, rp_first = 299990, rp_out = True, rp_in = False\<rparr>"
  let ?t = "[\<lparr>r_start = 0x01020300, r_end = 0x010203FF, r_cc = ''RU''\<rparr>] :: geo_record list"
  have wf: "wf_tables (tbl geo_demo) \<and> db_faults geo_demo = []"
    by (auto simp: geo_demo_def new_dest_demo_def wf_defs host_ids_def empty_tables_def)
  have "recent_flow_peers (300000 - 120) 300000 (tbl geo_demo) = [?p]" by code_simp
  moreover have "watched_country ?t (watchlist_of (tbl geo_demo)) ''1.2.3.4'' = Some ''RU''" by code_simp
  ultimately show ?thesis
    using GeoWatchlist_exact [of geo_demo 300000000000000 ?t "\<lambda>_. []"] wf by (simp add: Unix_def)
qed

end
