(* ===== verification/Detect_Stats.thy ===== *)
theory Detect_Stats
  imports Detect_Core
begin

text \<open>
  The statistical detectors: \<open>beaconing.go\<close> (regular contact intervals) and \<open>dns_anomaly.go\<close>
  (query volume and label entropy). Floats are read as reals. \<open>Beaconing\<close> ranges over a Go
  map: the order in which it meets the groups is given by an arbitrary ranking of the keys.
\<close>

section \<open>beaconing.go\<close>

definition BeaconingWindow :: duration where "BeaconingWindow = 24 * Hour"
definition beaconingMinObservations :: nat where "beaconingMinObservations = 5"
definition beaconingMinInterval :: duration where "beaconingMinInterval = 10 * Second"
definition beaconingMaxInterval :: duration where "beaconingMaxInterval = 6 * Hour"
definition beaconingMaxCoeffVariation :: real where "beaconingMaxCoeffVariation = 1 / 5"
definition beaconingCooldown :: duration where "beaconingCooldown = 6 * Hour"

lemma DurSeconds_beaconing [simp]:
  "DurSeconds BeaconingWindow = 86400" "DurSeconds beaconingCooldown = 21600"
  "DurSeconds beaconingMinInterval = 10" "DurSeconds beaconingMaxInterval = 21600"
  by (simp_all add: BeaconingWindow_def beaconingCooldown_def beaconingMinInterval_def beaconingMaxInterval_def go_time)

definition interval_deltas :: "int list \<Rightarrow> real list" where
  "interval_deltas ts = map (\<lambda>(a, b). of_int (int64 (b - a))) (zip ts (tl ts))"

definition intervalStats :: "int list \<Rightarrow> real \<times> real" where
  "intervalStats sortedTimestamps =
     (if length sortedTimestamps < 2 then (0, 0)
      else let deltas = interval_deltas sortedTimestamps;
               mean = sum_list deltas / of_nat (length deltas);
               variance = sum_list (map (\<lambda>d. (d - mean) * (d - mean)) deltas) / of_nat (length deltas)
           in (mean, sqrt variance))"

definition beacon_alert :: "(real \<Rightarrow> string) \<Rightarrow> int \<Rightarrow> peer_key \<Rightarrow> int list \<Rightarrow> Host \<Rightarrow> db \<Rightarrow> db" where
  "beacon_alert ff nowUnix k timestamps host =
     (case k of (hostID, remoteIP, remotePort) \<Rightarrow>
        (let mean = fst (intervalStats timestamps);
             dedupeKey = remoteIP @ '':'' @ Itoa remotePort;
             summary = hostLabel host @ '' is contacting '' @ remoteIP @ '':'' @ Itoa remotePort
               @ '' at suspiciously regular ~'' @ dur_string (round_seconds \<lfloor>mean * of_int Second\<rfloor>) @ '' intervals'';
             detail = [(''mean_interval_s'', JFloat mean), (''observations'', JInt (int (length timestamps))),
                       (''remote_ip'', JStr remoteIP), (''remote_port'', JInt remotePort)]
         in raiseAlert ff hostID AlertKindBeaconing SeverityWarning summary (Some detail) dedupeKey nowUnix
              (nowUnix - DurSeconds beaconingCooldown)))"

definition beacon_group :: "(real \<Rightarrow> string) \<Rightarrow> int \<Rightarrow> peer_key \<times> int list \<Rightarrow> host_cache \<times> db \<Rightarrow> host_cache \<times> db" where
  "beacon_group ff nowUnix g s =
     (case g of (k, timestamps) \<Rightarrow>
        if length timestamps < beaconingMinObservations then s
        else let (mean, stddev) = intervalStats timestamps
             in if mean \<le> 0 then s
                else if mean < of_int (DurSeconds beaconingMinInterval) \<or> of_int (DurSeconds beaconingMaxInterval) < mean then s
                else if beaconingMaxCoeffVariation < stddev / mean then s
                else with_host (fst k) (\<lambda>host (cache, d). (cache, beacon_alert ff nowUnix k timestamps host d)) s)"

definition beacon_groups :: "PeerFlowTimestamp list \<Rightarrow> (peer_key \<times> int list) list" where
  "beacon_groups rows = map (\<lambda>g. (fst g, map pt_first (snd g))) (group_by (\<lambda>r. (pt_host r, pt_rip r, pt_rport r)) rows)"

definition Beaconing :: "(real \<Rightarrow> string) \<Rightarrow> (peer_key \<Rightarrow> nat) \<Rightarrow> gotime \<Rightarrow> db \<Rightarrow> db" where
  "Beaconing ff rank now d =
     (case PeerFlowTimestamps (Unix now - DurSeconds BeaconingWindow) (Unix now) d of
        (Inl _, d') \<Rightarrow> d'
      | (Inr rows, d') \<Rightarrow> snd (fold (beacon_group ff (Unix now)) (sort_key (\<lambda>g. rank (fst g)) (beacon_groups rows)) (Map.empty, d')))"

text \<open>When a list of contact times counts as a beacon.\<close>

definition beacon_like :: "int list \<Rightarrow> bool" where
  "beacon_like ts \<longleftrightarrow>
     5 \<le> length ts \<and> 10 \<le> fst (intervalStats ts) \<and> fst (intervalStats ts) \<le> 21600
     \<and> snd (intervalStats ts) \<le> fst (intervalStats ts) / 5"

lemma beacon_group_eq:
  "beacon_group ff n (k, ts) s =
     (if beacon_like ts then with_host (fst k) (\<lambda>host (cache, d). (cache, beacon_alert ff n k ts host d)) s else s)"
proof -
  obtain mean sd where ms: "intervalStats ts = (mean, sd)" by (cases "intervalStats ts")
  have "1 / 5 < sd / mean \<longleftrightarrow> \<not> sd \<le> mean / 5" if "10 \<le> mean"
    using that by (simp add: field_simps not_le)
  then show ?thesis
    by (auto simp: beacon_group_def beacon_like_def ms beaconingMinObservations_def beaconingMaxCoeffVariation_def)
qed

section \<open>dns_anomaly.go\<close>

definition DNSWindow :: duration where "DNSWindow = 10 * Minute"
definition dnsVolumeThreshold :: int where "dnsVolumeThreshold = 300"
definition dnsEntropyMinLabelLen :: nat where "dnsEntropyMinLabelLen = 12"
definition dnsEntropyThreshold :: real where "dnsEntropyThreshold = 36 / 10"
definition dnsVolumeCooldown :: duration where "dnsVolumeCooldown = 1 * Hour"
definition dnsEntropyCooldown :: duration where "dnsEntropyCooldown = 6 * Hour"

lemma DurSeconds_dns [simp]:
  "DurSeconds DNSWindow = 600" "DurSeconds dnsVolumeCooldown = 3600" "DurSeconds dnsEntropyCooldown = 21600"
  by (simp_all add: DNSWindow_def dnsVolumeCooldown_def dnsEntropyCooldown_def go_time)

definition leftmostLabel :: "string \<Rightarrow> string" where
  "leftmostLabel qname = takeWhile (\<lambda>c. c \<noteq> CHR ''.'') (TrimSuffix qname ''.'')"

definition shannonEntropy :: "string \<Rightarrow> real" where
  "shannonEntropy s =
     (if s = [] then 0
      else sum_list (map (\<lambda>r. let p = of_nat (count_list (runes s) r) / of_nat (length s) in - (p * log 2 p))
             (remdups (runes s))))"

definition dns_volume_alert :: "(real \<Rightarrow> string) \<Rightarrow> int \<Rightarrow> int \<times> int \<Rightarrow> Host \<Rightarrow> db \<Rightarrow> db" where
  "dns_volume_alert ff nowUnix c host =
     raiseAlert ff (fst c) AlertKindDNSAnomaly SeverityWarning
       (hostLabel host @ '' made '' @ Itoa (snd c) @ '' DNS queries in the last '' @ dur_string (DurSeconds DNSWindow))
       (Some [(''query_count'', JInt (snd c)), (''window_seconds'', JInt (DurSeconds DNSWindow))])
       ''volume'' nowUnix (nowUnix - DurSeconds dnsVolumeCooldown)"

definition dns_volume_step :: "(real \<Rightarrow> string) \<Rightarrow> int \<Rightarrow> int \<times> int \<Rightarrow> db \<Rightarrow> db" where
  "dns_volume_step ff nowUnix c d =
     (if snd c < dnsVolumeThreshold then d else with_host_row (fst c) (dns_volume_alert ff nowUnix c) d)"

definition dnsVolume :: "(real \<Rightarrow> string) \<Rightarrow> int \<Rightarrow> int \<Rightarrow> db \<Rightarrow> db" where
  "dnsVolume ff since nowUnix d =
     (case DNSQueryCounts since nowUnix d of
        (Inl _, d') \<Rightarrow> d'
      | (Inr counts, d') \<Rightarrow> fold (dns_volume_step ff nowUnix) counts d')"

definition dns_entropy_alert :: "(real \<Rightarrow> string) \<Rightarrow> int \<Rightarrow> DNSQueryRow \<Rightarrow> Host \<Rightarrow> db \<Rightarrow> db" where
  "dns_entropy_alert ff nowUnix r host =
     raiseAlert ff (dr_host r) AlertKindDNSAnomaly SeverityInfo
       (hostLabel host @ '' queried a high-entropy domain name: '' @ dr_name r)
       (Some [(''qname'', JStr (dr_name r))]) (''entropy:'' @ dr_name r) nowUnix (nowUnix - DurSeconds dnsEntropyCooldown)"

definition dns_entropy_step :: "(real \<Rightarrow> string) \<Rightarrow> int \<Rightarrow> DNSQueryRow \<Rightarrow> host_cache \<times> db \<Rightarrow> host_cache \<times> db" where
  "dns_entropy_step ff nowUnix r s =
     (let label = leftmostLabel (dr_name r)
      in if length label < dnsEntropyMinLabelLen then s
         else if shannonEntropy label < dnsEntropyThreshold then s
         else with_host (dr_host r) (\<lambda>host (cache, d). (cache, dns_entropy_alert ff nowUnix r host d)) s)"

definition dnsEntropy :: "(real \<Rightarrow> string) \<Rightarrow> int \<Rightarrow> int \<Rightarrow> db \<Rightarrow> db" where
  "dnsEntropy ff since nowUnix d =
     (case DNSQueriesInRange since nowUnix d of
        (Inl _, d') \<Rightarrow> d'
      | (Inr rows, d') \<Rightarrow> snd (fold (dns_entropy_step ff nowUnix) rows (Map.empty, d')))"

definition DNSAnomaly :: "(real \<Rightarrow> string) \<Rightarrow> gotime \<Rightarrow> db \<Rightarrow> db" where
  "DNSAnomaly ff now d =
     (let nowUnix = Unix now; since = nowUnix - DurSeconds DNSWindow
      in dnsEntropy ff since nowUnix (dnsVolume ff since nowUnix d))"

section \<open>Both keep the contract of a detector\<close>

lemma cooldowns_stats [simp]:
  "alert_cooldown AlertKindBeaconing u = 21600" "alert_cooldown AlertKindDNSAnomaly ''volume'' = 3600"
  "alert_cooldown AlertKindDNSAnomaly (''entropy:'' @ q) = 21600"
  by (simp_all add: alert_cooldown_def kind_defs)

definition beacon_reason :: "gotime \<Rightarrow> tables \<Rightarrow> AlertRecord \<Rightarrow> bool" where
  "beacon_reason now t a \<longleftrightarrow>
     al_kind a = AlertKindBeaconing \<and> al_detected a = Unix now
     \<and> (\<exists>(k, ts) \<in> set (beacon_groups (peer_flow_timestamps (Unix now - 86400) (Unix now) t)).
          al_host a = fst k \<and> al_dedupe a = fst (snd k) @ '':'' @ Itoa (snd (snd k)) \<and> beacon_like ts)"

lemma raises_beacon_alert:
  assumes "\<And>a. al_host a = fst k \<Longrightarrow> al_kind a = AlertKindBeaconing \<Longrightarrow> al_dedupe a = fst (snd k) @ '':'' @ Itoa (snd (snd k))
      \<Longrightarrow> al_detected a = n \<Longrightarrow> P a"
  shows "raises P (tbl d) (tbl (beacon_alert ff n k ts h d))"
proof -
  obtain i ip port where k: "k = (i, ip, port)" by (cases k)
  show ?thesis unfolding beacon_alert_def k Let_def prod.case
    by (rule raises_raiseAlert) (simp_all add: assms k)
qed

lemma raises_beacon_group:
  assumes "beacon_like (snd g) \<Longrightarrow> (\<And>a. al_host a = fst (fst g) \<Longrightarrow> al_kind a = AlertKindBeaconing
      \<Longrightarrow> al_dedupe a = fst (snd (fst g)) @ '':'' @ Itoa (snd (snd (fst g))) \<Longrightarrow> al_detected a = n \<Longrightarrow> P a)"
  shows "raises P (tbl (snd s)) (tbl (snd (beacon_group ff n g s)))"
proof -
  obtain k ts where g: "g = (k, ts)" by (cases g)
  show ?thesis
  proof (cases "beacon_like ts")
    case True
    have "raises P (tbl (snd s)) (tbl (snd (with_host (fst k) (\<lambda>host (cache, d). (cache, beacon_alert ff n k ts host d)) s)))"
      by (rule raises_with_host, simp, rule raises_beacon_alert) (use assms True g in auto)
    then show ?thesis using True by (simp add: g beacon_group_eq)
  qed (simp add: g beacon_group_eq)
qed

interpretation beaconing: detector "Beaconing ff rank" beacon_reason
proof
  fix now :: gotime and d :: db
  obtain r d' where r: "PeerFlowTimestamps (Unix now - 86400) (Unix now) d = (r, d')" by fastforce
  then have d': "tbl d' = tbl d" by (auto simp: PeerFlowTimestamps_def dest: query_tblD)
  show "raises (beacon_reason now (tbl d)) (tbl d) (tbl (Beaconing ff rank now d))"
  proof (cases r)
    case (Inr rows)
    then have rows: "rows = peer_flow_timestamps (Unix now - 86400) (Unix now) (tbl d)"
      using r by (auto simp: PeerFlowTimestamps_def query_def split: prod.splits if_splits)
    have "raises (beacon_reason now (tbl d)) (tbl (snd (Map.empty :: host_cache, d')))
        (tbl (snd (fold (beacon_group ff (Unix now)) (sort_key (\<lambda>g. rank (fst g)) (beacon_groups rows)) (Map.empty, d'))))"
    proof (intro raises_fold raises_beacon_group)
      fix g and a :: AlertRecord
      assume g: "g \<in> set (sort_key (\<lambda>g. rank (fst g)) (beacon_groups rows))" and *: "beacon_like (snd g)" "al_host a = fst (fst g)"
        "al_kind a = AlertKindBeaconing" "al_dedupe a = fst (snd (fst g)) @ '':'' @ Itoa (snd (snd (fst g)))" "al_detected a = Unix now"
      from g have "g \<in> set (beacon_groups rows)" by simp
      then show "beacon_reason now (tbl d) a" using * unfolding beacon_reason_def rows by (auto intro!: bexI [of _ g] split: prod.split)
    qed
    then show ?thesis using r Inr d' by (simp add: Beaconing_def)
  qed (use r d' in \<open>simp add: Beaconing_def\<close>)
qed

definition dns_reason :: "gotime \<Rightarrow> tables \<Rightarrow> AlertRecord \<Rightarrow> bool" where
  "dns_reason now t a \<longleftrightarrow>
     al_kind a = AlertKindDNSAnomaly \<and> al_detected a = Unix now
     \<and> (al_dedupe a = ''volume''
          \<and> 300 \<le> length (filter (\<lambda>q. q_host q = al_host a \<and> dns_in_window (Unix now - 600) (Unix now) q) (dns_queries t))
        \<or> (\<exists>q \<in> set (dns_queries t). q_host q = al_host a \<and> dns_in_window (Unix now - 600) (Unix now) q
             \<and> al_dedupe a = ''entropy:'' @ q_name q \<and> 12 \<le> length (leftmostLabel (q_name q))
             \<and> 36 / 10 \<le> shannonEntropy (leftmostLabel (q_name q))))"

lemma raises_dnsVolume:
  "raises (dns_reason now (tbl d)) (tbl d) (tbl (dnsVolume ff (Unix now - 600) (Unix now) d))"
proof -
  obtain r d' where r: "DNSQueryCounts (Unix now - 600) (Unix now) d = (r, d')" by fastforce
  then have d': "tbl d' = tbl d" by (auto simp: DNSQueryCounts_def dest: query_tblD)
  have alert: "raises P (tbl d) (tbl (dns_volume_step ff n c d))"
    if "dnsVolumeThreshold \<le> snd c \<Longrightarrow> (\<And>a. al_host a = fst c \<Longrightarrow> al_kind a = AlertKindDNSAnomaly
      \<Longrightarrow> al_dedupe a = ''volume'' \<Longrightarrow> al_detected a = n \<Longrightarrow> P a)" for P c n d
  proof (cases "snd c < dnsVolumeThreshold")
    case False
    then have "raises P (tbl d) (tbl (dns_volume_alert ff n c h d))" for h d
      unfolding dns_volume_alert_def using that by (intro raises_raiseAlert) auto
    then show ?thesis by (simp add: dns_volume_step_def raises_with_host_row)
  qed (simp add: dns_volume_step_def)
  show ?thesis
  proof (cases r)
    case (Inr counts)
    then have cs: "counts = map (\<lambda>g. (fst g, int (length (snd g))))
        (group_by q_host (filter (dns_in_window (Unix now - 600) (Unix now)) (dns_queries (tbl d))))"
      using r by (auto simp: DNSQueryCounts_def query_def split: prod.splits if_splits)
    have "raises (dns_reason now (tbl d)) (tbl d') (tbl (fold (dns_volume_step ff (Unix now)) counts d'))"
    proof (intro raises_fold_db alert)
      fix c and a :: AlertRecord
      assume "c \<in> set counts" and *: "dnsVolumeThreshold \<le> snd c" "al_host a = fst c" "al_kind a = AlertKindDNSAnomaly"
        "al_dedupe a = ''volume''" "al_detected a = Unix now"
      then have "snd c = int (length (filter (\<lambda>q. q_host q = fst c)
          (filter (dns_in_window (Unix now - 600) (Unix now)) (dns_queries (tbl d)))))"
        by (auto simp: cs group_by_def)
      then show "dns_reason now (tbl d) a"
        using * by (simp add: dns_reason_def dnsVolumeThreshold_def conj_commute)
    qed
    then show ?thesis using r Inr d' by (simp add: dnsVolume_def)
  qed (use r d' in \<open>simp add: dnsVolume_def\<close>)
qed

lemma raises_dns_entropy_step:
  assumes "12 \<le> length (leftmostLabel (dr_name r)) \<Longrightarrow> 36 / 10 \<le> shannonEntropy (leftmostLabel (dr_name r)) \<Longrightarrow>
      (\<And>a. al_host a = dr_host r \<Longrightarrow> al_kind a = AlertKindDNSAnomaly \<Longrightarrow> al_dedupe a = ''entropy:'' @ dr_name r \<Longrightarrow> al_detected a = n \<Longrightarrow> P a)"
  shows "raises P (tbl (snd s)) (tbl (snd (dns_entropy_step ff n r s)))"
proof (cases "12 \<le> length (leftmostLabel (dr_name r)) \<and> 36 / 10 \<le> shannonEntropy (leftmostLabel (dr_name r))")
  case True
  have "raises P (tbl d) (tbl (dns_entropy_alert ff n r h d))" for h d
    unfolding dns_entropy_alert_def using assms True
    by (intro raises_raiseAlert) (auto simp: alert_cooldown_def kind_defs)
  then have "raises P (tbl (snd s)) (tbl (snd (with_host (dr_host r) (\<lambda>host (cache, d). (cache, dns_entropy_alert ff n r host d)) s)))"
    by (intro raises_with_host) simp
  then show ?thesis using True by (simp add: dns_entropy_step_def Let_def dnsEntropyMinLabelLen_def dnsEntropyThreshold_def)
qed (auto simp: dns_entropy_step_def Let_def dnsEntropyMinLabelLen_def dnsEntropyThreshold_def)

lemma raises_dnsEntropy:
  assumes "dns_queries (tbl d) = dns_queries t0"
  shows "raises (dns_reason now t0) (tbl d) (tbl (dnsEntropy ff (Unix now - 600) (Unix now) d))"
proof -
  obtain r d' where r: "DNSQueriesInRange (Unix now - 600) (Unix now) d = (r, d')" by fastforce
  then have d': "tbl d' = tbl d" by (auto simp: DNSQueriesInRange_def dest: query_tblD)
  show ?thesis
  proof (cases r)
    case (Inr rows)
    then have rs: "rows = map (\<lambda>q. \<lparr>dr_host = q_host q, dr_name = q_name q, dr_ts = q_ts q\<rparr>)
        (filter (dns_in_window (Unix now - 600) (Unix now)) (dns_queries t0))"
      using r assms by (auto simp: DNSQueriesInRange_def query_def split: prod.splits if_splits)
    have "raises (dns_reason now t0) (tbl (snd (Map.empty :: host_cache, d')))
        (tbl (snd (fold (dns_entropy_step ff (Unix now)) rows (Map.empty, d'))))"
      by (intro raises_fold raises_dns_entropy_step) (auto simp: rs dns_reason_def)
    then show ?thesis using r Inr d' by (simp add: dnsEntropy_def)
  qed (use r d' in \<open>simp add: dnsEntropy_def\<close>)
qed

interpretation dns_anomaly: detector "DNSAnomaly ff" dns_reason
proof
  fix now :: gotime and d :: db
  have v: "raises (dns_reason now (tbl d)) (tbl d) (tbl (dnsVolume ff (Unix now - 600) (Unix now) d))"
    by (rule raises_dnsVolume)
  then have "dns_queries (tbl (dnsVolume ff (Unix now - 600) (Unix now) d)) = dns_queries (tbl d)"
    by (simp add: raises_def same_but_alerts_def)
  from raises_trans [OF v raises_dnsEntropy [OF this]]
  show "raises (dns_reason now (tbl d)) (tbl d) (tbl (DNSAnomaly ff now d))"
    by (simp add: DNSAnomaly_def Let_def)
qed

section \<open>Entropy\<close>

lemma log2_bound: "0 < x \<Longrightarrow> log 2 x \<le> (x - 1) / ln 2" for x :: real
  using ln_le_minus_one [of x] by (simp add: log_def divide_right_mono)

text \<open>One symbol contributes at most its share of \<open>log n\<close> plus a correction that sums to at
  most zero (Gibbs' inequality).\<close>

lemma entropy_term:
  fixes n :: nat
  assumes "0 < c" and "0 < n"
  defines "p \<equiv> real c / real n"
  shows "- (p * log 2 p) \<le> p * log 2 n + (1 / n - p) / ln 2"
proof -
  have p: "0 < p" using assms by simp
  have "- log 2 p - log 2 n = log 2 (1 / (p * n))"
    using p assms(2) by (simp add: log_divide log_mult)
  also have "\<dots> \<le> (1 / (p * n) - 1) / ln 2"
    using p assms(2) by (intro log2_bound) simp
  finally have "p * (- log 2 p - log 2 n) \<le> p * ((1 / (p * n) - 1) / ln 2)"
    using p by (intro mult_left_mono) auto
  also have "\<dots> = (1 / n - p) / ln 2"
    using p by (simp add: field_simps)
  finally show ?thesis by (simp add: algebra_simps)
qed

lemma sum_count_list_remdups: "sum_list (map (\<lambda>r. count_list xs r) (remdups xs)) = length xs"
  by (simp add: sum_list_distinct_conv_sum_set sum_count_set)

lemma shannonEntropy_le_log_length:
  assumes "s \<noteq> []"
  shows "shannonEntropy s \<le> log 2 (length s)"
proof -
  let ?n = "length s" and ?rs = "remdups (runes s)" and ?c = "\<lambda>r. count_list (runes s) r"
  have n: "0 < ?n" "1 \<le> ?n" using assms by (simp_all add: Suc_leI)
  have "shannonEntropy s \<le> sum_list (map (\<lambda>r. real (?c r) / ?n * log 2 ?n + (1 / ?n - real (?c r) / ?n) / ln 2) ?rs)"
  proof -
    have "- (real (?c r) / ?n * log 2 (real (?c r) / ?n)) \<le> real (?c r) / ?n * log 2 ?n + (1 / ?n - real (?c r) / ?n) / ln 2"
      if "r \<in> set ?rs" for r
      using that n by (intro entropy_term) (auto simp: count_list_0_iff neq0_conv [symmetric])
    then show ?thesis
      unfolding shannonEntropy_def Let_def using assms by (simp only: if_False) (rule sum_list_mono)
  qed
  also have "\<dots> = (\<Sum>r\<in>set ?rs. real (?c r) / ?n * log 2 ?n + (1 / ?n - real (?c r) / ?n) / ln 2)"
    by (simp add: sum_list_distinct_conv_sum_set)
  also have "\<dots> = (\<Sum>r\<in>set ?rs. real (?c r)) / ?n * log 2 ?n + (card (set ?rs) / ?n - (\<Sum>r\<in>set ?rs. real (?c r)) / ?n) / ln 2"
    by (simp add: sum.distrib sum_subtractf sum_distrib_right flip: sum_divide_distrib)
  also have "(\<Sum>r\<in>set ?rs. real (?c r)) = real (length (runes s))"
    using sum_count_set [of "runes s" "set (runes s)"] by (simp flip: of_nat_sum)
  also have "real (length (runes s)) / ?n * log 2 ?n + (card (set ?rs) / ?n - real (length (runes s)) / ?n) / ln 2 \<le> 1 * log 2 ?n + 0"
  proof (rule add_mono)
    show "real (length (runes s)) / ?n * log 2 ?n \<le> 1 * log 2 ?n"
      using n length_runes [of s] by (intro mult_right_mono) (auto simp: divide_le_eq)
    have "real (card (set ?rs)) \<le> real (length (runes s))" using card_length [of "runes s"] by simp
    then show "(card (set ?rs) / ?n - real (length (runes s)) / ?n) / ln 2 \<le> 0"
      using n by (simp add: divide_nonpos_pos divide_right_mono)
  qed
  finally show ?thesis by simp
qed

lemma log2_12: "log 2 12 < 36 / 10"
proof -
  have "5 * log 2 12 = log 2 (12 ^ 5)" by (subst log_nat_power) auto
  also have "\<dots> < log 2 (2 ^ 18)" by (subst log_less_cancel_iff) auto
  also have "\<dots> = 18" by (subst log_pow_cancel) auto
  finally show ?thesis by simp
qed


lemma shannonEntropy_nonneg: "0 \<le> shannonEntropy s"
proof -
  have "0 \<le> - (real (count_list (runes s) r) / real (length s) * log 2 (real (count_list (runes s) r) / real (length s)))" for r
  proof (cases "count_list (runes s) r = 0")
    case False
    let ?p = "real (count_list (runes s) r) / real (length s)"
    have "count_list (runes s) r \<le> length s" using count_le_length [of "runes s" r] length_runes [of s] by simp
    moreover from this have "0 < length s" using False by linarith
    ultimately have "0 < length s" "count_list (runes s) r \<le> length s" by auto
    then have "0 < ?p" "?p \<le> 1" using False by (simp_all add: divide_le_eq divide_pos_pos)
    then have "log 2 ?p \<le> 0" by (simp add: log_le_zero_cancel_iff)
    with \<open>0 < ?p\<close> show ?thesis using mult_nonneg_nonpos [of ?p "log 2 ?p"] by linarith
  qed simp
  then show ?thesis unfolding shannonEntropy_def Let_def by (auto intro!: sum_list_nonneg)
qed

text \<open>The entropy the DNS detector computes lies between 0 and the binary logarithm of the
  label's length in bytes, for every byte string (also one that is not valid UTF-8).\<close>

theorem shannonEntropy_bounds:
  assumes "s \<noteq> []"
  shows "0 \<le> shannonEntropy s \<and> shannonEntropy s \<le> log 2 (length s)"
  using shannonEntropy_nonneg shannonEntropy_le_log_length [OF assms] by blast

theorem shannonEntropy_bounds_witness:
  "0 \<le> shannonEntropy ''abab'' \<and> shannonEntropy ''abab'' \<le> log 2 4"
  using shannonEntropy_bounds [of "''abab''"] by simp

text \<open>The minimum label length is not the effective one. A label of 12 bytes has an entropy of
  at most log2 12 < 3.6, so the entropy check never fires for it: the shortest label that can be
  reported has 13 bytes, not \<open>dnsEntropyMinLabelLen\<close> = 12.\<close>

theorem entropy_label_of_12_never_flagged:
  assumes "length (leftmostLabel (dr_name r)) \<le> 12"
  shows "dns_entropy_step ff n r s = s"
proof (cases "leftmostLabel (dr_name r) = []")
  case False
  have "log 2 (length (leftmostLabel (dr_name r))) \<le> log 2 12"
    using False assms by (subst log_le_cancel_iff) auto
  then have "shannonEntropy (leftmostLabel (dr_name r)) < dnsEntropyThreshold"
    using shannonEntropy_le_log_length [OF False] log2_12 by (simp add: dnsEntropyThreshold_def)
  then show ?thesis by (simp add: dns_entropy_step_def Let_def)
qed (simp add: dns_entropy_step_def dnsEntropyMinLabelLen_def)

theorem entropy_label_of_12_never_flagged_witness:
  "dns_entropy_step (\<lambda>_. []) 7 \<lparr>dr_host = 1, dr_name = ''abcdefghijkl.example'', dr_ts = 5\<rparr> (Map.empty, \<lparr>tbl = empty_tables, db_faults = []\<rparr>)
   = (Map.empty, \<lparr>tbl = empty_tables, db_faults = []\<rparr>)
   \<and> length (leftmostLabel ''abcdefghijkl.example'') = dnsEntropyMinLabelLen"
proof -
  have "length (leftmostLabel ''abcdefghijkl.example'') = 12" by code_simp
  then show ?thesis
    using entropy_label_of_12_never_flagged [of "\<lparr>dr_host = 1, dr_name = ''abcdefghijkl.example'', dr_ts = 5\<rparr>"]
    by (simp add: dnsEntropyMinLabelLen_def)
qed

section \<open>Intervals\<close>

lemma interval_deltas_Cons [simp]:
  "interval_deltas (a # b # ts) = of_int (int64 (b - a)) # interval_deltas (b # ts)"
  by (simp add: interval_deltas_def)

lemma interval_deltas_short [simp]: "interval_deltas [] = []" "interval_deltas [a] = []"
  by (simp_all add: interval_deltas_def)

lemma length_interval_deltas: "length (interval_deltas ts) = length ts - 1"
  by (simp add: interval_deltas_def)

lemma interval_deltas_telescope:
  assumes "\<forall>x \<in> set ts. 0 \<le> x \<and> x < 2 ^ 62" and "ts \<noteq> []"
  shows "sum_list (interval_deltas ts) = of_int (last ts - hd ts)"
  using assms
proof (induction ts rule: induct_list012)
  case (3 a b ts)
  have "int64 (b - a) = b - a" using "3.prems"(1) by (intro int64_id) auto
  then show ?case using 3 by auto
qed simp_all

lemma regular_deltas:
  assumes "0 \<le> p" and "p < 2 ^ 62"
  shows "interval_deltas (map (\<lambda>i. a + p * int i) [m..<n]) = replicate (n - m - 1) (of_int p)"
  using assms
proof (induction "n - m" arbitrary: m)
  case (Suc k)
  show ?case
  proof (cases "Suc m < n")
    case True
    then have u: "[m..<n] = m # Suc m # [Suc (Suc m)..<n]" by (simp add: upt_conv_Cons)
    have u': "[Suc m..<n] = Suc m # [Suc (Suc m)..<n]" using True by (simp add: upt_conv_Cons)
    have "int64 (a + p * int (Suc m) - (a + p * int m)) = p"
      using assms by (subst int64_id) (auto simp: algebra_simps)
    moreover have "interval_deltas (map (\<lambda>i. a + p * int i) [Suc m..<n]) = replicate (n - Suc m - 1) (of_int p)"
      using Suc by (intro Suc.hyps) auto
    moreover have "n - m - 1 = Suc (n - Suc m - 1)" using True by simp
    ultimately show ?thesis unfolding u u' by simp
  next
    case False
    then have "[m..<n] = [m]" "n - m - 1 = 0" using Suc.hyps(2) by (simp_all add: upt_conv_Cons)
    then show ?thesis by simp
  qed
qed simp

text \<open>A strictly periodic contact pattern, five or more contacts between 10 seconds and 6
  hours apart, is recognised as a beacon, with the period as its mean and no deviation.\<close>

theorem periodic_contacts_are_beacons:
  assumes "5 \<le> n" and "10 \<le> p" and "p \<le> 21600"
  shows "intervalStats (map (\<lambda>i. a + p * int i) [0..<n]) = (of_int p, 0)
         \<and> beacon_like (map (\<lambda>i. a + p * int i) [0..<n])"
proof -
  let ?ts = "map (\<lambda>i. a + p * int i) [0..<n]"
  have d: "interval_deltas ?ts = replicate (n - 1) (of_int p)"
    using regular_deltas [of p a 0 n] assms by simp
  have mean: "sum_list (replicate (n - 1) (of_int p :: real)) / real (n - 1) = of_int p"
    using assms(1) by (simp add: sum_list_replicate)
  have "map (\<lambda>d. (d - of_int p) * (d - of_int p)) (replicate (n - 1) (of_int p :: real)) = replicate (n - 1) 0"
    by simp
  then have "intervalStats ?ts = (of_int p, 0)"
    using assms(1) d mean by (simp add: intervalStats_def Let_def sum_list_replicate)
  then show ?thesis using assms by (simp add: beacon_like_def)
qed

theorem periodic_contacts_are_beacons_witness: "beacon_like [1000, 1060, 1120, 1180, 1240]"
proof -
  have "map (\<lambda>i. 1000 + 60 * int i) [0..<5] = [1000, 1060, 1120, 1180, 1240]" by (simp add: upt_rec)
  then show ?thesis using periodic_contacts_are_beacons [of 5 60 1000] by simp
qed

text \<open>The mean interval is the span of the contacts over their number: for contact times in
  range, \<open>intervalStats\<close> returns (last - first) / (n - 1) and a non-negative deviation.\<close>

theorem intervalStats_mean:
  assumes "\<forall>x \<in> set ts. 0 \<le> x \<and> x < 2 ^ 62" and "2 \<le> length ts"
  shows "fst (intervalStats ts) = of_int (last ts - hd ts) / of_nat (length ts - 1) \<and> 0 \<le> snd (intervalStats ts)"
proof -
  have "ts \<noteq> []" using assms(2) by auto
  then have "fst (intervalStats ts) = of_int (last ts - hd ts) / of_nat (length ts - 1)"
    using interval_deltas_telescope [OF assms(1)] assms(2) by (simp add: intervalStats_def Let_def length_interval_deltas)
  moreover have "0 \<le> snd (intervalStats ts)"
    by (auto simp: intervalStats_def Let_def intro!: divide_nonneg_nonneg sum_list_nonneg)
  ultimately show ?thesis by simp
qed

theorem intervalStats_mean_witness: "fst (intervalStats [10, 25, 70]) = 30"
  using intervalStats_mean [of "[10, 25, 70]"] by simp

section \<open>Completeness of the beaconing detector\<close>

definition contact_times :: "int \<Rightarrow> peer_key \<Rightarrow> tables \<Rightarrow> int list" where
  "contact_times nowUnix k t =
     sort (map f_first (filter (\<lambda>f. in_window (nowUnix - 86400) nowUnix f \<and> (f_host f, f_rip f, f_rport f) = k) (flows_recent t)))"

lemma sorted_map_pt_first:
  assumes "sorted (map (\<lambda>p. (pt_host p, pt_rip p, pt_rport p, pt_first p)) ps)"
    and "\<forall>p \<in> set ps. (pt_host p, pt_rip p, pt_rport p) = k"
  shows "sorted (map pt_first ps)"
  using assms by (induction ps) (auto simp: less_eq_prod_def)

lemma beacon_group_times:
  "(k, ts) \<in> set (beacon_groups (peer_flow_timestamps (n - 86400) n t)) \<longleftrightarrow> ts = contact_times n k t \<and> ts \<noteq> []"
proof -
  let ?key = "\<lambda>p. (pt_host p, pt_rip p, pt_rport p)"
  let ?rows = "map peer_timestamp (filter (in_window (n - 86400) n) (flows_recent t))"
  let ?srt = "peer_flow_timestamps (n - 86400) n t"
  have grp: "filter (\<lambda>p. ?key p = k) ?srt = sort_key (\<lambda>p. (pt_host p, pt_rip p, pt_rport p, pt_first p)) (filter (\<lambda>p. ?key p = k) ?rows)"
    by (simp add: peer_flow_timestamps_def filter_sort)
  have "sorted (map pt_first (filter (\<lambda>p. ?key p = k) ?srt))"
    unfolding grp by (rule sorted_map_pt_first [where k = k]) auto
  moreover have "mset (map pt_first (filter (\<lambda>p. ?key p = k) ?srt))
      = mset (map f_first (filter (\<lambda>f. in_window (n - 86400) n f \<and> (f_host f, f_rip f, f_rport f) = k) (flows_recent t)))"
    unfolding grp by (simp add: filter_map comp_def peer_timestamp_def image_mset.compositionality)
  ultimately have times: "contact_times n k t = map pt_first (filter (\<lambda>p. ?key p = k) ?srt)"
    unfolding contact_times_def by (intro properties_for_sort)
  have "(k, ts) \<in> set (beacon_groups ?srt) \<longleftrightarrow> k \<in> ?key ` set ?srt \<and> ts = map pt_first (filter (\<lambda>p. ?key p = k) ?srt)"
    unfolding beacon_groups_def by (force simp: group_by_def)
  also have "k \<in> ?key ` set ?srt \<longleftrightarrow> filter (\<lambda>p. ?key p = k) ?srt \<noteq> []"
    by (auto simp: filter_empty_conv)
  finally show ?thesis unfolding times by auto
qed

lemma beacon_group_ok:
  assumes inv: "det_inv t0 s" and host: "fst k \<in> host_ids t0"
  shows "det_inv t0 (beacon_group ff n (k, ts) s)
    \<and> (beacon_like ts \<longrightarrow> alerted (tbl (snd (beacon_group ff n (k, ts) s))) (fst k) AlertKindBeaconing
         (fst (snd k) @ '':'' @ Itoa (snd (snd k))) (n - 21600))"
proof (cases "beacon_like ts")
  case True
  obtain i ip port where k: "k = (i, ip, port)" by (cases k)
  let ?Q = "\<lambda>s. det_inv t0 s \<and> alerted (tbl (snd s)) i AlertKindBeaconing (ip @ '':'' @ Itoa port) (n - 21600)"
  have "?Q (c, beacon_alert ff n k ts h d)" if "det_inv t0 (c, d)" for c h d
    using det_inv_raise [OF that, of i "n - 21600" n AlertKindBeaconing "ip @ '':'' @ Itoa port"] host
    by (simp add: beacon_alert_def k Let_def)
  then have "?Q (with_host i (\<lambda>host (cache, d). (cache, beacon_alert ff n k ts host d)) s)"
    using inv host by (intro with_host_inv [of t0 s i ?Q]) (simp_all add: k)
  then show ?thesis using True by (simp add: beacon_group_eq k)
qed (use inv in \<open>simp add: beacon_group_eq\<close>)

lemma Beaconing_complete:
  assumes "db_faults d = []" and wf: "wf_tables (tbl d)" and "beacon_like (contact_times (Unix now) (h, ip, port) (tbl d))"
  shows "alerted (tbl (Beaconing ff rank now d)) h AlertKindBeaconing (ip @ '':'' @ Itoa port) (Unix now - 21600)"
proof -
  let ?gs = "sort_key (\<lambda>g. rank (fst g)) (beacon_groups (peer_flow_timestamps (Unix now - 86400) (Unix now) (tbl d)))"
  let ?Q = "\<lambda>g s. beacon_like (snd g) \<longrightarrow> alerted (tbl (snd s)) (fst (fst g)) AlertKindBeaconing
         (fst (snd (fst g)) @ '':'' @ Itoa (snd (snd (fst g)))) (Unix now - 21600)"
  have host: "fst k \<in> host_ids (tbl d)" if "(k, ts) \<in> set ?gs" for k ts
  proof -
    have "contact_times (Unix now) k (tbl d) \<noteq> []" using that beacon_group_times by auto
    then have "filter (\<lambda>f. in_window (Unix now - 86400) (Unix now) f \<and> (f_host f, f_rip f, f_rport f) = k) (flows_recent (tbl d)) \<noteq> []"
      unfolding contact_times_def by (metis list.map_disc_iff mset.simps(1) mset_sort mset_zero_iff)
    then show ?thesis using wf by (auto simp: filter_empty_conv wf_defs)
  qed
  have "det_inv (tbl d) (fold (beacon_group ff (Unix now)) ?gs (Map.empty, d))
      \<and> (\<forall>g \<in> set ?gs. ?Q g (fold (beacon_group ff (Unix now)) ?gs (Map.empty, d)))"
  proof (rule fold_each)
    show "det_inv (tbl d) (Map.empty, d)" using assms(1) by (rule det_inv_init)
    show "det_inv (tbl d) (beacon_group ff (Unix now) g s) \<and> ?Q g (beacon_group ff (Unix now) g s)"
      if "g \<in> set ?gs" "det_inv (tbl d) s" for g s
      using beacon_group_ok [OF that(2), of "fst g" ff "Unix now" "snd g"] host [of "fst g" "snd g"] that(1) by simp
    show "?Q g (beacon_group ff (Unix now) g' s)" if "?Q g s" for g g' s
      using that alerted_raises [OF raises_beacon_group [where P = "\<lambda>_. True"]] by blast
  qed
  moreover have "((h, ip, port), contact_times (Unix now) (h, ip, port) (tbl d)) \<in> set ?gs"
    using assms(3) by (auto simp: beacon_group_times beacon_like_def)
  ultimately show ?thesis
    using assms(1,3) by (fastforce simp: Beaconing_def PeerFlowTimestamps_def)
qed



definition beacon_demo :: db where
  "beacon_demo = \<lparr>tbl = empty_tables
     \<lparr>hosts := [\<lparr>h_id = 1, h_ip = ''10.0.0.1'', h_display = None, h_mac = None, h_first = 0, h_last = 100\<rparr>],
      host_seq := 2,
      flows_recent := map (\<lambda>i. \<lparr>f_host = 1, f_dir = DirLANToWAN, f_proto = 6, f_lip = ''10.0.0.1'', f_lport = 40000,
        f_rip = ''1.2.3.4'', f_rport = 443, f_first = i, f_last = i, f_sent = 10, f_recv = 0, f_psent = 1, f_precv = 0\<rparr>)
        [1000, 1060, 1120, 1180, 1240]\<rparr>,
     db_faults = []\<rparr>"


section \<open>Completeness of the DNS detector\<close>

definition dns_volume_of :: "int \<Rightarrow> int \<Rightarrow> tables \<Rightarrow> nat" where
  "dns_volume_of nowUnix h t = length (filter (\<lambda>q. q_host q = h \<and> dns_in_window (nowUnix - 600) nowUnix q) (dns_queries t))"

lemma raises_dns_volume_step: "raises (\<lambda>_. True) (tbl d) (tbl (dns_volume_step ff n c d))"
  unfolding dns_volume_step_def dns_volume_alert_def
  by (auto intro!: raises_with_host_row raises_raiseAlert)

lemma dns_volume_step_ok:
  assumes inv: "det_inv t0 (Map.empty, d)" and host: "fst c \<in> host_ids t0"
  shows "det_inv t0 (Map.empty, dns_volume_step ff n c d)
    \<and> (300 \<le> snd c \<longrightarrow> alerted (tbl (dns_volume_step ff n c d)) (fst c) AlertKindDNSAnomaly ''volume'' (n - 3600))"
proof (cases "snd c < 300")
  case False
  obtain h where "with_host_row (fst c) (dns_volume_alert ff n c) d = dns_volume_alert ff n c h d"
    using host det_inv_faults [OF inv] det_inv_hosts [OF inv] by (auto elim!: with_host_row_ok [of d "fst c"])
  then have "dns_volume_step ff n c d = dns_volume_alert ff n c h d"
    using False by (simp add: dns_volume_step_def dnsVolumeThreshold_def)
  then show ?thesis
    using det_inv_raise [OF inv host, of "n - 3600" n AlertKindDNSAnomaly "''volume''"] by (simp add: dns_volume_alert_def)
qed (use inv in \<open>simp add: dns_volume_step_def dnsVolumeThreshold_def\<close>)

lemma dnsVolume_complete:
  assumes "db_faults d = []" and wf: "wf_tables (tbl d)"
  shows "det_inv (tbl d) (Map.empty, dnsVolume ff (n - 600) n d)
    \<and> (\<forall>h. 300 \<le> dns_volume_of n h (tbl d) \<longrightarrow> alerted (tbl (dnsVolume ff (n - 600) n d)) h AlertKindDNSAnomaly ''volume'' (n - 3600))"
proof -
  let ?rows = "filter (dns_in_window (n - 600) n) (dns_queries (tbl d))"
  let ?cs = "map (\<lambda>g. (fst g, int (length (snd g)))) (group_by q_host ?rows)"
  let ?d = "fold (dns_volume_step ff n) ?cs d"
  let ?Q = "\<lambda>c d. 300 \<le> snd c \<longrightarrow> alerted (tbl d) (fst c) AlertKindDNSAnomaly ''volume'' (n - 3600)"
  have host: "fst c \<in> host_ids (tbl d)" if "c \<in> set ?cs" for c
    using that wf by (auto simp: group_by_def wf_defs)
  have all: "det_inv (tbl d) (Map.empty, ?d) \<and> (\<forall>c \<in> set ?cs. ?Q c ?d)"
  proof (rule fold_each)
    show "det_inv (tbl d) (Map.empty, d)" using assms(1) by (rule det_inv_init)
    show "det_inv (tbl d) (Map.empty, dns_volume_step ff n c d') \<and> ?Q c (dns_volume_step ff n c d')"
      if "c \<in> set ?cs" "det_inv (tbl d) (Map.empty, d')" for c d'
      using dns_volume_step_ok [OF that(2) host [OF that(1)]] .
    show "?Q c (dns_volume_step ff n c' d')" if "?Q c d'" for c c' d'
      using that alerted_raises [OF raises_dns_volume_step] by blast
  qed
  have "(h, int (dns_volume_of n h (tbl d))) \<in> set ?cs" if "300 \<le> dns_volume_of n h (tbl d)" for h
  proof -
    have eq: "dns_volume_of n h (tbl d) = length (filter (\<lambda>q. q_host q = h) ?rows)"
      by (simp add: dns_volume_of_def conj_commute)
    then have "filter (\<lambda>q. q_host q = h) ?rows \<noteq> []" using that by auto
    then have "h \<in> q_host ` set ?rows" by (auto simp: filter_empty_conv)
    then have "(h, filter (\<lambda>q. q_host q = h) ?rows) \<in> set (group_by q_host ?rows)" by (simp only: group_by_mem)
    then show ?thesis unfolding eq by force
  qed
  then have "\<forall>h. 300 \<le> dns_volume_of n h (tbl d) \<longrightarrow> ?Q (h, int (dns_volume_of n h (tbl d))) ?d" using all by blast
  then have "\<forall>h. 300 \<le> dns_volume_of n h (tbl d) \<longrightarrow> alerted (tbl ?d) h AlertKindDNSAnomaly ''volume'' (n - 3600)" by simp
  moreover have "dnsVolume ff (n - 600) n d = ?d" using assms(1) by (simp add: dnsVolume_def DNSQueryCounts_def)
  ultimately show ?thesis using all by simp
qed

definition high_entropy :: "string \<Rightarrow> bool" where
  "high_entropy qname \<longleftrightarrow> 12 \<le> length (leftmostLabel qname) \<and> 36 / 10 \<le> shannonEntropy (leftmostLabel qname)"

lemma dns_entropy_step_ok:
  assumes inv: "det_inv t0 s" and host: "dr_host r \<in> host_ids t0"
  shows "det_inv t0 (dns_entropy_step ff n r s)
    \<and> (high_entropy (dr_name r) \<longrightarrow>
         alerted (tbl (snd (dns_entropy_step ff n r s))) (dr_host r) AlertKindDNSAnomaly (''entropy:'' @ dr_name r) (n - 21600))"
proof (cases "high_entropy (dr_name r)")
  case True
  let ?Q = "\<lambda>s. det_inv t0 s \<and> alerted (tbl (snd s)) (dr_host r) AlertKindDNSAnomaly (''entropy:'' @ dr_name r) (n - 21600)"
  have "?Q (c, dns_entropy_alert ff n r h d)" if "det_inv t0 (c, d)" for c h d
    using det_inv_raise [OF that host cooldowns_stats(3) [symmetric, THEN arg_cong [where f = "\<lambda>x. n - x"]]]
    by (simp add: dns_entropy_alert_def)
  then have "?Q (with_host (dr_host r) (\<lambda>host (cache, d). (cache, dns_entropy_alert ff n r host d)) s)"
    using inv host by (intro with_host_inv [of t0 s "dr_host r" ?Q]) simp_all
  then show ?thesis
    using True by (simp add: dns_entropy_step_def Let_def high_entropy_def dnsEntropyMinLabelLen_def dnsEntropyThreshold_def)
qed (use inv in \<open>auto simp: dns_entropy_step_def Let_def high_entropy_def dnsEntropyMinLabelLen_def dnsEntropyThreshold_def\<close>)

lemma dnsEntropy_complete:
  assumes inv: "det_inv t0 (Map.empty, d)" and wf: "wf_tables t0" and q: "q \<in> set (dns_queries t0)" "dns_in_window (n - 600) n q"
    "high_entropy (q_name q)"
  shows "alerted (tbl (dnsEntropy ff (n - 600) n d)) (q_host q) AlertKindDNSAnomaly (''entropy:'' @ q_name q) (n - 21600)"
proof -
  let ?row = "\<lambda>q. \<lparr>dr_host = q_host q, dr_name = q_name q, dr_ts = q_ts q\<rparr>"
  let ?rows = "map ?row (filter (dns_in_window (n - 600) n) (dns_queries t0))"
  let ?s = "fold (dns_entropy_step ff n) ?rows (Map.empty, d)"
  let ?Q = "\<lambda>r s. high_entropy (dr_name r) \<longrightarrow>
      alerted (tbl (snd s)) (dr_host r) AlertKindDNSAnomaly (''entropy:'' @ dr_name r) (n - 21600)"
  have host: "dr_host r \<in> host_ids t0" if "r \<in> set ?rows" for r
    using that wf by (auto simp: wf_defs)
  have "det_inv t0 ?s \<and> (\<forall>r \<in> set ?rows. ?Q r ?s)"
  proof (rule fold_each)
    show "det_inv t0 (Map.empty, d)" by (rule inv)
    show "det_inv t0 (dns_entropy_step ff n r s) \<and> ?Q r (dns_entropy_step ff n r s)" if "r \<in> set ?rows" "det_inv t0 s" for r s
      using dns_entropy_step_ok [OF that(2) host [OF that(1)]] .
    show "?Q r (dns_entropy_step ff n r' s)" if "?Q r s" for r r' s
      using that alerted_raises [OF raises_dns_entropy_step [where P = "\<lambda>_. True"]] by blast
  qed
  moreover have "?row q \<in> set ?rows" using q(1,2) by auto
  moreover have "dns_queries (tbl d) = dns_queries t0" using inv by (simp add: det_inv_def raises_def same_but_alerts_def)
  ultimately show ?thesis
    using q(3) det_inv_faults [OF inv] by (fastforce simp: dnsEntropy_def DNSQueriesInRange_def)
qed

lemma raises_dnsEntropy_any: "raises (\<lambda>_. True) (tbl d) (tbl (dnsEntropy ff (n - 600) n d))"
  using raises_dnsEntropy [OF refl, where now = "n * 1000000000"] by (auto simp: Unix_def intro: raises_mono)

text \<open>C25: the DNS detector. Without driver errors, after a run every host with at least 300
  queries in the ten-minute window has a volume alert in the one-hour cooldown window, and every
  query in the window whose first label has at least 12 bytes and an entropy of at least 3.6 bits
  has an entropy alert for its name in the six-hour window; whatever fails, every alert a run
  adds has one of these two reasons.\<close>

theorem DNSAnomaly_exact:
  "(db_faults d = [] \<and> wf_tables (tbl d) \<longrightarrow>
      (\<forall>h. 300 \<le> dns_volume_of (Unix now) h (tbl d) \<longrightarrow>
         alerted (tbl (DNSAnomaly ff now d)) h AlertKindDNSAnomaly ''volume'' (Unix now - 3600))
      \<and> (\<forall>q \<in> set (dns_queries (tbl d)). dns_in_window (Unix now - 600) (Unix now) q \<and> high_entropy (q_name q) \<longrightarrow>
           alerted (tbl (DNSAnomaly ff now d)) (q_host q) AlertKindDNSAnomaly (''entropy:'' @ q_name q) (Unix now - 21600)))
   \<and> (\<forall>a \<in> set (alerts (tbl (DNSAnomaly ff now d))). a \<in> set (alerts (tbl d)) \<or> dns_reason now (tbl d) (ar_rec a))"
proof (rule conjI, rule impI)
  assume a: "db_faults d = [] \<and> wf_tables (tbl d)"
  have v: "det_inv (tbl d) (Map.empty, dnsVolume ff (Unix now - 600) (Unix now) d)"
    "\<And>h. 300 \<le> dns_volume_of (Unix now) h (tbl d) \<Longrightarrow>
        alerted (tbl (dnsVolume ff (Unix now - 600) (Unix now) d)) h AlertKindDNSAnomaly ''volume'' (Unix now - 3600)"
    using dnsVolume_complete [of d ff "Unix now"] a by auto
  have eq: "DNSAnomaly ff now d = dnsEntropy ff (Unix now - 600) (Unix now) (dnsVolume ff (Unix now - 600) (Unix now) d)"
    by (simp add: DNSAnomaly_def Let_def)
  show "(\<forall>h. 300 \<le> dns_volume_of (Unix now) h (tbl d) \<longrightarrow>
         alerted (tbl (DNSAnomaly ff now d)) h AlertKindDNSAnomaly ''volume'' (Unix now - 3600))
      \<and> (\<forall>q \<in> set (dns_queries (tbl d)). dns_in_window (Unix now - 600) (Unix now) q \<and> high_entropy (q_name q) \<longrightarrow>
           alerted (tbl (DNSAnomaly ff now d)) (q_host q) AlertKindDNSAnomaly (''entropy:'' @ q_name q) (Unix now - 21600))"
    unfolding eq using alerted_raises [OF raises_dnsEntropy_any] v dnsEntropy_complete [OF v(1)] a by blast
qed (use dns_anomaly.run_sound in blast)

definition dns_demo :: db where
  "dns_demo = \<lparr>tbl = empty_tables
     \<lparr>hosts := [\<lparr>h_id = 1, h_ip = ''10.0.0.1'', h_display = None, h_mac = None, h_first = 0, h_last = 100\<rparr>], host_seq := 2,
      dns_queries := replicate 300 \<lparr>q_host = 1, q_name = ''example.com'', q_type = 1, q_ts = 1000\<rparr>\<rparr>,
     db_faults = []\<rparr>"

theorem DNSAnomaly_exact_witness:
  "alerted (tbl (DNSAnomaly (\<lambda>_. []) 1000000000000 dns_demo)) 1 AlertKindDNSAnomaly ''volume'' (- 2600)"
proof -
  have "wf_tables (tbl dns_demo) \<and> db_faults dns_demo = []"
    by (simp add: dns_demo_def wf_defs host_ids_def empty_tables_def)
  moreover have "dns_volume_of 1000 1 (tbl dns_demo) = 300"
    by (simp add: dns_volume_of_def dns_demo_def dns_in_window_def filter_replicate)
  ultimately show ?thesis
    using DNSAnomaly_exact [of dns_demo 1000000000000 "\<lambda>_. []"] by (simp add: Unix_def)
qed

end
