(* ===== verification/Detect_Scheduler.thy ===== *)
theory Detect_Scheduler
  imports Detect_Flows Detect_Peers Detect_Stats
begin

text \<open>
  \<open>detect/scheduler.go\<close>: the tickers of the detection engine as one stream of ticks, each with
  its clock reading. A detector runs when its setting is not switched off. The invariants every
  detector keeps, by the contract \<open>detector\<close>, hold over every stream.
\<close>

definition dnsQueriesRetention :: duration where "dnsQueriesRetention = 48 * Hour"

definition KeyDetectorNewDestination :: string where "KeyDetectorNewDestination = ''detector_new_destination_enabled''"
definition KeyDetectorBeaconing :: string where "KeyDetectorBeaconing = ''detector_beaconing_enabled''"
definition KeyDetectorExfilRatio :: string where "KeyDetectorExfilRatio = ''detector_exfil_ratio_enabled''"
definition KeyDetectorDNSAnomaly :: string where "KeyDetectorDNSAnomaly = ''detector_dns_anomaly_enabled''"
definition KeyDetectorPortScan :: string where "KeyDetectorPortScan = ''detector_port_scan_enabled''"
definition KeyDetectorGeoWatchlist :: string where "KeyDetectorGeoWatchlist = ''detector_geo_watchlist_enabled''"

text \<open>What the engine takes from outside: the float printer, the embedded GeoIP table, and the
  order in which \<open>Beaconing\<close> ranges over its map at each tick.\<close>

record detect_env =
  env_float :: "real \<Rightarrow> string"
  env_geo :: "geo_record list"

datatype detect_event = TickNewDest | TickPortScan | TickDNS | TickExfil | TickBeacon "peer_key \<Rightarrow> nat" | TickGeo | TickPruneDNS

fun detect_tick :: "detect_env \<Rightarrow> detect_event \<times> gotime \<Rightarrow> db \<Rightarrow> db" where
  "detect_tick e (TickNewDest, now) = gated KeyDetectorNewDestination (NewDestinations (env_float e)) now"
| "detect_tick e (TickPortScan, now) = gated KeyDetectorPortScan (PortScan (env_float e)) now"
| "detect_tick e (TickDNS, now) = gated KeyDetectorDNSAnomaly (DNSAnomaly (env_float e)) now"
| "detect_tick e (TickExfil, now) = gated KeyDetectorExfilRatio (ExfilRatio (env_float e)) now"
| "detect_tick e (TickBeacon rank, now) = gated KeyDetectorBeaconing (Beaconing (env_float e) rank) now"
| "detect_tick e (TickGeo, now) = gated KeyDetectorGeoWatchlist (GeoWatchlist (env_float e) (env_geo e)) now"
| "detect_tick e (TickPruneDNS, now) = (\<lambda>d. snd (PruneDNSQueries (Unix (now - dnsQueriesRetention)) d))"

definition detect_Run :: "detect_env \<Rightarrow> (detect_event \<times> gotime) list \<Rightarrow> db \<Rightarrow> db" where
  "detect_Run e ticks d = fold (detect_tick e) ticks d"

section \<open>The invariants over every stream of ticks\<close>

lemma raises_detect_tick:
  assumes "tk \<noteq> TickPruneDNS"
  shows "raises (\<lambda>_. True) (tbl d) (tbl (detect_tick e (tk, now) d))"
  using assms
  by (cases tk)
    (simp_all add: new_destination.run_gated port_scan.run_gated dns_anomaly.run_gated exfil.run_gated
      beaconing.run_gated geo_watchlist.run_gated)

lemma PruneDNSQueries_effect:
  "tbl (snd (PruneDNSQueries c d)) = tbl d
   \<or> tbl (snd (PruneDNSQueries c d)) = (tbl d)\<lparr>dns_queries := filter (\<lambda>q. \<not> q_ts q < c) (dns_queries (tbl d))\<rparr>"
  by (cases rule: exec_cases [of "\<lambda>t. Inr ((), t\<lparr>dns_queries := filter (\<lambda>q. \<not> q_ts q < c) (dns_queries t)\<rparr>)" d])
    (auto simp: PruneDNSQueries_def)

lemma detect_tick_inv:
  assumes "wf_tables (tbl d)" and "spaced (alert_recs (tbl d))"
  shows "wf_tables (tbl (detect_tick e tn d)) \<and> spaced (alert_recs (tbl (detect_tick e tn d)))"
proof -
  obtain tk now where tn: "tn = (tk, now)" by (cases tn)
  show ?thesis
  proof (cases "tk = TickPruneDNS")
    case True
    then show ?thesis
      using PruneDNSQueries_effect [of "Unix (now - dnsQueriesRetention)" d] assms by (auto simp: tn wf_filter_dns)
  next
    case False
    then show ?thesis using raises_detect_tick [OF False, of d e now] assms by (simp add: tn raises_def)
  qed
qed

text \<open>C10: no alert storms. Over every stream of scheduler ticks, with every failure schedule and
  whatever the clock does, the schema invariant holds and two alerts about the same host, kind
  and subject always lie more than that kind's cooldown apart (15 minutes for port scans, 1 hour
  for DNS volume, 24 hours for the geo watchlist, 6 hours otherwise).\<close>

theorem alerts_respect_cooldown:
  assumes "wf_tables (tbl d)" and "spaced (alert_recs (tbl d))"
  shows "wf_tables (tbl (detect_Run e ticks d)) \<and> spaced (alert_recs (tbl (detect_Run e ticks d)))"
  unfolding detect_Run_def
  by (rule fold_inv [where J = "\<lambda>d. wf_tables (tbl d) \<and> spaced (alert_recs (tbl d))"]) (use assms detect_tick_inv in auto)

theorem alerts_respect_cooldown_witness:
  "spaced (alert_recs (tbl (detect_Run \<lparr>env_float = (\<lambda>_. []), env_geo = []\<rparr>
     [(TickExfil, 100000000000), (TickExfil, 700000000000)] exfil_demo)))"
  using alerts_respect_cooldown [of exfil_demo] exfil_demo_wf
  by (simp add: exfil_demo_def empty_tables_def)

text \<open>An alert, once raised, stays: over every stream of ticks the engine only appends to the
  alerts, and never changes hosts, flows, rollups, users, sessions or settings.\<close>

theorem detection_is_append_only:
  "\<exists>new. alerts (tbl (detect_Run e ticks d)) = alerts (tbl d) @ new
   \<and> hosts (tbl (detect_Run e ticks d)) = hosts (tbl d) \<and> flows_recent (tbl (detect_Run e ticks d)) = flows_recent (tbl d)
   \<and> rollups (tbl (detect_Run e ticks d)) = rollups (tbl d) \<and> users (tbl (detect_Run e ticks d)) = users (tbl d)
   \<and> sessions (tbl (detect_Run e ticks d)) = sessions (tbl d) \<and> settings (tbl (detect_Run e ticks d)) = settings (tbl d)"
proof -
  let ?F = "\<lambda>t t'. (\<exists>new. alerts t' = alerts t @ new) \<and> hosts t' = hosts t \<and> flows_recent t' = flows_recent t
     \<and> rollups t' = rollups t \<and> users t' = users t \<and> sessions t' = sessions t \<and> settings t' = settings t"
  have step: "?F (tbl d') (tbl (detect_tick e (tk, now) d'))" for d' tk now
  proof (cases "tk = TickPruneDNS")
    case True
    then show ?thesis using PruneDNSQueries_effect [of "Unix (now - dnsQueriesRetention)" d'] by auto
  next
    case False
    then show ?thesis using raises_detect_tick [OF False, of d' e now] by (auto simp: raises_def same_but_alerts_def)
  qed
  have trans: "?F t t' \<Longrightarrow> ?F t' t'' \<Longrightarrow> ?F t t''" for t t' t''
    by auto
  have "?F (tbl d) (tbl (fold (detect_tick e) ticks d))"
  proof (rule fold_inv [where J = "\<lambda>d'. ?F (tbl d) (tbl d')"])
    fix y and d' :: db
    assume "?F (tbl d) (tbl d')"
    then show "?F (tbl d) (tbl (detect_tick e y d'))"
      by (rule trans) (metis step surj_pair)
  qed simp
  then show ?thesis by (simp add: detect_Run_def)
qed

text \<open>A detector that is switched off is silent: with the setting stored as 0 and no driver
  error its tick changes nothing, and with the setting absent or anything else it runs.\<close>

theorem DetectorEnabled_gates:
  assumes "db_faults d = []"
  shows "gated key run now d = (if map_of (settings (tbl d)) key = Some ''0'' then d else run now d)"
  using assms by (auto simp: gated_def DetectorEnabled_def GetSetting_def split: option.split)

theorem DetectorEnabled_gates_witness:
  "gated KeyDetectorExfilRatio (ExfilRatio (\<lambda>_. [])) 100000000000
     (exfil_demo\<lparr>tbl := (tbl exfil_demo)\<lparr>settings := [(KeyDetectorExfilRatio, ''0'')]\<rparr>\<rparr>)
   = exfil_demo\<lparr>tbl := (tbl exfil_demo)\<lparr>settings := [(KeyDetectorExfilRatio, ''0'')]\<rparr>\<rparr>"
  using DetectorEnabled_gates [of "exfil_demo\<lparr>tbl := (tbl exfil_demo)\<lparr>settings := [(KeyDetectorExfilRatio, ''0'')]\<rparr>\<rparr>" KeyDetectorExfilRatio]
  by (simp add: exfil_demo_wf)

end
