(* ===== verification/System.thy ===== *)
theory System
  imports Capture_Pipeline Web_Properties Detect_Scheduler
begin

text \<open>
  The running program of \<open>cmd/run.go\<close>: the capture pipeline, the rollup scheduler, the detection
  engine and the web server share one database handle and run concurrently. A step of the system is one
  step of one of them, in any order: one ingest or flush step of the pipeline, one tick of a
  scheduler, or one request. The four goroutines are instances of one interface, what a service
  may do to the shared tables, and so is their composition.
\<close>

section \<open>The contract of a service\<close>

definition tables_ok :: "tables \<Rightarrow> bool" where
  "tables_ok t \<longleftrightarrow> wf_tables t \<and> aligned t \<and> spaced (alert_recs t) \<and> 1 \<le> count_admins t"

locale db_service =
  fixes step :: "'e \<Rightarrow> 's \<Rightarrow> 's"
    and tables_of :: "'s \<Rightarrow> tables"
  assumes ok_step: "tables_ok (tables_of s) \<Longrightarrow> tables_ok (tables_of (step e s))"
    and hosts_stay: "host_row (tables_of s) ip i \<Longrightarrow> host_row (tables_of (step e s)) ip i"
begin

lemma ok_run: "tables_ok (tables_of s) \<Longrightarrow> tables_ok (tables_of (fold step es s))"
  by (induction es arbitrary: s) (simp_all add: ok_step)

lemma hosts_stay_run: "host_row (tables_of s) ip i \<Longrightarrow> host_row (tables_of (fold step es s)) ip i"
  by (induction es arbitrary: s) (simp_all add: hosts_stay)

end

lemma same_frame_ok:
  assumes "tables_ok t" and "wf_tables t'" and "aligned t'" and "map ar_rec (alerts t') = map ar_rec (alerts t)" and "users t' = users t"
  shows "tables_ok t'"
  using assms by (simp add: tables_ok_def count_admins_def)

section \<open>The rollup scheduler\<close>

definition rollup_frame :: "tables \<Rightarrow> Host list \<times> alert_row list \<times> User list \<times> session_row list" where
  "rollup_frame t = (hosts t, alerts t, users t, sessions t)"

lemma insert_sums_frame: "insert_sums dst kcs t = Inr (u, t') \<Longrightarrow> rollup_frame t' = rollup_frame t"
  unfolding rollup_frame_def using insert_sums_InrD(1) by fastforce

lemma rollup_ops_frame:
  "keeps (\<lambda>t. rollup_frame t = c) (RollupFromFlowsRecent from to)" "keeps (\<lambda>t. rollup_frame t = c) (RollupFromFiner src dst w from to)"
  "keeps (\<lambda>t. rollup_frame t = c) (PruneRollup g n)" "keeps (\<lambda>t. rollup_frame t = c) IncrementalVacuum"
  "keeps (\<lambda>t. rollup_frame t = c) (PruneFlowsRecent n)"
proof -
  have flows: "stmt_keeps (\<lambda>t. rollup_frame t = c) (sql_rollup_flows from to)"
    by (rule stmt_keepsI) (auto simp: sql_rollup_flows_def dest: insert_sums_frame)
  have finer: "stmt_keeps (\<lambda>t. rollup_frame t = c) (sql_rollup_finer S T w from to)" for S T
    by (rule stmt_keepsI) (auto simp: sql_rollup_finer_def dest: insert_sums_frame)
  have prune: "keeps (\<lambda>t. rollup_frame t = c) (exec (\<lambda>t. Inr ((), sql_prune_rollup x n t)))" for x
    by (intro keeps_exec stmt_keeps_pure) (simp add: sql_prune_rollup_def rollup_frame_def)
  show "keeps (\<lambda>t. rollup_frame t = c) (RollupFromFlowsRecent from to)"
    unfolding RollupFromFlowsRecent_def by (rule keeps_exec [OF flows])
  show "keeps (\<lambda>t. rollup_frame t = c) (RollupFromFiner src dst w from to)"
    using keeps_exec [OF finer] by (auto simp: keeps_def RollupFromFiner_def split: option.split)
  show "keeps (\<lambda>t. rollup_frame t = c) (PruneRollup g n)"
    using prune by (auto simp: keeps_def PruneRollup_def split: option.split)
  show "keeps (\<lambda>t. rollup_frame t = c) IncrementalVacuum"
    unfolding IncrementalVacuum_def by (intro keeps_exec stmt_keeps_pure)
  show "keeps (\<lambda>t. rollup_frame t = c) (PruneFlowsRecent n)"
    unfolding PruneFlowsRecent_def by (intro keeps_exec stmt_keeps_pure) (simp add: rollup_frame_def)
qed

lemma on_tick_frame: "rollup_frame (tbl (on_tick r tk d)) = rollup_frame (tbl d)"
  using rollup_ops_frame [of "rollup_frame (tbl d)"] unfolding keeps_def
  by (cases "(r, tk)" rule: on_tick.cases) (auto simp: rollup1m_def rollupFiner_def prune_def Let_def)

interpretation rollup_service: db_service "on_tick r" tbl for r
proof
  fix s e
  show "tables_ok (tbl s) \<Longrightarrow> tables_ok (tbl (on_tick r e s))"
    by (rule same_frame_ok) (use on_tick_frame [of r e s] in \<open>simp_all add: rollup_frame_def tables_ok_def wf_on_tick aligned_on_tick\<close>)
  show "host_row (tbl s) ip i \<Longrightarrow> host_row (tbl (on_tick r e s)) ip i" for ip i
    using on_tick_frame [of r e s] by (simp add: rollup_frame_def host_row_def)
qed

section \<open>The detection engine\<close>

lemma detect_tick_frame:
  "hosts (tbl (detect_tick e tn d)) = hosts (tbl d) \<and> users (tbl (detect_tick e tn d)) = users (tbl d)
   \<and> rollups (tbl (detect_tick e tn d)) = rollups (tbl d)"
proof -
  obtain tk now where tn: "tn = (tk, now)" by (cases tn)
  show ?thesis
  proof (cases "tk = TickPruneDNS")
    case True
    then show ?thesis using PruneDNSQueries_effect [of "Unix (now - dnsQueriesRetention)" d] by (auto simp: tn)
  next
    case False
    then show ?thesis using raises_detect_tick [OF False, of d e now] by (simp add: tn raises_def same_but_alerts_def)
  qed
qed

interpretation detect_service: db_service "detect_tick env" tbl for env
proof
  fix s e
  show "tables_ok (tbl s) \<Longrightarrow> tables_ok (tbl (detect_tick env e s))"
    using detect_tick_inv [of s env e] detect_tick_frame [of env e s] by (simp add: tables_ok_def aligned_def count_admins_def)
  show "host_row (tbl s) ip i \<Longrightarrow> host_row (tbl (detect_tick env e s)) ip i" for ip i
    using detect_tick_frame [of env e s] by (simp add: host_row_def)
qed

section \<open>The web server\<close>

interpretation web_service: db_service "\<lambda>rq d. snd (ServeHTTP env rq d)" tbl for env
proof
  fix s rq
  have e: "web_effect env rq (tbl s) (tbl (snd (ServeHTTP env rq s)))" by (rule ServeHTTP_effect [OF prod.collapse [symmetric]])
  note f = web_effect_frame [OF e]
  then obtain a b c x y where "tbl (snd (ServeHTTP env rq s)) = (tbl s)\<lparr>users := a, user_seq := b, sessions := c, settings := x, alerts := y\<rparr>"
    by blast
  then have "rollups (tbl (snd (ServeHTTP env rq s))) = rollups (tbl s)" "hosts (tbl (snd (ServeHTTP env rq s))) = hosts (tbl s)"
    by simp_all
  with f show "tables_ok (tbl s) \<Longrightarrow> tables_ok (tbl (snd (ServeHTTP env rq s)))"
    "host_row (tbl s) ip i \<Longrightarrow> host_row (tbl (snd (ServeHTTP env rq s))) ip i" for ip i
    using web_effect_wf [OF e] web_effect_admins [OF e] by (simp_all add: tables_ok_def aligned_def host_row_def)
qed

section \<open>The capture pipeline\<close>

definition captures :: "tables \<Rightarrow> tables \<Rightarrow> bool" where
  "captures t t' \<longleftrightarrow> (wf_tables t \<longrightarrow> wf_tables t') \<and> (\<forall>ip i. host_row t ip i \<longrightarrow> host_row t' ip i)
     \<and> (rollups t', alerts t', users t', sessions t') = (rollups t, alerts t, users t, sessions t)"

lemma captures_refl [simp]: "captures t t"
  by (simp add: captures_def)

lemma captures_trans: "captures t t' \<Longrightarrow> captures t' t'' \<Longrightarrow> captures t t''"
  by (auto simp: captures_def)

lemma captures_host_step: "host_step t t' \<Longrightarrow> captures t t'"
proof -
  assume h: "host_step t t'"
  then obtain hs n where "t' = t\<lparr>hosts := hs, host_seq := n\<rparr>" unfolding host_step_def by blast
  then show ?thesis using host_stepD(1,2) [OF h] by (simp add: captures_def)
qed

lemma captures_keeps:
  assumes "keeps wf_tables m" and "\<And>c. keeps (\<lambda>t. (hosts t, rollups t, alerts t, users t, sessions t) = c) m"
  shows "captures (tbl d) (tbl (snd (m d)))"
  using assms(1) assms(2) [of "(hosts (tbl d), rollups (tbl d), alerts (tbl d), users (tbl d), sessions (tbl d))"]
  by (auto simp: captures_def keeps_def host_row_def)

lemma captures_InsertFlows: "captures (tbl d) (tbl (snd (InsertFlows rs d)))"
proof (rule captures_keeps [OF keeps_InsertFlows])
  fix c
  have "tx_keeps (\<lambda>t. (hosts t, rollups t, alerts t, users t, sessions t) = c) (insertFlowChunk x)" for x
    by (auto simp: tx_keeps_def insertFlowChunk_def split: if_splits)
  then show "keeps (\<lambda>t. (hosts t, rollups t, alerts t, users t, sessions t) = c) (InsertFlows rs)"
    using keeps_run_tx [of "\<lambda>t. (hosts t, rollups t, alerts t, users t, sessions t) = c" "map insertFlowChunk (chunk flowInsertChunk rs)"] by (simp add: keeps_def InsertFlows_def list_all_iff)
qed

lemma captures_InsertDNSQueries: "captures (tbl d) (tbl (snd (InsertDNSQueries rs d)))"
proof (rule captures_keeps [OF keeps_InsertDNSQueries])
  fix c
  have "tx_keeps (\<lambda>t. (hosts t, rollups t, alerts t, users t, sessions t) = c) (insertDNSChunk x)" for x
    by (auto simp: tx_keeps_def insertDNSChunk_def split: if_splits)
  then show "keeps (\<lambda>t. (hosts t, rollups t, alerts t, users t, sessions t) = c) (InsertDNSQueries rs)"
    using keeps_run_tx [of "\<lambda>t. (hosts t, rollups t, alerts t, users t, sessions t) = c" "map insertDNSChunk (chunk dnsInsertChunk rs)"] by (simp add: keeps_def InsertDNSQueries_def list_all_iff)
qed

lemma captures_UpsertDHCPHostname: "captures (tbl d) (tbl (snd (UpsertDHCPHostname mac name seen d)))"
proof -
  let ?F = "\<lambda>t. (rollups t, alerts t, users t, sessions t)"
  have "list_all (tx_keeps (\<lambda>t. ?F t = ?F (tbl d))) [\<lambda>t. Inr (sql_upsert_dhcp mac name seen t), \<lambda>t. Inr (sql_set_display_name mac name t)]"
    by (auto simp: tx_keeps_def sql_upsert_dhcp_def sql_set_display_name_def)
  from keeps_run_tx [OF this] have "?F (tbl (snd (UpsertDHCPHostname mac name seen d))) = ?F (tbl d)"
    by (simp add: keeps_def UpsertDHCPHostname_def)
  then show ?thesis
    using UpsertDHCPHostname_effect [of mac name seen d, OF prod.collapse [symmetric]] by (simp add: captures_def)
qed

lemma captures_resolveHost: "captures (tbl d) (tbl (snd (snd (resolveHost ip now (p, d)))))"
proof -
  obtain r p' d' where r: "resolveHost ip now (p, d) = (r, (p', d'))" by (metis prod.collapse)
  then have "host_step (tbl d) (tbl d')"
    by (cases rule: resolveHost_cases) (auto intro: host_step_UpsertHost host_step_set_mac)
  then show ?thesis using r captures_host_step by simp
qed

lemma captures_resolve_all: "captures (tbl (snd s)) (tbl (snd (snd (resolve_all ip_of mk now xs s))))"
proof (induction xs arbitrary: s)
  case (Cons x xs)
  obtain r s1 where r: "resolveHost (ip_of x) now s = (r, s1)" by (cases "resolveHost (ip_of x) now s")
  have "captures (tbl (snd s)) (tbl (snd s1))"
    using captures_resolveHost [of "snd s" "ip_of x" now "fst s"] r by simp
  with Cons [of s1] have "captures (tbl (snd s)) (tbl (snd (snd (resolve_all ip_of mk now xs s1))))" by (rule captures_trans [rotated])
  then show ?case using r by (auto split: sum.splits prod.splits)
qed simp

lemma captures_pipe_step: "captures (tbl (snd s)) (tbl (snd (pipe_step op s)))"
proof -
  obtain p d where s: "s = (p, d)" by fastforce
  have flows: "captures (tbl d) (tbl (snd (flush_flows rank now (p, d))))" for rank now
  proof -
    obtain rs q d1 where r: "resolve_all (\<lambda>x. k_lip (fst x)) flow_row now (sort_key (\<lambda>x. rank (fst x)) (p_agg p))
      (p\<lparr>bumpedThisFlush := {}, p_agg := NewAggregator\<rparr>, d) = (rs, (q, d1))" by (metis prod.collapse)
    from r have "captures (tbl d) (tbl d1)" by (metis captures_resolve_all snd_conv)
    then show ?thesis using captures_trans captures_InsertFlows by (simp add: flush_flows_run [OF r])
  qed
  have dns: "captures (tbl d) (tbl (snd (flushDNS now (p, d))))" for now
  proof -
    obtain rs q d1 where r: "resolve_all dq_lip dns_row now (dnsBuf p) (p\<lparr>dnsBuf := []\<rparr>, d) = (rs, (q, d1))" by (metis prod.collapse)
    from r have "captures (tbl d) (tbl d1)" by (metis captures_resolve_all snd_conv)
    then show ?thesis using captures_trans captures_InsertDNSQueries by (simp add: flushDNS_run [OF r])
  qed
  have "captures (tbl d) (tbl (flush_dhcp_event ev d))" for ev d
    by (simp add: flush_dhcp_event_def captures_UpsertDHCPHostname)
  then have "captures (tbl d) (tbl (fold flush_dhcp_event evs d))" for evs
    by (induction evs arbitrary: d) (auto intro: captures_trans)
  then have dhcp: "captures (tbl d) (tbl (snd (flushDHCP (p, d))))" by (simp add: flushDHCP_def)
  show ?thesis unfolding s by (cases op) (simp_all add: flows dns dhcp)
qed

interpretation capture_service: db_service pipe_step "\<lambda>s. tbl (snd s)"
proof
  fix s e
  show "tables_ok (tbl (snd s)) \<Longrightarrow> tables_ok (tbl (snd (pipe_step e s)))"
    "host_row (tbl (snd s)) ip i \<Longrightarrow> host_row (tbl (snd (pipe_step e s))) ip i" for ip i
    using captures_pipe_step [of s e] by (simp_all add: captures_def tables_ok_def aligned_def count_admins_def)
qed

section \<open>The system\<close>

record sys_cfg =
  sc_retention :: int
  sc_detect :: detect_env
  sc_web :: web_env

datatype sys_event =
    Capture pipe_op
  | Rollup "tick \<times> gotime"
  | Detection "detect_event \<times> gotime"
  | Request request

fun sys_step :: "sys_cfg \<Rightarrow> sys_event \<Rightarrow> pstate \<Rightarrow> pstate" where
  "sys_step cfg (Capture op) s = pipe_step op s"
| "sys_step cfg (Rollup tk) (p, d) = (p, on_tick (sc_retention cfg) tk d)"
| "sys_step cfg (Detection tk) (p, d) = (p, detect_tick (sc_detect cfg) tk d)"
| "sys_step cfg (Request rq) (p, d) = (p, snd (ServeHTTP (sc_web cfg) rq d))"

interpretation whole_system: db_service "sys_step cfg" "\<lambda>s. tbl (snd s)" for cfg
proof
  fix s :: pstate and e
  obtain p d where s: "s = (p, d)" by fastforce
  show "tables_ok (tbl (snd (sys_step cfg e s)))" if "tables_ok (tbl (snd s))"
    using that capture_service.ok_step [of s] rollup_service.ok_step [of d] detect_service.ok_step [of d] web_service.ok_step [of d]
    by (cases e) (simp_all add: s)
  show "host_row (tbl (snd (sys_step cfg e s))) ip i" if "host_row (tbl (snd s)) ip i" for ip i
    using that capture_service.hosts_stay [of s] rollup_service.hosts_stay [of d] detect_service.hosts_stay [of d] web_service.hosts_stay [of d]
    by (cases e) (simp_all add: s)
qed

lemma pipe_inv_sys_step:
  assumes "pipe_inv s" and "tables_ok (tbl (snd s))"
  shows "pipe_inv (sys_step cfg e s)"
proof -
  have ok: "tables_ok (tbl (snd (sys_step cfg e s)))" using assms(2) by (rule whole_system.ok_step)
  show ?thesis
  proof (cases e)
    case (Capture op)
    then show ?thesis using pipe_inv_step [OF assms(1)] by simp
  qed (use assms(1) ok whole_system.hosts_stay [of s _ _ cfg e] in \<open>cases s; auto simp: pipe_inv_def tables_ok_def cache_inv_def\<close>)+
qed

lemma pipe_inv_sys_run:
  "pipe_inv s \<Longrightarrow> tables_ok (tbl (snd s)) \<Longrightarrow> pipe_inv (fold (sys_step cfg) es s)"
  by (induction es arbitrary: s) (simp_all add: pipe_inv_sys_step whole_system.ok_step)

section \<open>From the first run on\<close>

lemma SetSettings_frame: "keeps (\<lambda>t. (users t, alerts t, rollups t) = c) (SetSettings kv)"
  "keeps (\<lambda>t. (users t, alerts t, rollups t) = c) (SetSetting k v)"
proof -
  have "list_all (tx_keeps (\<lambda>t. (users t, alerts t, rollups t) = c)) ((\<lambda>t. Inr t) # map (\<lambda>p t. Inr (sql_set_setting p t)) kv)"
    by (auto simp: list_all_iff tx_keeps_def sql_set_setting_def)
  then show "keeps (\<lambda>t. (users t, alerts t, rollups t) = c) (SetSettings kv)" unfolding SetSettings_def by (rule keeps_run_tx)
  show "keeps (\<lambda>t. (users t, alerts t, rollups t) = c) (SetSetting k v)"
    unfolding SetSetting_def by (intro keeps_exec stmt_keeps_pure) (simp add: sql_set_setting_def)
qed

lemma SetSettings_wf: "keeps wf_tables (SetSettings kv)" "keeps wf_tables (SetSetting k v)"
proof -
  have "list_all (tx_keeps wf_tables) ((\<lambda>t. Inr t) # map (\<lambda>p t. Inr (sql_set_setting p t)) kv)"
    by (auto simp: list_all_iff tx_keeps_def wf_sql_set_setting)
  then show "keeps wf_tables (SetSettings kv)" unfolding SetSettings_def by (rule keeps_run_tx)
  show "keeps wf_tables (SetSetting k v)"
    unfolding SetSetting_def by (intro keeps_exec stmt_keeps_pure wf_sql_set_setting)
qed

lemma wizard_tables_ok:
  assumes "RunFirstRunWizard idkey rnd rank now ifs io d = (Inr (), d')"
    and "wf_tables (tbl d)" and "aligned (tbl d)" and "spaced (alert_recs (tbl d))"
  shows "tables_ok (tbl d')"
proof -
  let ?F = "\<lambda>t. (users t, alerts t, rollups t)"
  obtain an where an: "ask ifs io = Inr an"
    using assms(1) by (auto simp: RunFirstRunWizard_def split: if_splits sum.splits)
  obtain hash where h: "HashPassword idkey rnd (an_password an) = Inr hash"
    using assms(1) an by (auto simp: RunFirstRunWizard_def split: if_splits sum.splits)
  obtain r1 d1 where c: "CreateUser (an_user an) hash RoleAdmin (Unix now) d = (r1, d1)" by fastforce
  obtain i where i: "r1 = Inr i"
    using assms(1) an h c by (cases r1) (auto simp: RunFirstRunWizard_def split: if_splits)
  let ?kv = "sort_key (\<lambda>kv. rank (fst kv)) (wizard_settings an)"
  obtain r2 d2 where s: "SetSettings ?kv d1 = (r2, d2)" by fastforce
  obtain j where j: "r2 = Inr j"
    using assms(1) an h c i s by (cases r2) (auto simp: RunFirstRunWizard_def split: if_splits)
  have s2: "SetSetting KeySetupComplete ''1'' d2 = (Inr (), d')"
    using assms(1) an h c i s j by (auto simp: RunFirstRunWizard_def split: if_splits)
  have "wf_tables (tbl d1)"
    by (rule keepsD [OF keeps_exec [OF wf_sql_create_user] c [unfolded CreateUser_def] assms(2)])
  then have "wf_tables (tbl d')"
    using keepsD [OF SetSettings_wf(1) s] keepsD [OF SetSettings_wf(2) s2] by blast
  moreover have "?F (tbl d') = ?F (tbl d1)"
    using keepsD [OF SetSettings_frame(1) s] keepsD [OF SetSettings_frame(2) s2] by blast
  moreover from c have "alerts (tbl d1) = alerts (tbl d) \<and> rollups (tbl d1) = rollups (tbl d) \<and> 1 \<le> count_admins (tbl d1)"
    by (cases rule: CreateUser_cases) (simp_all add: i count_admins_def)
  ultimately show ?thesis using assms(3,4) by (simp add: tables_ok_def aligned_def count_admins_def)
qed


definition demo_cfg :: sys_cfg where
  "demo_cfg = \<lparr>sc_retention = 30, sc_detect = \<lparr>env_float = (\<lambda>_. []), env_geo = []\<rparr>, sc_web = Web_Access.demo_env\<rparr>"

definition demo_events :: "sys_event list" where
  "demo_events = map Capture demo_ops @ [Rollup (Tick1m, 120 * Second), Detection (TickExfil, 120 * Second),
     Request (demo_request ''DELETE'' [''api'', ''users'', ''1''] ''k1'' [])]"


end
