(* ===== verification/Rollup_Tiers.thy ===== *)
theory Rollup_Tiers
  imports Rollupjob
begin

text \<open>
  The rollup job over all four tiers. When the ticks of a period come in order, each tier after the
  windows it is built from, every tier is the direct aggregation of the flows; and a window whose tick
  is missed or comes too early stays as it is for ever.
\<close>

section \<open>The tiers\<close>

text \<open>The tiers from fine to coarse, with the width of a bucket, the tick that fills them, and how many buckets of the
  tier make one of the next.\<close>

fun tier_name :: "nat \<Rightarrow> string" where
  "tier_name 0 = ''rollup_1m''"
| "tier_name (Suc 0) = ''rollup_5m''"
| "tier_name (Suc (Suc 0)) = ''rollup_1h''"
| "tier_name _ = ''rollup_1d''"

fun tier_secs :: "nat \<Rightarrow> int" where
  "tier_secs 0 = 60"
| "tier_secs (Suc 0) = 300"
| "tier_secs (Suc (Suc 0)) = 3600"
| "tier_secs _ = 86400"

fun tier_tick :: "nat \<Rightarrow> tick" where
  "tier_tick 0 = Tick1m"
| "tier_tick (Suc 0) = Tick5m"
| "tier_tick (Suc (Suc 0)) = Tick1h"
| "tier_tick _ = Tick1d"

fun per_next :: "nat \<Rightarrow> nat" where
  "per_next 0 = 5"
| "per_next (Suc 0) = 12"
| "per_next _ = 24"

lemma less3: "j < 3 \<longleftrightarrow> j = 0 \<or> j = 1 \<or> j = (2 :: nat)"
  by auto

lemma tier_facts:
  assumes "j < 3"
  shows "tier_secs (Suc j) = int (per_next j) * tier_secs j" "0 < tier_secs j" "tier_secs j dvd 86400" "tier_secs (Suc j) dvd 86400"
    "tier_secs j dvd tier_secs (Suc j)"
  using assms unfolding less3 by (auto simp: numeral_2_eq_2)

lemma tier_secs_pos: "0 < tier_secs j"
  by (cases j rule: tier_secs.cases) simp_all

lemma tier_name_inj: "i \<le> 3 \<Longrightarrow> j \<le> 3 \<Longrightarrow> tier_name i = tier_name j \<Longrightarrow> i = j"
  by (cases i rule: tier_name.cases; cases j rule: tier_name.cases) auto

section \<open>What a tick adds\<close>

lemma tier_sum_rollup_finer:
  assumes "sql_rollup_finer src dst w from to t = Inr (u, t')"
  shows "tier_sum dst P t' = tier_sum dst P t + tier_sum src (\<lambda>k. from \<le> snd (snd k) \<and> snd (snd k) < to \<and> P (coarse_key w k)) t"
proof -
  let ?rows = "filter (\<lambda>((h, dir, ts), c). from \<le> ts \<and> ts < to) (rollups t src)"
  let ?kcs = "map (\<lambda>kc. (coarse_key w (fst kc), snd kc)) (select_sums fst snd ?rows)"
  note t' = insert_sums_InrD(1) [OF assms [unfolded sql_rollup_finer_def]]
  have "map snd (filter (\<lambda>kc. P (fst kc)) ?kcs) = map snd (filter (\<lambda>kc. P (coarse_key w (fst kc))) (select_sums fst snd ?rows))"
    by (simp add: filter_map comp_def)
  then have "sum_list (map snd (filter (\<lambda>kc. P (fst kc)) ?kcs)) = sum_list (map snd (filter (\<lambda>x. P (coarse_key w (fst x))) ?rows))"
    using sum_select_sums [where P = "\<lambda>x. P (coarse_key w x)" and key = fst and v = snd and xs = ?rows] by argo
  also have "\<dots> = tier_sum src (\<lambda>k. from \<le> snd (snd k) \<and> snd (snd k) < to \<and> P (coarse_key w k)) t"
    unfolding tier_sum_def filter_filter
    by (rule arg_cong [where f = "\<lambda>xs. sum_list (map snd xs)"]) (auto intro: filter_cong)
  finally show ?thesis by (simp add: tier_sum_def t' sum_filter_fold_sum)
qed

lemma finer_tick_run:
  assumes "j < 3"
  shows "on_tick r (tier_tick (Suc j), now) d =
    snd (exec (sql_rollup_finer (tier_name j) (tier_name (Suc j)) (tier_secs (Suc j))
      (Unix now div tier_secs (Suc j) * tier_secs (Suc j) - tier_secs (Suc j)) (Unix now div tier_secs (Suc j) * tier_secs (Suc j))) d)"
  using assms rollupFiner_window(1,2) [of 300 now] rollupFiner_window(1,2) [of 3600 now] rollupFiner_window(1,2) [of 86400 now] unfolding less3
  by (auto simp: numeral_2_eq_2 rollupFiner_def Let_def RollupFromFiner_def rollupTables_def go_time)

lemma finer_tick:
  fixes now r d j
  defines "w \<equiv> tier_secs (Suc j)" and "t' \<equiv> tbl (on_tick r (tier_tick (Suc j), now) d)"
  assumes "j < 3" and "db_faults d = []" and "wf_tables (tbl d)" and "Unix now div w * w = b"
  shows "db_faults (on_tick r (tier_tick (Suc j), now) d) = []" and "wf_tables t'" and "flows_recent t' = flows_recent (tbl d)"
    and "g \<noteq> tier_name (Suc j) \<Longrightarrow> rollups t' g = rollups (tbl d) g"
    and "tier_sum (tier_name (Suc j)) P t' = tier_sum (tier_name (Suc j)) P (tbl d)
      + tier_sum (tier_name j) (\<lambda>k. b - w \<le> snd (snd k) \<and> snd (snd k) < b \<and> P (coarse_key w k)) (tbl d)"
proof -
  let ?sql = "sql_rollup_finer (tier_name j) (tier_name (Suc j)) w (b - w) b"
  obtain t2 where t2: "?sql (tbl d) = Inr ((), t2)" using sql_rollup_finer_total [OF assms(5)] by blast
  have run: "on_tick r (tier_tick (Suc j), now) d = d\<lparr>tbl := t2\<rparr>"
    using finer_tick_run [OF assms(3), of r now d] t2 assms(4,6) unfolding w_def by (simp add: exec_ok)
  then have t': "t' = t2" by (simp add: t'_def)
  show "db_faults (on_tick r (tier_tick (Suc j), now) d) = []" using run assms(4) by simp
  show "wf_tables t'" unfolding t'_def by (rule wf_on_tick [OF assms(5)])
  note eq = sql_rollup_finer_cell(2) [OF t2]
  show "flows_recent t' = flows_recent (tbl d)" unfolding t' by (subst eq) simp
  show "g \<noteq> tier_name (Suc j) \<Longrightarrow> rollups t' g = rollups (tbl d) g" unfolding t' by (subst eq) simp
  show "tier_sum (tier_name (Suc j)) P t' = tier_sum (tier_name (Suc j)) P (tbl d)
      + tier_sum (tier_name j) (\<lambda>k. b - w \<le> snd (snd k) \<and> snd (snd k) < b \<and> P (coarse_key w k)) (tbl d)"
    unfolding t' by (rule tier_sum_rollup_finer [OF t2])
qed

section \<open>The flows of a window, by tier\<close>

definition tier_flows :: "nat \<Rightarrow> int \<Rightarrow> int \<Rightarrow> (rollup_key \<Rightarrow> bool) \<Rightarrow> FlowRecord list \<Rightarrow> counters" where
  "tier_flows i a b P fs =
     sum_list (map flow_counters (filter (\<lambda>f. a \<le> f_last f \<and> f_last f < b \<and> P (f_host f, f_dir f, bucket (tier_secs i) (f_last f))) fs))"

lemma tier_flows_split: "a \<le> b \<Longrightarrow> b \<le> c \<Longrightarrow> tier_flows i a c P fs = tier_flows i a b P fs + tier_flows i b c P fs"
  unfolding tier_flows_def by (induction fs) (auto simp: ac_simps)

lemma tier_flows_empty [simp]: "tier_flows i a a P fs = 0"
  unfolding tier_flows_def by (induction fs) auto

lemma tier_flows_cong:
  assumes "\<And>f :: FlowRecord. a \<le> f_last f \<Longrightarrow> f_last f < b \<Longrightarrow> P (f_host f, f_dir f, bucket (tier_secs i) (f_last f)) = Q (f_host f, f_dir f, bucket (tier_secs j) (f_last f))"
  shows "tier_flows i a b P fs = tier_flows j a b Q fs"
  unfolding tier_flows_def by (rule sum_filter_keys) (use assms in blast)

lemma tier_flows_none:
  assumes "\<And>f :: FlowRecord. a \<le> f_last f \<Longrightarrow> f_last f < b \<Longrightarrow> \<not> P (f_host f, f_dir f, bucket (tier_secs i) (f_last f))"
  shows "tier_flows i a b P fs = 0"
proof -
  have "tier_flows i a b P fs = tier_flows i a b (\<lambda>_. False) fs" by (rule tier_flows_cong) (use assms in blast)
  then show ?thesis by (simp add: tier_flows_def)
qed

lemma bucket_window:
  assumes "0 \<le> a" and "tier_secs i dvd a" and "tier_secs i dvd b" and "0 \<le> ts"
  shows "a \<le> bucket (tier_secs i) ts \<and> bucket (tier_secs i) ts < b \<longleftrightarrow> a \<le> ts \<and> ts < b"
  using in_range_bucket [of ts "tier_secs i" a b] assms tier_secs_pos [of i] by auto

lemma tier_flows_inside:
  assumes "0 \<le> a" and "tier_secs i dvd a" and "tier_secs i dvd b"
  shows "tier_flows i a b (\<lambda>k. a \<le> snd (snd k) \<and> snd (snd k) < b \<and> P k) fs = tier_flows i a b P fs"
proof (rule tier_flows_cong)
  fix f :: FlowRecord assume "a \<le> f_last f" "f_last f < b"
  then show "(a \<le> snd (snd (f_host f, f_dir f, bucket (tier_secs i) (f_last f))) \<and> snd (snd (f_host f, f_dir f, bucket (tier_secs i) (f_last f))) < b
      \<and> P (f_host f, f_dir f, bucket (tier_secs i) (f_last f))) = P (f_host f, f_dir f, bucket (tier_secs i) (f_last f))"
    using bucket_window [OF assms, of "f_last f"] assms(1) by simp
qed

lemma tier_flows_outside:
  assumes "0 \<le> a" and "tier_secs i dvd b" and "b \<le> c"
  shows "tier_flows i a b (\<lambda>k. c \<le> snd (snd k) \<and> snd (snd k) < e \<and> P k) fs = 0"
proof (rule tier_flows_none)
  fix f :: FlowRecord assume "a \<le> f_last f" "f_last f < b"
  then have "bucket (tier_secs i) (f_last f) \<le> f_last f" using assms(1) bucket_bounds [of "f_last f" "tier_secs i"] tier_secs_pos [of i] by simp
  then show "\<not> (c \<le> snd (snd (f_host f, f_dir f, bucket (tier_secs i) (f_last f))) \<and> snd (snd (f_host f, f_dir f, bucket (tier_secs i) (f_last f))) < e
      \<and> P (f_host f, f_dir f, bucket (tier_secs i) (f_last f)))"
    using \<open>f_last f < b\<close> assms(3) by simp
qed

lemma per_next_pos: "0 < per_next j"
  by (cases j rule: per_next.cases) simp_all

lemma tier_flows_coarse:
  assumes "0 \<le> a" and "j < 3"
  shows "tier_flows j a b (\<lambda>k. P (coarse_key (tier_secs (Suc j)) k)) fs = tier_flows (Suc j) a b P fs"
proof (rule tier_flows_cong)
  fix f :: FlowRecord assume "a \<le> f_last f"
  then have "bucket (int (per_next j) * tier_secs j) (bucket (tier_secs j) (f_last f)) = bucket (int (per_next j) * tier_secs j) (f_last f)"
    using assms by (intro bucket_bucket) (simp_all add: tier_secs_pos per_next_pos)
  then show "P (coarse_key (tier_secs (Suc j)) (f_host f, f_dir f, bucket (tier_secs j) (f_last f)))
      = P (f_host f, f_dir f, bucket (tier_secs (Suc j)) (f_last f))"
    by (simp add: coarse_key_def tier_facts(1) [OF assms(2)])
qed

lemma minute_tick:
  assumes "db_faults d = []" and "wf_tables (tbl d)" and "Unix now div 60 * 60 = b"
  shows "db_faults (rollup1m now d) = []" and "wf_tables (tbl (rollup1m now d))" and "flows_recent (tbl (rollup1m now d)) = flows_recent (tbl d)"
    and "g \<noteq> tier_name 0 \<Longrightarrow> rollups (tbl (rollup1m now d)) g = rollups (tbl d) g"
    and "tier_sum (tier_name 0) P (tbl (rollup1m now d)) = tier_sum (tier_name 0) P (tbl d) + tier_flows 0 (b - 60) b P (flows_recent (tbl d))"
proof -
  note ok = rollup1m_ok [OF assms(1,2), of now, unfolded assms(3)]
  show "db_faults (rollup1m now d) = []" by (rule rollup1m_ok(1) [OF assms(1,2)])
  show "wf_tables (tbl (rollup1m now d))" using wf_on_tick [OF assms(2), of 0 "(Tick1m, now)"] by simp
  note eq = tier_sum_rollup_flows(2) [OF ok(2)]
  show "flows_recent (tbl (rollup1m now d)) = flows_recent (tbl d)" by (subst eq) simp
  show "g \<noteq> tier_name 0 \<Longrightarrow> rollups (tbl (rollup1m now d)) g = rollups (tbl d) g" by (subst eq) simp
  show "tier_sum (tier_name 0) P (tbl (rollup1m now d)) = tier_sum (tier_name 0) P (tbl d) + tier_flows 0 (b - 60) b P (flows_recent (tbl d))"
    using tier_sum_rollup_flows(1) [OF ok(2), of P] by (simp add: tier_flows_def flow_sum_def flow_key_def)
qed

section \<open>Schedules in order\<close>

text \<open>\<open>covers j n B ticks\<close>: the ticks are those of \<open>n\<close> consecutive windows of tier \<open>j\<close> from time \<open>B\<close> on, each
  window's own tick after the ticks of the finer windows it consists of, and each tick at a time when
  its handler takes the window that just ended.\<close>

inductive covers :: "nat \<Rightarrow> nat \<Rightarrow> int \<Rightarrow> (tick \<times> gotime) list \<Rightarrow> bool" where
  covers_none: "covers j 0 B []"
| covers_minute: "covers 0 (Suc n) B (ticks @ [(Tick1m, now)])"
  if "covers 0 n B ticks" "Unix now div 60 * 60 = B + 60 * (int n + 1)"
| covers_next: "covers (Suc j) (Suc n) B (ticks @ finer @ [(tier_tick (Suc j), now)])"
  if "covers (Suc j) n B ticks" "j < 3" "covers j (per_next j) (B + tier_secs (Suc j) * int n) finer"
    "Unix now div tier_secs (Suc j) * tier_secs (Suc j) = B + tier_secs (Suc j) * (int n + 1)"

definition untouched :: "nat \<Rightarrow> int \<Rightarrow> int \<Rightarrow> tables \<Rightarrow> bool" where
  "untouched i a b t \<longleftrightarrow> (\<forall>P. tier_sum (tier_name i) (\<lambda>k. a \<le> snd (snd k) \<and> snd (snd k) < b \<and> P k) t = 0)"

text \<open>What a schedule in order does: it adds the flows of its period to every tier up to its own.\<close>

definition rolled :: "nat \<Rightarrow> int \<Rightarrow> int \<Rightarrow> db \<Rightarrow> db \<Rightarrow> bool" where
  "rolled j a b d d' \<longleftrightarrow> db_faults d' = [] \<and> wf_tables (tbl d') \<and> flows_recent (tbl d') = flows_recent (tbl d)
     \<and> (\<forall>i \<le> 3. j < i \<longrightarrow> rollups (tbl d') (tier_name i) = rollups (tbl d) (tier_name i))
     \<and> (\<forall>i \<le> j. \<forall>P. tier_sum (tier_name i) P (tbl d') = tier_sum (tier_name i) P (tbl d) + tier_flows i a b P (flows_recent (tbl d)))"

lemma rolled_trans:
  assumes "rolled j a b d d1" and "rolled j b c d1 d2" and "a \<le> b" and "b \<le> c"
  shows "rolled j a c d d2"
  using assms(1,2) tier_flows_split [OF assms(3,4)] by (auto simp: rolled_def ac_simps)

lemma rolled_tick:
  assumes "rolled j a b d d1" and "j < 3" and "0 \<le> a" and "b = a + tier_secs (Suc j)" and "tier_secs (Suc j) dvd a"
    and "untouched j a b (tbl d)" and "Unix now div tier_secs (Suc j) * tier_secs (Suc j) = b"
  shows "rolled (Suc j) a b d (on_tick r (tier_tick (Suc j), now) d1)"
proof -
  let ?w = "tier_secs (Suc j)" and ?d2 = "on_tick r (tier_tick (Suc j), now) d1" and ?fs = "flows_recent (tbl d)"
  have d1: "db_faults d1 = []" "wf_tables (tbl d1)" "flows_recent (tbl d1) = ?fs" using assms(1) by (simp_all add: rolled_def)
  note tick = finer_tick [OF assms(2) d1(1,2) assms(7)]
  have dvd: "tier_secs j dvd a" "tier_secs j dvd b"
    using assms(4,5) tier_facts(5) [OF assms(2)] by (auto intro: dvd_trans dvd_add)
  have new: "tier_sum (tier_name (Suc j)) P (tbl ?d2) = tier_sum (tier_name (Suc j)) P (tbl d) + tier_flows (Suc j) a b P ?fs" for P
  proof -
    let ?Q = "\<lambda>k. a \<le> snd (snd k) \<and> snd (snd k) < b \<and> P (coarse_key ?w k)"
    have "tier_sum (tier_name j) ?Q (tbl d1) = tier_sum (tier_name j) ?Q (tbl d) + tier_flows j a b ?Q ?fs"
      using assms(1) by (simp add: rolled_def)
    also have "tier_sum (tier_name j) ?Q (tbl d) = 0" using assms(6) by (simp add: untouched_def)
    also have "tier_flows j a b ?Q ?fs = tier_flows (Suc j) a b P ?fs"
      using tier_flows_inside [OF assms(3) dvd] tier_flows_coarse [OF assms(3,2)] by simp
    finally have "tier_sum (tier_name j) ?Q (tbl d1) = tier_flows (Suc j) a b P ?fs" by simp
    moreover have "tier_sum (tier_name (Suc j)) P (tbl d1) = tier_sum (tier_name (Suc j)) P (tbl d)"
      using assms(1,2) by (simp add: rolled_def tier_sum_def)
    ultimately show ?thesis using tick(5) [where r = r and P = P] assms(4) by simp
  qed
  have "rollups (tbl ?d2) (tier_name i) = rollups (tbl d1) (tier_name i)" if "i \<le> 3" "i \<noteq> Suc j" for i
    using tick(4) [where r = r and g = "tier_name i"] tier_name_inj [of i "Suc j"] that assms(2) by auto
  then have "\<forall>i \<le> 3. Suc j < i \<longrightarrow> rollups (tbl ?d2) (tier_name i) = rollups (tbl d) (tier_name i)"
    "\<forall>i \<le> j. \<forall>P. tier_sum (tier_name i) P (tbl ?d2) = tier_sum (tier_name i) P (tbl d) + tier_flows i a b P ?fs"
    using assms(1,2) by (auto simp: rolled_def tier_sum_def)
  then show ?thesis using tick(1-3) d1(3) new unfolding rolled_def by (auto simp: le_Suc_eq)
qed

lemma rolled_minute:
  assumes "db_faults d = []" and "wf_tables (tbl d)" and "Unix now div 60 * 60 = a + 60"
  shows "rolled 0 a (a + 60) d (rollup1m now d)"
proof -
  note tick = minute_tick [OF assms]
  have "rollups (tbl (rollup1m now d)) (tier_name i) = rollups (tbl d) (tier_name i)" if "i \<le> 3" "0 < i" for i
    using tick(4) [of "tier_name i"] tier_name_inj [of i 0] that by auto
  then show ?thesis unfolding rolled_def using tick(1-3) tick(5) by simp
qed

lemma untouched_later:
  assumes "rolled j a b d d1" and "0 \<le> a" and "i \<le> j" and "tier_secs i dvd b" and "b \<le> c" and "untouched i c e (tbl d)"
  shows "untouched i c e (tbl d1)"
  using assms(1,3,6) tier_flows_outside [OF assms(2,4,5)] by (simp add: rolled_def untouched_def)

lemma tier_secs_dvd: "i \<le> j \<Longrightarrow> j \<le> 3 \<Longrightarrow> tier_secs i dvd tier_secs j"
  by (cases i rule: tier_secs.cases; cases j rule: tier_secs.cases) auto

lemma untouched_mono: "untouched i a b t \<Longrightarrow> a \<le> a' \<Longrightarrow> b' \<le> b \<Longrightarrow> untouched i a' b' t"
proof -
  assume u: "untouched i a b t" and ab: "a \<le> a'" "b' \<le> b"
  have "tier_sum (tier_name i) (\<lambda>k. a' \<le> snd (snd k) \<and> snd (snd k) < b' \<and> P k) t
      = tier_sum (tier_name i) (\<lambda>k. a \<le> snd (snd k) \<and> snd (snd k) < b \<and> (a' \<le> snd (snd k) \<and> snd (snd k) < b' \<and> P k)) t" for P
    unfolding tier_sum_def by (rule sum_filter_keys) (use ab in auto)
  then show ?thesis using u by (simp add: untouched_def)
qed

lemma covers_rolled:
  assumes "covers j n B ticks" and "j \<le> 3" and "db_faults d = []" and "wf_tables (tbl d)" and "0 \<le> B" and "tier_secs j dvd B"
    and "\<forall>i < j. untouched i B (B + tier_secs j * int n) (tbl d)"
  shows "rolled j B (B + tier_secs j * int n) d (Run r ticks d)"
  using assms
proof (induction arbitrary: d rule: covers.induct)
  case (covers_none j B)
  then show ?case by (simp add: rolled_def Run_def)
next
  case (covers_minute n B ticks now)
  let ?d1 = "Run r ticks d"
  have d1: "rolled 0 B (B + 60 * int n) d ?d1" using covers_minute.IH covers_minute.prems by simp
  have "Unix now div 60 * 60 = B + 60 * int n + 60" using covers_minute.hyps(2) by (simp add: algebra_simps)
  moreover have "db_faults ?d1 = []" "wf_tables (tbl ?d1)" using d1 by (simp_all add: rolled_def)
  ultimately have "rolled 0 (B + 60 * int n) (B + 60 * int n + 60) ?d1 (rollup1m now ?d1)" by (intro rolled_minute)
  from rolled_trans [OF d1 this] show ?case by (simp add: Run_def algebra_simps)
next
  case (covers_next j n B ticks finer now)
  let ?w = "tier_secs (Suc j)" and ?d1 = "Run r ticks d"
  let ?a = "B + ?w * int n" and ?b = "B + ?w * int n + ?w"
  let ?d2 = "Run r finer ?d1"
  have wpos: "0 < ?w" by (rule tier_secs_pos)
  have ends: "?w * int (Suc n) = ?w * int n + ?w" "tier_secs j * int (per_next j) = ?w"
    using tier_facts(1) [OF \<open>j < 3\<close>] by (simp_all add: algebra_simps)
  have d1: "rolled (Suc j) B ?a d ?d1"
    using covers_next.IH(1) [of d] covers_next.prems ends(1) untouched_mono [of _ B "B + ?w * int (Suc n)" "tbl d" B ?a] wpos by auto
  have a: "0 \<le> ?a" "?w dvd ?a" "tier_secs j dvd ?a"
    using covers_next.prems(4,5) wpos tier_facts(5) [OF \<open>j < 3\<close>] by (auto intro: dvd_trans dvd_add dvd_mult2)
  have u: "untouched i ?a ?b (tbl ?d1)" if "i \<le> j" for i
  proof (rule untouched_later [OF d1 covers_next.prems(4)])
    show "tier_secs i dvd ?a" using that \<open>j < 3\<close> tier_secs_dvd [of i "Suc j"] a(2) by (auto intro: dvd_trans)
    have "untouched i B (B + ?w * int (Suc n)) (tbl d)" using covers_next.prems(6) that by simp
    then show "untouched i ?a ?b (tbl d)" by (rule untouched_mono) (use wpos ends(1) in simp_all)
  qed (use that in simp_all)
  have d2: "rolled j ?a ?b ?d1 ?d2"
    using covers_next.IH(2) [of ?d1] u a \<open>j < 3\<close> d1 unfolding ends(2) by (auto simp: rolled_def)
  have "Unix now div ?w * ?w = ?b" using covers_next.hyps(4) by (simp add: algebra_simps)
  from rolled_tick [OF d2 \<open>j < 3\<close> a(1) _ a(2) u [of j] this, of r]
  have "rolled (Suc j) ?a ?b ?d1 (on_tick r (tier_tick (Suc j), now) ?d2)" by simp
  from rolled_trans [OF d1 this] show ?case using wpos covers_next.prems(4) ends(1) by (simp add: Run_def add.assoc)
qed

section \<open>Every tier is exact\<close>

lemma cell_sum: "distinct (map fst tab) \<Longrightarrow> sum_list (map snd (filter (\<lambda>x. fst x = k) tab)) = cell tab k"
proof (induction tab)
  case (Cons x tab)
  then have "filter (\<lambda>y. fst y = k) tab = []" if "fst x = k" using that by (auto simp: filter_empty_conv image_iff)
  with Cons show ?case by (cases x) (auto simp: cell_def)
qed (simp add: cell_def)


text \<open>The schedule in which every tick comes on time.\<close>

fun on_time :: "nat \<Rightarrow> nat \<Rightarrow> int \<Rightarrow> (tick \<times> gotime) list" where
  "on_time j 0 B = []"
| "on_time 0 (Suc n) B = on_time 0 n B @ [(Tick1m, (B + 60 * (int n + 1)) * Second)]"
| "on_time (Suc j) (Suc n) B = on_time (Suc j) n B @ on_time j (per_next j) (B + tier_secs (Suc j) * int n)
     @ [(tier_tick (Suc j), (B + tier_secs (Suc j) * (int n + 1)) * Second)]"

lemma Unix_seconds: "Unix (s * Second) = s"
  by (simp add: Unix_def Second_def)

lemma covers_on_time: "j \<le> 3 \<Longrightarrow> tier_secs j dvd B \<Longrightarrow> covers j n B (on_time j n B)"
proof (induction j n B rule: on_time.induct)
  case (1 j B)
  show ?case by (simp add: covers_none)
next
  case (2 n B)
  then show ?case by (auto intro!: covers_minute simp: Unix_seconds dvd_add)
next
  case (3 j n B)
  have j: "j < 3" using "3.prems"(1) by simp
  have dvd: "tier_secs (Suc j) dvd B + tier_secs (Suc j) * (int n + 1)" using "3.prems"(2) by simp
  have "tier_secs j dvd B + tier_secs (Suc j) * int n"
    using "3.prems"(2) tier_facts(5) [OF j] by (auto intro: dvd_trans dvd_add dvd_mult2)
  then have "covers j (per_next j) (B + tier_secs (Suc j) * int n) (on_time j (per_next j) (B + tier_secs (Suc j) * int n))"
    using "3.IH"(2) j by simp
  moreover have "covers (Suc j) n B (on_time (Suc j) n B)" using "3.IH"(1) "3.prems" by simp
  ultimately show ?case
    unfolding on_time.simps using j dvd by (intro covers_next) (simp_all add: Unix_seconds)
qed


section \<open>A window that is missed stays missed\<close>

lemma fine_into_later: "0 \<le> b \<Longrightarrow> 0 < w \<Longrightarrow> b + w \<le> from \<Longrightarrow> fine_into src w from to (h, dir, b) t = 0"
proof -
  assume b: "0 \<le> b" "0 < w" "b + w \<le> from"
  then have "bucket w ts \<noteq> b" if "from \<le> ts" for ts using that bucket_bounds [of ts w] by auto
  then have "filter (\<lambda>((h', dir', ts), c). from \<le> ts \<and> ts < to \<and> (h', dir', bucket w ts) = (h, dir, b)) (rollups t src) = []"
    by (auto simp: filter_empty_conv)
  then show ?thesis by (simp add: fine_into_def)
qed

lemma finer_tick_other:
  assumes "j < 3" and "g \<noteq> tier_name (Suc j)"
  shows "rollups (tbl (on_tick r (tier_tick (Suc j), now) d)) g = rollups (tbl d) g"
proof -
  have "stmt_keeps (\<lambda>t. rollups t g = rollups (tbl d) g) (sql_rollup_finer src (tier_name (Suc j)) w from to)" for src w "from" to
    by (rule stmt_keepsI) (use assms(2) in \<open>auto simp: sql_rollup_finer_def dest: insert_sums_other\<close>)
  from keeps_exec [OF this] show ?thesis unfolding finer_tick_run [OF assms(1)] keeps_def by blast
qed

lemma minute_tick_other: "g \<noteq> ''rollup_1m'' \<Longrightarrow> rollups (tbl (rollup1m now d)) g = rollups (tbl d) g"
  by (cases rule: rollup1m_cases [of now d]) (auto simp: sql_rollup_flows_def dest: insert_sums_other)

text \<open>Pruning a table keeps its newer rows.\<close>

definition pruned :: "string \<Rightarrow> tables \<Rightarrow> tables \<Rightarrow> bool" where
  "pruned g t t' \<longleftrightarrow> rollups t' g = rollups t g \<or> (\<exists>c. rollups t' g = filter (\<lambda>((h, dir, ts), _). \<not> ts < c) (rollups t g))"

lemma pruned_trans:
  assumes "pruned g t t'" and "pruned g t' t''"
  shows "pruned g t t''"
proof -
  have "filter (\<lambda>((h, dir, ts), _). \<not> ts < c) (filter (\<lambda>((h, dir, ts), _). \<not> ts < c') xs)
      = filter (\<lambda>((h, dir, ts), _). \<not> ts < max c c') xs" for c c' :: int and xs :: rollup_table
    by (induction xs) auto
  then show ?thesis using assms unfolding pruned_def by metis
qed

lemma pruned_prune: "pruned g (tbl d) (tbl (prune r now d))"
proof -
  have step: "pruned g (tbl d) (tbl (snd (PruneRollup s c d)))" for s c d
    using PruneRollup_tier [of s c d g] by (auto simp: pruned_def)
  have start: "pruned g (tbl d) (tbl (snd (PruneFlowsRecent c d)))" for c
    by (simp add: pruned_def PruneFlowsRecent_tiers)
  show ?thesis unfolding prune_def Let_def IncrementalVacuum_tbl by (intro pruned_trans [OF _ step] start)
qed

lemma pruned_cell:
  assumes "pruned g t t'" and "wf_tables t"
  shows "cell (rollups t' g) k \<in> {cell (rollups t g) k, 0}"
proof -
  have "distinct (map fst (rollups t g))" using assms(2) by (simp add: wf_defs)
  then show ?thesis using assms(1) cell_filter unfolding pruned_def by fastforce
qed

lemma floor_window: "0 < w \<Longrightarrow> w dvd b \<Longrightarrow> b + 2 * w \<le> n \<Longrightarrow> b + w \<le> n div w * w - w" for b w n :: int
proof -
  assume w: "0 < w" "w dvd b" "b + 2 * w \<le> n"
  then obtain k where k: "b = w * k" by (elim dvdE)
  then have "(k + 2) * w \<le> n" using w(3) by (simp add: algebra_simps)
  then have "k + 2 \<le> n div w" using w(1) mult_le_iff_le_div [of w "k + 2" n] by (simp add: mult.commute)
  then have "(k + 2) * w \<le> n div w * w" using w(1) by (intro mult_right_mono) simp_all
  then show ?thesis using k by (simp add: algebra_simps)
qed

lemma tick_tier: "tk \<noteq> TickPrune \<Longrightarrow> \<exists>l \<le> 3. tk = tier_tick l"
proof (cases tk)
  case Tick1m
  then show ?thesis by (intro exI [of _ 0]) simp
next
  case Tick5m
  then show ?thesis by (intro exI [of _ 1]) simp
next
  case Tick1h
  then show ?thesis by (intro exI [of _ 2]) (simp add: numeral_2_eq_2)
next
  case Tick1d
  then show ?thesis by (intro exI [of _ 3]) (simp add: numeral_3_eq_3)
qed simp

lemma on_tick_missed:
  assumes "wf_tables (tbl d)" and "i \<le> 3" and "0 \<le> b" and "tier_secs i dvd b" and "tk = tier_tick i \<Longrightarrow> b + 2 * tier_secs i \<le> Unix now"
  shows "cell (rollups (tbl (on_tick r (tk, now) d)) (tier_name i)) (h, dir, b) \<in> {cell (rollups (tbl d) (tier_name i)) (h, dir, b), 0}"
proof (cases "tk = TickPrune")
  case True
  then show ?thesis using pruned_cell [OF pruned_prune assms(1)] by simp
next
  case False
  then obtain l where l: "l \<le> 3" "tk = tier_tick l" using tick_tier by blast
  show ?thesis
  proof (cases l)
    case 0
    show ?thesis
    proof (cases "i = 0")
      case True
      then show ?thesis using l 0 on_tick_late [OF assms(1,3), of now r Tick1m h dir] assms(4,5) by simp
    next
      case False
      then have "tier_name i \<noteq> ''rollup_1m''" using tier_name_inj [of i 0] assms(2) by auto
      then show ?thesis using l 0 minute_tick_other [of "tier_name i" now d] by simp
    qed
  next
    case (Suc j)
    then have j: "j < 3" using l(1) by simp
    show ?thesis
    proof (cases "i = l")
      case True
      let ?w = "tier_secs (Suc j)" and ?to = "Unix now div tier_secs (Suc j) * tier_secs (Suc j)"
      let ?sql = "sql_rollup_finer (tier_name j) (tier_name (Suc j)) ?w (?to - ?w) ?to"
      have "b + ?w \<le> ?to - ?w" using True Suc assms(4) assms(5) l(2) tier_secs_pos by (intro floor_window) auto
      then have "fine_into (tier_name j) ?w (?to - ?w) ?to (h, dir, b) (tbl d) = 0"
        using fine_into_later [OF assms(3) tier_secs_pos] by blast
      then show ?thesis
        unfolding l(2) Suc True finer_tick_run [OF j]
        by (cases rule: exec_cases [of ?sql d]) (use sql_rollup_finer_cell(1) in auto)
    next
      case False
      then have "tier_name i \<noteq> tier_name (Suc j)" using tier_name_inj [OF assms(2) l(1)] Suc by auto
      then show ?thesis using finer_tick_other [OF j, of "tier_name i" r now d] l(2) Suc by simp
    qed
  qed
qed

text \<open>C13: a window that was missed stays missed. Take a window of any tier and any ticks, with any driver failures, in which every
  tick of that tier comes after the following window has ended (or never). Then nothing is ever added to the
  cells of the window: they stay or are pruned. So a window is lost when its one tick does not run (the
  program was down, or restarted and with it all tickers), and so is whatever reaches the
  finer tier after that tick.\<close>

theorem missed_window_stays:
  assumes "wf_tables (tbl d)" and "i \<le> 3" and "0 \<le> b" and "tier_secs i dvd b"
    and "\<forall>(tk, now) \<in> set ticks. tk = tier_tick i \<longrightarrow> b + 2 * tier_secs i \<le> Unix now"
  shows "cell (rollups (tbl (Run r ticks d)) (tier_name i)) (h, dir, b) \<in> {cell (rollups (tbl d) (tier_name i)) (h, dir, b), 0}"
  using assms(1,5) unfolding Run_def
proof (induction ticks arbitrary: d)
  case (Cons tn ticks)
  obtain tk now where tn: "tn = (tk, now)" by (cases tn)
  then have "cell (rollups (tbl (on_tick r tn d)) (tier_name i)) (h, dir, b) \<in> {cell (rollups (tbl d) (tier_name i)) (h, dir, b), 0}"
    using on_tick_missed [OF Cons.prems(1) assms(2-4), of tk now] Cons.prems(2) by auto
  then show ?case using Cons.IH [OF wf_on_tick [OF Cons.prems(1)], of r tn] Cons.prems(2) by auto
qed simp

text \<open>The five-minute tick that overtakes the last minute's: the traffic of that minute reaches the 1m tier but never the 5m tier.\<close>

theorem missed_window_stays_witness:
  "let d = Run 30 [(Tick5m, 300 * Second)] \<lparr>tbl = demo_tables, db_faults = []\<rparr>;
       d' = Run 30 ([(Tick1m, 120 * Second), (Tick1m, 300 * Second)] @ on_time 1 2 600) d
   in cell (rollups (tbl d') ''rollup_5m'') (1, 0, 0) \<in> {cell (rollups (tbl d) ''rollup_5m'') (1, 0, 0), 0}"
proof -
  let ?d = "Run 30 [(Tick5m, 300 * Second)] \<lparr>tbl = demo_tables, db_faults = []\<rparr>"
  have "wf_tables (tbl ?d)" by (rule wf_Run) (simp add: wf_demo_tables)
  moreover have "\<forall>(tk, now) \<in> set ([(Tick1m, 120 * Second), (Tick1m, 300 * Second)] @ on_time 1 2 600). tk = tier_tick 1 \<longrightarrow> 0 + 2 * tier_secs 1 \<le> Unix now"
    by (simp add: numeral_2_eq_2 numeral_eq_Suc Unix_seconds)
  ultimately show ?thesis
    using missed_window_stays [of ?d 1 0 "[(Tick1m, 120 * Second), (Tick1m, 300 * Second)] @ on_time 1 2 600" 30 1 0]
    by (simp add: Let_def)
qed

end
