(* ===== verification/Go_Json.thy ===== *)
theory Go_Json
  imports Go_Fmt
begin

text \<open>
  JSON documents as \<open>encoding/json\<close> writes them, and a reader of such documents, as a client applies it.
  The reader takes back what the writer wrote, whatever bytes the strings hold: an invalid
  UTF-8 sequence is read as U+FFFD, and no string can end early or change the structure around it.
\<close>

section \<open>Strings\<close>

definition hex_digit :: "char \<Rightarrow> nat option" where
  "hex_digit c =
     (let n = of_char c :: nat
      in if 48 \<le> n \<and> n \<le> 57 then Some (n - 48) else if 97 \<le> n \<and> n \<le> 102 then Some (n - 87) else if 65 \<le> n \<and> n \<le> 70 then Some (n - 55) else None)"

definition hex4 :: "char \<Rightarrow> char \<Rightarrow> char \<Rightarrow> char \<Rightarrow> nat option" where
  "hex4 a b c d =
     (case (hex_digit a, hex_digit b, hex_digit c, hex_digit d) of
        (Some w, Some x, Some y, Some z) \<Rightarrow> Some (((w * 16 + x) * 16 + y) * 16 + z)
      | _ \<Rightarrow> None)"

text \<open>UTF-8 of a code below 65536; a surrogate has none.\<close>

definition utf8_bytes :: "nat \<Rightarrow> nat list option" where
  "utf8_bytes n =
     (if n < 128 then Some [n]
      else if n < 2048 then Some [192 + n div 64, 128 + n mod 64]
      else if 55296 \<le> n \<and> n < 57344 then None
      else Some [224 + n div 4096, 128 + n div 64 mod 64, 128 + n mod 64])"

definition escaped :: "char \<Rightarrow> char option" where
  "escaped c =
     (if c \<in> {CHR 0x22, CHR 0x5C, CHR ''/''} then Some c
      else if c = CHR ''b'' then Some (CHR 0x08) else if c = CHR ''f'' then Some (CHR 0x0C) else if c = CHR ''n'' then Some (CHR 0x0A)
      else if c = CHR ''r'' then Some (CHR 0x0D) else if c = CHR ''t'' then Some (CHR 0x09) else None)"

definition prepend :: "string \<Rightarrow> (string \<times> string) option \<Rightarrow> (string \<times> string) option" where
  "prepend p = map_option (apfst (\<lambda>x. p @ x))"

text \<open>The characters of a string after its opening quote, and what follows the closing one.\<close>

fun read_chars :: "string \<Rightarrow> (string \<times> string) option" where
  "read_chars [] = None"
| "read_chars (c # cs) =
     (if c = CHR 0x22 then Some ([], cs)
      else if c = CHR 0x5C then
        (case cs of
           [] \<Rightarrow> None
         | e # r \<Rightarrow>
             if e = CHR ''u'' then
               (case r of
                  w # x # y # z # r' \<Rightarrow>
                    (case Option.bind (hex4 w x y z) utf8_bytes of None \<Rightarrow> None | Some bs \<Rightarrow> prepend (map char_of bs) (read_chars r'))
                | _ \<Rightarrow> None)
             else (case escaped e of None \<Rightarrow> None | Some k \<Rightarrow> prepend [k] (read_chars r)))
      else if of_char c < (32 :: nat) then None
      else prepend [c] (read_chars cs))"

lemma prepend_prepend: "prepend p (prepend q x) = prepend (p @ q) x" "prepend [] x = x"
  by (cases x; simp add: prepend_def apfst_def map_prod_def split_beta)+

text \<open>What a string becomes: each invalid byte is replaced by U+FFFD.\<close>

definition clean_cell :: "nat \<times> nat list \<Rightarrow> string" where
  "clean_cell c = (if fst c = 65533 \<and> length (snd c) = 1 then [CHR 0xEF, CHR 0xBF, CHR 0xBD] else map char_of (snd c))"

definition clean :: "string \<Rightarrow> string" where
  "clean s = concat (map clean_cell (rune_cells (bytes_of s)))"

text \<open>The three kinds of cells of a string.\<close>

inductive cell_ok :: "nat \<times> nat list \<Rightarrow> bool" where
  ascii: "r < 128 \<Longrightarrow> cell_ok (r, [r])"
| invalid: "cell_ok (65533, [b])"
| multi: "length bs \<noteq> 1 \<Longrightarrow> \<forall>b \<in> set bs. 128 \<le> b \<and> b < 256 \<Longrightarrow> 128 \<le> r \<Longrightarrow> (r = 8232 \<Longrightarrow> bs = [226, 128, 168]) \<Longrightarrow> (r = 8233 \<Longrightarrow> bs = [226, 128, 169])
    \<Longrightarrow> cell_ok (r, bs)"

lemma three_bytes:
  fixes a b c k :: nat
  assumes "a * 4096 + b * 64 + c = 8192 + k" and "b < 64" and "c < 64" and "k < 64"
  shows "a = 2 \<and> b = 0 \<and> c = k"
proof -
  have "a < 3" "1 < a" using assms by linarith+
  then have a: "a = 2" by simp
  then have "b < 1" using assms by linarith
  then show ?thesis using a assms(1) by simp
qed

lemma DecodeRune_cell:
  assumes "bs \<noteq> []" and "\<forall>b \<in> set bs. b < 256" and "DecodeRune bs = (r, w)"
  shows "cell_ok (r, take w bs)"
proof -
  obtain b0 cs where bs: "bs = b0 # cs" using assms(1) by (cases bs) auto
  consider "b0 < 128" | "(r, w) = (65533, 1)"
    | b1 ds where "cs = b1 # ds" "194 \<le> b0" "b0 \<le> 223" "128 \<le> b1" "b1 \<le> 191" "(r, w) = ((b0 - 192) * 64 + (b1 - 128), 2)"
    | b1 b2 ds where "cs = b1 # b2 # ds" "224 \<le> b0" "b0 \<le> 239" "128 \<le> b1" "b0 = 224 \<longrightarrow> 160 \<le> b1" "b1 \<le> 191" "128 \<le> b2" "b2 \<le> 191"
        "(r, w) = ((b0 - 224) * 4096 + (b1 - 128) * 64 + (b2 - 128), 3)"
    | b1 b2 b3 ds where "cs = b1 # b2 # b3 # ds" "240 \<le> b0" "b0 \<le> 244" "128 \<le> b1" "b0 = 240 \<longrightarrow> 144 \<le> b1" "b1 \<le> 191" "128 \<le> b2" "b2 \<le> 191"
        "128 \<le> b3" "b3 \<le> 191" "(r, w) = ((b0 - 240) * 262144 + (b1 - 128) * 4096 + (b2 - 128) * 64 + (b3 - 128), 4)"
    using assms(3) unfolding bs by (auto simp: is_cont_def split: if_splits list.splits)
  then show ?thesis
  proof cases
    case 1
    then have "r = b0" "w = 1" using assms(3) bs by simp_all
    then show ?thesis using 1 bs ascii [of b0] by simp
  next
    case 2
    then show ?thesis using bs invalid by simp
  next
    case 3
    then show ?thesis using bs by (auto intro!: multi)
  next
    case 4
    then have "r = 8232 \<Longrightarrow> b0 - 224 = 2 \<and> b1 - 128 = 0 \<and> b2 - 128 = 40" "r = 8233 \<Longrightarrow> b0 - 224 = 2 \<and> b1 - 128 = 0 \<and> b2 - 128 = 41"
      using three_bytes [of "b0 - 224" "b1 - 128" "b2 - 128" 40] three_bytes [of "b0 - 224" "b1 - 128" "b2 - 128" 41] by simp_all
    then have "r = 8232 \<Longrightarrow> [b0, b1, b2] = [226, 128, 168]" "r = 8233 \<Longrightarrow> [b0, b1, b2] = [226, 128, 169]" using 4 by (simp_all, linarith+)
    moreover have "128 \<le> r" using 4 by (cases "b0 = 224") simp_all
    moreover have "take w bs = [b0, b1, b2]" "\<forall>b \<in> set [b0, b1, b2]. 128 \<le> b \<and> b < 256" using 4 bs by simp_all
    ultimately show ?thesis using multi [of "[b0, b1, b2]" r] by (simp del: list.inject)
  next
    case 5
    then have "65536 \<le> r" by (cases "b0 = 240") simp_all
    moreover have "take w bs = [b0, b1, b2, b3]" "\<forall>b \<in> set [b0, b1, b2, b3]. 128 \<le> b \<and> b < 256" using 5 bs by simp_all
    ultimately show ?thesis using multi [of "[b0, b1, b2, b3]" r] by simp
  qed
qed

lemma rune_cells_ok: "\<forall>b \<in> set bs. b < 256 \<Longrightarrow> c \<in> set (rune_cells bs) \<Longrightarrow> cell_ok c"
proof (induction bs rule: rune_cells.induct)
  case (1 bs)
  show ?case
  proof (cases "bs = []")
    case True
    then show ?thesis using "1.prems"(2) by (simp add: rune_cells.simps)
  next
    case False
    obtain r w where rw: "DecodeRune bs = (r, w)" by (cases "DecodeRune bs")
    then have "c = (r, take w bs) \<or> c \<in> set (rune_cells (drop w bs))" using "1.prems"(2) False by (simp add: rune_cells.simps [of bs])
    then show ?thesis
      using "1.IH" [OF False refl rw [symmetric]] "1.prems"(1) DecodeRune_cell [OF False _ rw] by (auto dest: in_set_dropD)
  qed
qed

lemma hex_of: "n < 16 \<Longrightarrow> hex_digit (json_hex n) = Some n"
  by (simp add: hex_digit_def json_hex_def)

lemma hex_literals: "hex_digit (CHR ''0'') = Some 0" "hex_digit (CHR ''2'') = Some 2" "hex_digit (CHR ''f'') = Some 15" "hex_digit (CHR ''d'') = Some 13"
  by (simp_all add: hex_digit_def)

lemma read_u:
  "hex4 w x y z = Some n \<Longrightarrow> utf8_bytes n = Some bs \<Longrightarrow>
    read_chars (CHR 0x5C # CHR ''u'' # w # x # y # z # rest) = prepend (map char_of bs) (read_chars rest)"
  by simp

lemma raw_char:
  "32 \<le> (of_char c :: nat) \<Longrightarrow> of_char c \<noteq> (34 :: nat) \<Longrightarrow> of_char c \<noteq> (92 :: nat) \<Longrightarrow> c \<noteq> CHR 0x22 \<and> c \<noteq> CHR 0x5C \<and> \<not> of_char c < (32 :: nat)"
  by auto

lemma read_raw:
  "\<forall>c \<in> set p. c \<noteq> CHR 0x22 \<and> c \<noteq> CHR 0x5C \<and> \<not> of_char c < (32 :: nat) \<Longrightarrow> read_chars (p @ rest) = prepend p (read_chars rest)"
proof (induction p)
  case (Cons c p)
  then show ?case using prepend_prepend(1) [of "[c]" p] by simp
qed (simp add: prepend_prepend)

lemma char_literals:
  "char_of (34 :: nat) = CHR 0x22" "char_of (92 :: nat) = CHR 0x5C" "char_of (8 :: nat) = CHR 0x08" "char_of (12 :: nat) = CHR 0x0C"
  "char_of (10 :: nat) = CHR 0x0A" "char_of (13 :: nat) = CHR 0x0D" "char_of (9 :: nat) = CHR 0x09"
  "char_of (239 :: nat) = CHR 0xEF" "char_of (191 :: nat) = CHR 0xBF" "char_of (189 :: nat) = CHR 0xBD"
  by code_simp+

lemma read_rune: "cell_ok c \<Longrightarrow> read_chars (json_rune c @ rest) = prepend (clean_cell c) (read_chars rest)"
proof (induction rule: cell_ok.induct)
  case (ascii r)
  consider (simple) "r \<in> {34, 92, 8, 12, 10, 13, 9}" | (hex) "r < 32 \<or> r \<in> {60, 62, 38}" "r \<notin> {34, 92, 8, 12, 10, 13, 9}"
    | (raw) "32 \<le> r" "r \<notin> {60, 62, 38, 34, 92}" by force
  then show ?case
  proof cases
    case simple
    then show ?thesis by (auto simp: json_rune_def clean_cell_def escaped_def char_literals)
  next
    case hex
    have u: "hex4 (CHR ''0'') (CHR ''0'') (json_hex (r div 16)) (json_hex (r mod 16)) = Some r"
      using ascii by (simp add: hex4_def hex_literals hex_of)
    have "utf8_bytes r = Some [r]" using ascii by (simp add: utf8_bytes_def)
    from read_u [OF u this, of rest] show ?thesis
      using hex ascii by (auto simp: json_rune_def clean_cell_def simp del: read_chars.simps(2))
  next
    case raw
    have "json_rune (r, [r]) = [char_of r]" using raw ascii by (auto simp: json_rune_def)
    moreover have "of_char (char_of r :: char) = r" using ascii by simp
    then have "\<forall>c \<in> set [char_of r :: char]. c \<noteq> CHR 0x22 \<and> c \<noteq> CHR 0x5C \<and> \<not> of_char c < (32 :: nat)"
      using raw raw_char [of "char_of r"] by simp
    ultimately show ?thesis using read_raw [of "[char_of r]" rest] ascii by (simp add: clean_cell_def)
  qed
next
  case (invalid b)
  have "hex4 (CHR ''f'') (CHR ''f'') (CHR ''f'') (CHR ''d'') = Some 65533" by (simp add: hex4_def hex_literals)
  moreover have "utf8_bytes 65533 = Some [239, 191, 189]" by (simp add: utf8_bytes_def)
  ultimately show ?case using read_u [of _ _ _ _ 65533 _ rest] by (simp add: json_rune_def clean_cell_def char_literals del: read_chars.simps(2))
next
  case (multi bs r)
  show ?case
  proof (cases "r \<in> {8232, 8233}")
    case True
    have u: "hex4 (CHR ''2'') (CHR ''0'') (CHR ''2'') (json_hex (r mod 16)) = Some r"
      using True by (auto simp: hex4_def hex_literals hex_of)
    have b: "utf8_bytes r = Some bs" using True multi(4,5) by (auto simp: utf8_bytes_def)
    from read_u [OF u b, of rest] show ?thesis
      using True multi(1) by (auto simp: json_rune_def clean_cell_def simp del: read_chars.simps(2))
  next
    case False
    have "json_rune (r, bs) = map char_of bs" using False multi(1,3) by (auto simp: json_rune_def)
    moreover have "c \<noteq> CHR 0x22 \<and> c \<noteq> CHR 0x5C \<and> \<not> of_char c < (32 :: nat)" if c: "c \<in> set (map char_of bs)" for c :: char
    proof -
      obtain b where b: "b \<in> set bs" "c = char_of b" using c by auto
      then have "of_char c = b" using multi(2) by simp
      moreover have "128 \<le> b" using b multi(2) by blast
      ultimately show ?thesis using raw_char [of c] by simp
    qed
    ultimately show ?thesis using read_raw [of "map char_of bs" rest] multi(1) by (simp add: clean_cell_def)
  qed
qed

lemma read_json_string: "read_chars (tl (json_string s) @ rest) = Some (clean s, rest)"
proof -
  have "read_chars (concat (map json_rune cs) @ CHR 0x22 # rest) = Some (concat (map clean_cell cs), rest)"
    if "\<forall>c \<in> set cs. cell_ok c" for cs
    using that
  proof (induction cs)
    case (Cons c cs)
    then show ?case using read_rune [of c "concat (map json_rune cs) @ CHR 0x22 # rest"] by (simp add: prepend_def del: read_chars.simps(2))
  qed simp
  moreover have "\<forall>b \<in> set (bytes_of s). b < 256" by (auto simp: bytes_of_def of_char_def)
  ultimately show ?thesis using rune_cells_ok [of "bytes_of s"] by (simp add: json_string_def clean_def del: read_chars.simps(2))
qed

lemma json_string_hd: "json_string s = CHR 0x22 # tl (json_string s)"
  by (simp add: json_string_def)

section \<open>Documents\<close>

datatype jtree = TNull | TBool bool | TInt int | TStr string | TList "jtree list" | TObj "(string \<times> jtree) list"

fun encode :: "jtree \<Rightarrow> string" where
  "encode TNull = ''null''"
| "encode (TBool b) = (if b then ''true'' else ''false'')"
| "encode (TInt n) = Itoa n"
| "encode (TStr s) = json_string s"
| "encode (TList ts) = ''['' @ join_with (CHR '','') (map encode ts) @ '']''"
| "encode (TObj kvs) = ''{'' @ join_with (CHR '','') (map (\<lambda>(k, v). json_string k @ '':'' @ encode v) kvs) @ ''}''"

text \<open>The document as its reader sees it: only the strings differ, where they are not UTF-8.\<close>

fun clean_tree :: "jtree \<Rightarrow> jtree" where
  "clean_tree (TStr s) = TStr (clean s)"
| "clean_tree (TList ts) = TList (map clean_tree ts)"
| "clean_tree (TObj kvs) = TObj (map (\<lambda>(k, v). (clean k, clean_tree v)) kvs)"
| "clean_tree t = t"

definition read_int :: "string \<Rightarrow> (int \<times> string) option" where
  "read_int s =
     (let neg = HasPrefix s ''-''; u = (if neg then tl s else s); ds = takeWhile isDigit u
      in if ds = [] then None
         else map_option (\<lambda>n. (if neg then - int n else int n, dropWhile isDigit u)) (digits_val 0 ds))"

definition expect :: "char \<Rightarrow> string \<Rightarrow> string option" where
  "expect c s = (case s of [] \<Rightarrow> None | x # r \<Rightarrow> if x = c then Some r else None)"

text \<open>The reader, with the depth of its calls bounded by a number.\<close>

fun read_value :: "nat \<Rightarrow> string \<Rightarrow> (jtree \<times> string) option"
  and read_items :: "nat \<Rightarrow> string \<Rightarrow> (jtree list \<times> string) option"
  and read_fields :: "nat \<Rightarrow> string \<Rightarrow> ((string \<times> jtree) list \<times> string) option" where
  "read_value 0 s = None"
| "read_value (Suc n) s =
     (case expect (CHR 0x22) s of
        Some r \<Rightarrow> map_option (apfst TStr) (read_chars r)
      | None \<Rightarrow>
     (case expect (CHR ''['') s of
        Some r \<Rightarrow> (case expect (CHR '']'') r of Some r' \<Rightarrow> Some (TList [], r') | None \<Rightarrow> map_option (apfst TList) (read_items n r))
      | None \<Rightarrow>
     (case expect (CHR ''{'') s of
        Some r \<Rightarrow> (case expect (CHR ''}'') r of Some r' \<Rightarrow> Some (TObj [], r') | None \<Rightarrow> map_option (apfst TObj) (read_fields n r))
      | None \<Rightarrow>
        if HasPrefix s ''null'' then Some (TNull, drop 4 s)
        else if HasPrefix s ''true'' then Some (TBool True, drop 4 s)
        else if HasPrefix s ''false'' then Some (TBool False, drop 5 s)
        else map_option (apfst TInt) (read_int s))))"
| "read_items 0 s = None"
| "read_items (Suc n) s =
     (case read_value n s of
        None \<Rightarrow> None
      | Some (t, r) \<Rightarrow>
          (case expect (CHR '','') r of
             Some r' \<Rightarrow> map_option (apfst (\<lambda>ts. t # ts)) (read_items n r')
           | None \<Rightarrow> map_option (\<lambda>r'. ([t], r')) (expect (CHR '']'') r)))"
| "read_fields 0 s = None"
| "read_fields (Suc n) s =
     (case Option.bind (expect (CHR 0x22) s) read_chars of
        None \<Rightarrow> None
      | Some (k, r) \<Rightarrow>
          (case Option.bind (expect (CHR '':'') r) (read_value n) of
             None \<Rightarrow> None
           | Some (t, r1) \<Rightarrow>
               (case expect (CHR '','') r1 of
                  Some r2 \<Rightarrow> map_option (apfst (\<lambda>kvs. (k, t) # kvs)) (read_fields n r2)
                | None \<Rightarrow> map_option (\<lambda>r2. ([(k, t)], r2)) (expect (CHR ''}'') r1))))"

definition read_json :: "string \<Rightarrow> jtree option" where
  "read_json s = (case read_value (2 * length s + 1) s of Some (t, r) \<Rightarrow> if list_all isSpace r then Some t else None | None \<Rightarrow> None)"

fun need :: "jtree \<Rightarrow> nat" where
  "need (TList ts) = 1 + sum_list (map (\<lambda>t. 1 + need t) ts)"
| "need (TObj kvs) = 1 + sum_list (map (\<lambda>(k, t). 1 + need t) kvs)"
| "need _ = 1"

lemma need_pos: "0 < need t"
  by (cases t rule: need.cases) auto

lemma expect_simps [simp]: "expect c [] = None" "expect c (x # s) = (if x = c then Some s else None)"
  by (simp_all add: expect_def)

text \<open>The first character tells the kind of a value.\<close>

lemma Itoa_read:
  assumes "rest = [] \<or> \<not> isDigit (hd rest)"
  shows "read_int (Itoa n @ rest) = Some (n, rest)"
proof -
  have d: "takeWhile isDigit (nat_str k @ rest) = nat_str k" "dropWhile isDigit (nat_str k @ rest) = rest" for k
    using assms nat_str_digits [of k] by (cases rest; auto simp: list_all_iff takeWhile_append dropWhile_append)+
  have p: "HasPrefix (nat_str k @ rest) ''-'' = False" for k
    using nat_str_hd [of k] nat_str_nonempty [of k] by (cases "nat_str k") (auto simp: HasPrefix_def isDigit_def)
  show ?thesis
  proof (cases "n < 0")
    case True
    have "HasPrefix (CHR ''-'' # x) ''-''" for x by (simp add: HasPrefix_def)
    then show ?thesis using True by (simp add: read_int_def Itoa_def d)
  qed (simp add: read_int_def Itoa_def d p)
qed

lemma Itoa_hd: "\<exists>c cs. Itoa n = c # cs \<and> (isDigit c \<or> c = CHR ''-'')"
proof (cases "n < 0")
  case True
  then show ?thesis by (simp add: Itoa_def)
next
  case False
  then show ?thesis using nat_str_hd [of "nat n"] nat_str_nonempty [of "nat n"] by (cases "nat_str (nat n)") (auto simp: Itoa_def)
qed

lemma read_number:
  assumes "rest = [] \<or> \<not> isDigit (hd rest)"
  shows "read_value (Suc n) (Itoa m @ rest) = Some (TInt m, rest)"
proof -
  obtain c cs where c: "Itoa m = c # cs" "isDigit c \<or> c = CHR ''-''" using Itoa_hd [of m] by blast
  then have "c \<notin> {CHR 0x22, CHR ''['', CHR ''{'', CHR ''n'', CHR ''t'', CHR ''f''}" by (auto simp: isDigit_def)
  then show ?thesis using Itoa_read [OF assms, of m] c(1) by (auto simp: HasPrefix_def)
qed

lemma read_text: "read_value (Suc n) (json_string s @ rest) = Some (TStr (clean s), rest)"
proof -
  obtain q where q: "json_string s = CHR 0x22 # q" using json_string_hd [of s] by blast
  then show ?thesis using read_json_string [of s rest] by (simp del: read_chars.simps)
qed

lemma read_words:
  "read_value (Suc n) (''null'' @ rest) = Some (TNull, rest)" "read_value (Suc n) ((if b then ''true'' else ''false'') @ rest) = Some (TBool b, rest)"
  by (simp_all add: HasPrefix_def)

text \<open>No value starts with a closing bracket or brace.\<close>

lemma encode_start: "\<exists>c cs. encode t = c # cs \<and> c \<noteq> CHR '']'' \<and> c \<noteq> CHR ''}''"
proof (cases t)
  case (TInt n)
  then show ?thesis using Itoa_hd [of n] by (auto simp: isDigit_def)
next
  case (TStr s)
  then show ?thesis using json_string_hd [of s] by auto
qed auto

definition ends_number :: "string \<Rightarrow> bool" where
  "ends_number rest \<longleftrightarrow> rest = [] \<or> \<not> isDigit (hd rest)"

lemma ends_number_simps [simp]: "ends_number (CHR '','' # r)" "ends_number (CHR '']'' # r)" "ends_number (CHR ''}'' # r)" "ends_number [CHR 0x0A]"
  by (simp_all add: ends_number_def isDigit_def)

definition reads_back :: "jtree \<Rightarrow> bool" where
  "reads_back t \<longleftrightarrow> (\<forall>n rest. need t \<le> n \<longrightarrow> ends_number rest \<longrightarrow> read_value n (encode t @ rest) = Some (clean_tree t, rest))"

lemma read_list:
  assumes "\<forall>t \<in> set ts. reads_back t" and "ts \<noteq> []" and "sum_list (map (\<lambda>t. 1 + need t) ts) \<le> n"
  shows "read_items n (join_with (CHR '','') (map encode ts) @ CHR '']'' # rest) = Some (map clean_tree ts, rest)"
  using assms
proof (induction ts arbitrary: n)
  case (Cons t ts)
  obtain m where m: "n = Suc m" "need t \<le> m" "sum_list (map (\<lambda>t. 1 + need t) ts) \<le> m" using Cons.prems(3) by (cases n) auto
  have t: "ends_number r \<Longrightarrow> read_value m (encode t @ r) = Some (clean_tree t, r)" for r
    using Cons.prems(1) m(2) by (simp add: reads_back_def)
  show ?case
  proof (cases ts)
    case Nil
    then show ?thesis using m(1) t by simp
  next
    case (Cons u us)
    then show ?thesis using m(1) t Cons.IH [OF _ _ m(3)] Cons.prems(1) by simp
  qed
qed simp

lemma read_object:
  assumes "\<forall>(k, t) \<in> set kvs. reads_back t" and "kvs \<noteq> []" and "sum_list (map (\<lambda>(k, t). 1 + need t) kvs) \<le> n"
  shows "read_fields n (join_with (CHR '','') (map (\<lambda>(k, v). json_string k @ '':'' @ encode v) kvs) @ CHR ''}'' # rest)
    = Some (map (\<lambda>(k, v). (clean k, clean_tree v)) kvs, rest)"
  using assms
proof (induction kvs arbitrary: n)
  case (Cons kt kvs)
  obtain k t where kt: "kt = (k, t)" by (cases kt)
  obtain m where m: "n = Suc m" "need t \<le> m" "sum_list (map (\<lambda>(k, t). 1 + need t) kvs) \<le> m" using Cons.prems(3) kt by (cases n) auto
  have t: "ends_number r \<Longrightarrow> read_value m (encode t @ r) = Some (clean_tree t, r)" for r
    using Cons.prems(1) m(2) kt by (simp add: reads_back_def)
  obtain q where q: "json_string k = CHR 0x22 # q" using json_string_hd [of k] by blast
  then have k: "read_chars (q @ r) = Some (clean k, r)" for r using read_json_string [of k r] by simp
  show ?case
  proof (cases kvs)
    case Nil
    then show ?thesis using m(1) t kt q k by simp
  next
    case (Cons u us)
    then show ?thesis using m(1) t kt q k Cons.IH [OF _ _ m(3)] Cons.prems(1) by (simp del: read_chars.simps)
  qed
qed simp

lemma reads_backI: "(\<And>n rest. ends_number rest \<Longrightarrow> read_value (Suc n) (encode t @ rest) = Some (clean_tree t, rest)) \<Longrightarrow> reads_back t"
  using need_pos [of t] unfolding reads_back_def by (metis Suc_le_D Suc_leI le_trans)

lemma reads_back: "reads_back t"
proof (induction t)
  case TNull
  show ?case by (rule reads_backI, unfold encode.simps clean_tree.simps) (rule read_words)
next
  case (TBool b)
  show ?case by (rule reads_backI, unfold encode.simps clean_tree.simps) (rule read_words)
next
  case (TInt n)
  show ?case by (rule reads_backI, unfold encode.simps clean_tree.simps ends_number_def) (rule read_number)
next
  case (TStr s)
  show ?case by (rule reads_backI, unfold encode.simps clean_tree.simps) (rule read_text)
next
  case (TList ts)
  show ?case unfolding reads_back_def
  proof (intro allI impI)
    fix n rest assume n: "need (TList ts) \<le> n"
    then obtain m where m: "n = Suc m" "sum_list (map (\<lambda>t. 1 + need t) ts) \<le> m" by (cases n) auto
    show "read_value n (encode (TList ts) @ rest) = Some (clean_tree (TList ts), rest)"
    proof (cases ts)
      case (Cons u us)
      obtain c cs where "join_with (CHR '','') (map encode ts) = c # cs" "c \<noteq> CHR '']''"
        using encode_start [of u] Cons by (cases us) auto
      then show ?thesis using read_list [of ts m rest] TList Cons m by simp
    qed (simp add: m(1))
  qed
next
  case (TObj kvs)
  show ?case unfolding reads_back_def
  proof (intro allI impI)
    fix n rest assume n: "need (TObj kvs) \<le> n"
    then obtain m where m: "n = Suc m" "sum_list (map (\<lambda>(k, t). 1 + need t) kvs) \<le> m" by (cases n) auto
    show "read_value n (encode (TObj kvs) @ rest) = Some (clean_tree (TObj kvs), rest)"
    proof (cases kvs)
      case (Cons u us)
      obtain q where "json_string (fst u) = CHR 0x22 # q" using json_string_hd [of "fst u"] by blast
      then obtain cs where "join_with (CHR '','') (map (\<lambda>(k, v). json_string k @ '':'' @ encode v) kvs) = CHR 0x22 # cs"
        using Cons by (cases us) (auto simp: split_beta)
      moreover have "\<forall>(k, t) \<in> set kvs. reads_back t" using TObj by auto
      ultimately show ?thesis using read_object [of kvs m rest] Cons m by simp
    qed (simp add: m(1))
  qed
qed

lemma length_join: "length (join_with c ps) = sum_list (map length ps) + (length ps - 1)"
  by (induction c ps rule: join_with.induct) auto

lemma encode_nonempty: "0 < length (encode t)"
  using encode_start [of t] by auto

lemma sum_need: "(\<And>x. x \<in> set xs \<Longrightarrow> f x \<le> 2 * g x) \<Longrightarrow> sum_list (map (\<lambda>x. 1 + f x) xs) \<le> 2 * sum_list (map g xs) + length (xs :: 'a list)"
  for f g :: "'a \<Rightarrow> nat"
  by (induction xs) fastforce+

lemma need_bound: "need t \<le> 2 * length (encode t)"
proof (induction t)
  case (TList ts)
  then show ?case using sum_need [of ts need "\<lambda>t. length (encode t)"] by (simp add: length_join comp_def)
next
  case (TObj kvs)
  have "need (snd kv) \<le> 2 * length (case kv of (k, v) \<Rightarrow> json_string k @ '':'' @ encode v)" if "kv \<in> set kvs" for kv
    using TObj [OF that, of "snd kv"] by (cases kv) auto
  then have "sum_list (map (\<lambda>kv. 1 + need (snd kv)) kvs) \<le> 2 * sum_list (map (\<lambda>kv. length (case kv of (k, v) \<Rightarrow> json_string k @ '':'' @ encode v)) kvs) + length kvs"
    by (rule sum_need)
  then show ?case by (simp add: length_join comp_def case_prod_beta')
next
  case (TInt n)
  then show ?case using encode_nonempty [of "TInt n"] by (cases "Itoa n") simp_all
next
  case (TStr s)
  then show ?case using encode_nonempty [of "TStr s"] by (cases "json_string s") simp_all
qed simp_all

lemma read_json_encode: "read_json (encode t @ [CHR 0x0A]) = Some (clean_tree t)"
proof -
  have "read_value (2 * length (encode t @ [CHR 0x0A]) + 1) (encode t @ [CHR 0x0A]) = Some (clean_tree t, [CHR 0x0A])"
    using reads_back [of t] need_bound [of t] by (simp add: reads_back_def del: read_value.simps)
  then show ?thesis by (simp add: read_json_def isSpace_def)
qed

end
