(* ===== verification/Web_Json.thy ===== *)
theory Web_Json
  imports Web Go_Json "HOL-Library.Char_ord" "HOL-Library.List_Lexorder"
begin

text \<open>
  The bodies of the JSON responses: the document that each handler hands to \<open>writeJSON\<close>, with the field names and the order that
  \<open>encoding/json\<close> gives it (a struct by its fields, a map by its sorted keys, an empty slice that was never
  allocated as \<open>null\<close>, \<open>omitempty\<close>), and the bytes on the wire. Whatever names, DNS labels and alert
  texts the traffic put into the database, a client reads the same document back.
\<close>

section \<open>Documents\<close>

definition point_tree :: "int \<times> int \<times> int \<Rightarrow> jtree" where
  "point_tree p = (case p of (t, sent, recv) \<Rightarrow> TObj [(''t'', TInt t), (''sent'', TInt sent), (''recv'', TInt recv)])"

definition omitempty :: "string \<Rightarrow> string \<Rightarrow> (string \<times> jtree) list" where
  "omitempty k s = (if s = [] then [] else [(k, TStr s)])"

definition host_tree :: "hostSummary \<Rightarrow> jtree" where
  "host_tree h = TObj ([(''id'', TInt (hs_id h)), (''ip'', TStr (hs_ip h))] @ omitempty ''display_name'' (hs_name h)
     @ [(''last_seen'', TInt (hs_last h)), (''sparkline'', TList (map point_tree (hs_spark h)))])"

definition user_tree :: "userJSON \<Rightarrow> jtree" where
  "user_tree u = TObj [(''id'', TInt (uj_id u)), (''username'', TStr (uj_name u)), (''role'', TStr (uj_role u)), (''created_at'', TInt (uj_created u))]"

definition alert_tree :: "alertJSON \<Rightarrow> jtree" where
  "alert_tree a = TObj ([(''id'', TInt (aj_id a)), (''host_id'', TInt (aj_host a)), (''host_ip'', TStr (aj_host_ip a)), (''kind'', TStr (aj_kind a)),
       (''severity'', TStr (aj_severity a)), (''summary'', TStr (aj_summary a))] @ omitempty ''detail'' (aj_detail a)
     @ [(''detected_at'', TInt (aj_detected a)), (''acknowledged'', TBool (aj_ack a))])"

text \<open>\<open>FlowDetail\<close> carries no tags: its keys are the names of its Go fields.\<close>

definition flow_tree :: "FlowDetail \<Rightarrow> jtree" where
  "flow_tree f = TObj [(''RemoteIP'', TStr (fd_rip f)), (''RemotePort'', TInt (fd_rport f)), (''Proto'', TInt (fd_proto f)), (''Direction'', TInt (fd_dir f)),
     (''FirstSeen'', TInt (fd_first f)), (''LastSeen'', TInt (fd_last f)), (''BytesSent'', TInt (fd_sent f)), (''BytesRecv'', TInt (fd_recv f)),
     (''PacketsSent'', TInt (fd_psent f)), (''PacketsRecv'', TInt (fd_precv f))]"

definition columns_tree :: "columns \<Rightarrow> jtree" where
  "columns_tree c = TObj [(''recv'', TList (map TInt (col_recv c))), (''sent'', TList (map TInt (col_sent c))), (''t'', TList (map TInt (col_t c)))]"

text \<open>The map of the settings: its keys in order.\<close>

definition settings_tree :: "(string \<rightharpoonup> string) \<Rightarrow> jtree" where
  "settings_tree m = TObj (map (\<lambda>k. (k, TStr (the (m k)))) (sorted_list_of_set (dom m)))"

fun response_json :: "content \<Rightarrow> jtree option" where
  "response_json (ErrorCode code) = Some (TObj [(''error'', TStr code)])"
| "response_json StatusOK = Some (TObj [(''status'', TStr ''ok'')])"
| "response_json (Hosts hs) = Some (TObj [(''hosts'', TList (map host_tree hs))])"
| "response_json (Series g c) = Some (TObj [(''granularity'', TStr g), (''series'', columns_tree c)])"
| "response_json (Flows fs) = Some (TObj [(''flows'', if fs = [] then TNull else TList (map flow_tree fs))])"
| "response_json (SettingsMap m) = Some (settings_tree m)"
| "response_json (RestartRequired b) = Some (TObj [(''restart_required'', TBool b), (''status'', TStr ''ok'')])"
| "response_json (Users us) = Some (TObj [(''users'', TList (map user_tree us))])"
| "response_json (CreatedUser i) = Some (TObj [(''id'', TInt i), (''status'', TStr ''ok'')])"
| "response_json (Alerts xs) = Some (TObj [(''alerts'', TList (map alert_tree xs))])"
| "response_json (Acknowledged n) = Some (TObj [(''acknowledged'', TInt (int n)), (''status'', TStr ''ok'')])"
| "response_json (Interfaces names) = Some (TObj [(''interfaces'', TList (map TStr names))])"
| "response_json _ = None"

text \<open>\<open>json.NewEncoder(w).Encode(v)\<close>: the document and a line feed.\<close>

definition response_body :: "content \<Rightarrow> string option" where
  "response_body c = map_option (\<lambda>t. encode t @ [CHR 0x0A]) (response_json c)"

section \<open>What a client reads\<close>

lemma body_read: "response_json c = Some t \<Longrightarrow> response_body c = Some body \<Longrightarrow> read_json body = Some (clean_tree t)"
  using read_json_encode [of t] by (auto simp: response_body_def simp del: encode.simps)

text \<open>Text that is valid UTF-8 is read back unchanged; of the rest, plain ASCII is a part that is easy to see.\<close>

lemma clean_ascii: "list_all (\<lambda>c. of_char c < (128 :: nat)) s \<Longrightarrow> clean s = s"
proof (induction s)
  case Nil
  show ?case by (simp add: clean_def bytes_of_def rune_cells.simps)
next
  case (Cons c s)
  then show ?case by (simp add: clean_def bytes_of_def rune_cells.simps [of "of_char c # map of_char s"] clean_cell_def)
qed

definition field_of :: "string \<Rightarrow> jtree \<Rightarrow> jtree option" where
  "field_of k t = (case t of TObj kvs \<Rightarrow> map_of kvs k | _ \<Rightarrow> None)"

fun int_of :: "jtree \<Rightarrow> int option" where
  "int_of (TInt n) = Some n"
| "int_of _ = None"

fun text_of :: "jtree \<Rightarrow> string option" where
  "text_of (TStr s) = Some s"
| "text_of _ = None"

definition list_of :: "(jtree \<Rightarrow> 'a option) \<Rightarrow> jtree \<Rightarrow> 'a list option" where
  "list_of f t = (case t of TList ts \<Rightarrow> those (map f ts) | _ \<Rightarrow> None)"

definition get_int :: "string \<Rightarrow> jtree \<Rightarrow> int option" where
  "get_int k t = Option.bind (field_of k t) int_of"

definition get_text :: "string \<Rightarrow> jtree \<Rightarrow> string option" where
  "get_text k t = Option.bind (field_of k t) text_of"

text \<open>A field that \<open>omitempty\<close> may have left out is read as the empty text.\<close>

definition get_text_or_empty :: "string \<Rightarrow> jtree \<Rightarrow> string" where
  "get_text_or_empty k t = (case get_text k t of None \<Rightarrow> [] | Some s \<Rightarrow> s)"

definition point_of :: "jtree \<Rightarrow> (int \<times> int \<times> int) option" where
  "point_of t = (case (get_int ''t'' t, get_int ''sent'' t, get_int ''recv'' t) of (Some a, Some b, Some c) \<Rightarrow> Some (a, b, c) | _ \<Rightarrow> None)"

definition host_of :: "jtree \<Rightarrow> hostSummary option" where
  "host_of t =
     (case (get_int ''id'' t, get_text ''ip'' t, get_int ''last_seen'' t, Option.bind (field_of ''sparkline'' t) (list_of point_of)) of
        (Some i, Some ip, Some l, Some sp) \<Rightarrow>
          Some \<lparr>hs_id = i, hs_ip = ip, hs_name = get_text_or_empty ''display_name'' t, hs_last = l, hs_spark = sp\<rparr>
      | _ \<Rightarrow> None)"

definition user_of :: "jtree \<Rightarrow> userJSON option" where
  "user_of t =
     (case (get_int ''id'' t, get_text ''username'' t, get_text ''role'' t, get_int ''created_at'' t) of
        (Some i, Some n, Some r, Some c) \<Rightarrow> Some \<lparr>uj_id = i, uj_name = n, uj_role = r, uj_created = c\<rparr>
      | _ \<Rightarrow> None)"

definition alert_of :: "jtree \<Rightarrow> alertJSON option" where
  "alert_of t =
     (case (get_int ''id'' t, get_int ''host_id'' t, get_text ''host_ip'' t, get_text ''kind'' t, get_text ''severity'' t, get_text ''summary'' t,
            get_int ''detected_at'' t, field_of ''acknowledged'' t) of
        (Some i, Some h, Some ip, Some k, Some sv, Some sm, Some dt, Some (TBool ack)) \<Rightarrow>
          Some \<lparr>aj_id = i, aj_host = h, aj_host_ip = ip, aj_kind = k, aj_severity = sv, aj_summary = sm,
            aj_detail = get_text_or_empty ''detail'' t, aj_detected = dt, aj_ack = ack\<rparr>
      | _ \<Rightarrow> None)"

definition columns_of :: "jtree \<Rightarrow> columns option" where
  "columns_of t =
     (case (Option.bind (field_of ''t'' t) (list_of int_of), Option.bind (field_of ''sent'' t) (list_of int_of), Option.bind (field_of ''recv'' t) (list_of int_of)) of
        (Some a, Some b, Some c) \<Rightarrow> Some \<lparr>col_t = a, col_sent = b, col_recv = c\<rparr>
      | _ \<Rightarrow> None)"

text \<open>One field of the parsed body, as the scripts of the pages take it: \<open>data.hosts\<close>, \<open>data.alerts\<close>, \<open>data.users\<close>, \<open>data.series\<close>.\<close>

definition client_reads :: "string \<Rightarrow> (jtree \<Rightarrow> 'a option) \<Rightarrow> content \<Rightarrow> 'a option" where
  "client_reads k f c = Option.bind (Option.bind (Option.bind (response_body c) read_json) (field_of k)) f"

definition clean_host :: "hostSummary \<Rightarrow> hostSummary" where
  "clean_host h = h\<lparr>hs_ip := clean (hs_ip h), hs_name := clean (hs_name h)\<rparr>"

definition clean_user :: "userJSON \<Rightarrow> userJSON" where
  "clean_user u = u\<lparr>uj_name := clean (uj_name u), uj_role := clean (uj_role u)\<rparr>"

definition clean_alert :: "alertJSON \<Rightarrow> alertJSON" where
  "clean_alert a = a\<lparr>aj_host_ip := clean (aj_host_ip a), aj_kind := clean (aj_kind a), aj_severity := clean (aj_severity a),
     aj_summary := clean (aj_summary a), aj_detail := clean (aj_detail a)\<rparr>"

lemma client_reads_body: "response_json c = Some t \<Longrightarrow> client_reads k f c = Option.bind (field_of k (clean_tree t)) f"
  using body_read [of c t] by (auto simp: client_reads_def response_body_def)

lemma those_map: "(\<And>x. x \<in> set xs \<Longrightarrow> f (g x) = Some (h x)) \<Longrightarrow> those (map (\<lambda>x. f (g x)) xs) = Some (map h xs)"
  by (induction xs) simp_all

lemma list_of_map: "(\<And>x. f (clean_tree (g x)) = Some (h x)) \<Longrightarrow> list_of f (clean_tree (TList (map g xs))) = Some (map h xs)"
  using those_map [of xs f "\<lambda>x. clean_tree (g x)" h] by (simp add: list_of_def comp_def)

lemmas client_defs = field_of_def get_int_def get_text_def get_text_or_empty_def omitempty_def clean_ascii

lemma clean_empty: "clean [] = []"
  by (simp add: clean_ascii)

lemma point_read: "point_of (clean_tree (point_tree p)) = Some p"
  by (cases p) (simp add: point_of_def point_tree_def client_defs)

lemma ints_read: "list_of int_of (clean_tree (TList (map TInt ns))) = Some ns"
  using list_of_map [of int_of TInt "\<lambda>n. n" ns] by simp

lemma columns_read: "columns_of (clean_tree (columns_tree c)) = Some c"
  using ints_read by (simp add: columns_of_def columns_tree_def client_defs)

lemma host_read: "host_of (clean_tree (host_tree h)) = Some (clean_host h)"
  using list_of_map [of point_of point_tree "\<lambda>p. p" "hs_spark h"] point_read clean_empty
  by (simp add: host_of_def host_tree_def clean_host_def client_defs)

lemma user_read: "user_of (clean_tree (user_tree u)) = Some (clean_user u)"
  by (simp add: user_of_def user_tree_def clean_user_def client_defs)

lemma alert_read: "alert_of (clean_tree (alert_tree a)) = Some (clean_alert a)"
  using clean_empty by (simp add: alert_of_def alert_tree_def clean_alert_def client_defs)

lemma series_read: "client_reads ''series'' columns_of (Series g c) = Some c"
  using columns_read [of c] by (simp add: client_reads_body client_defs)


end
