(* ===== verification/End_To_End.thy ===== *)
theory End_To_End
  imports System Rollup_Tiers Web_Json
begin

text \<open>
  Properties that cross every layer: from the packets that the decoder reads to the JSON that the web
  interface returns and to the alerts that the detectors raise.
\<close>

section \<open>Sums by key\<close>

lemma sum_by_key:
  fixes u :: "'a \<Rightarrow> int"
  assumes "finite K" and "f ` set xs \<subseteq> K"
  shows "sum_list (map u (filter (\<lambda>x. P (f x)) xs)) = (\<Sum>k \<in> {k \<in> K. P k}. sum_list (map u (filter (\<lambda>x. f x = k) xs)))"
  using assms(2)
proof (induction xs)
  case (Cons x xs)
  have "sum_list (map u (filter (\<lambda>y. f y = k) (x # xs))) = (if f x = k then u x else 0) + sum_list (map u (filter (\<lambda>y. f y = k) xs))" for k
    by simp
  moreover have "(\<Sum>k \<in> {k \<in> K. P k}. if f x = k then u x else 0) = (if P (f x) then u x else 0)"
    using assms(1) Cons.prems by (simp add: sum.delta')
  ultimately show ?case using Cons by (simp add: sum.distrib)
qed simp

lemma sum_same_keys:
  fixes u :: "'a \<Rightarrow> int" and v :: "'b \<Rightarrow> int"
  assumes "\<And>k. sum_list (map u (filter (\<lambda>x. f x = k) xs)) = sum_list (map v (filter (\<lambda>y. g y = k) ys))"
  shows "sum_list (map u (filter (\<lambda>x. P (f x)) xs)) = sum_list (map v (filter (\<lambda>y. P (g y)) ys))"
  using sum_by_key [of "f ` set xs \<union> g ` set ys" f xs u P] sum_by_key [of "f ` set xs \<union> g ` set ys" g ys v P] assms by simp

lemma sum_remdups_key:
  fixes u :: "'a \<Rightarrow> int"
  shows "sum_list (map (\<lambda>b. sum_list (map u (filter (\<lambda>x. f x = b) xs))) (sort (remdups (map f xs)))) = sum_list (map u xs)"
proof -
  have "sum_list (map (\<lambda>b. sum_list (map u (filter (\<lambda>x. f x = b) xs))) (sort (remdups (map f xs))))
      = (\<Sum>b \<in> f ` set xs. sum_list (map u (filter (\<lambda>x. f x = b) xs)))"
    by (subst sum_list_distinct_conv_sum_set) simp_all
  also have "\<dots> = sum_list (map u (filter (\<lambda>x. True) xs))"
    using sum_by_key [of "f ` set xs" f xs u "\<lambda>_. True"] by simp
  finally show ?thesis by simp
qed

lemma counters_sum_list:
  "c_sent (sum_list cs) = sum_list (map c_sent cs)" "c_recv (sum_list cs) = sum_list (map c_recv cs)"
  by (induction cs) simp_all

lemma series_totals:
  "sum_list (map sp_sent (series key v xs)) = sum_list (map (\<lambda>x. c_sent (v x)) xs)"
  "sum_list (map sp_recv (series key v xs)) = sum_list (map (\<lambda>x. c_recv (v x)) xs)"
  using sum_remdups_key [of "\<lambda>x. c_sent (v x)" key xs] sum_remdups_key [of "\<lambda>x. c_recv (v x)" key xs]
  by (simp_all add: series_def Let_def counters_sum_list comp_def)

section \<open>From the wire to the chart\<close>

definition series_request :: "request \<Rightarrow> int \<Rightarrow> int \<Rightarrow> int \<Rightarrow> int \<Rightarrow> bool" where
  "series_request rq h lo hi dir \<longleftrightarrow>
     rq_method rq = ''GET'' \<and> (\<exists>i. i \<noteq> [] \<and> rq_path rq = [''api'', ''hosts'', i, ''series'']) \<and> parseIDParam rq = Some h
     \<and> parseRange rq = Some (lo, hi) \<and> parse_direction rq = Some dir"

lemma find_series: "i \<noteq> [] \<Longrightarrow> find_route ''GET'' [''api'', ''hosts'', i, ''series''] = Some (requireSession True api_hostSeries)"
  by (simp add: find_route_def newRouter_def match_method_def)

lemma serve_series:
  assumes "db_faults d = []" and "session_at rq (tbl d) = Some sess" and "series_request rq h lo hi dir"
    and "pick_granularity lo hi (Unix (rq_clock rq 1)) = ''raw''"
  shows "ServeHTTP env rq d = (writeJSON 200 (Series ''raw'' (toColumnarSeries (flow_series h lo hi dir (tbl d)))), d)"
proof -
  obtain i where i: "i \<noteq> []" and rq: "rq_method rq = ''GET''" "rq_path rq = [''api'', ''hosts'', i, ''series'']" "parseIDParam rq = Some h"
    "parseRange rq = Some (lo, hi)" "parse_direction rq = Some dir" using assms(3) by (auto simp: series_request_def)
  have "ServeHTTP env rq d = api_hostSeries sess env rq d"
    by (simp add: ServeHTTP_def rq(1,2) find_series [OF i] pass_session [OF assms(1,2)])
  then show ?thesis
    using assms(1,4) rq(3-5) by (simp add: api_hostSeries_def fetch_series_def HostSeriesFromFlowsRecent_def)
qed

lemma recent_is_raw:
  assumes "lo < hi" and "hi - lo \<le> 86400" and "- (2 ^ 63) \<le> now - 86400" and "now - 86400 \<le> hi" and "hi < 2 ^ 63"
  shows "pick_granularity lo hi now = ''raw''"
proof -
  have "int64 (hi - lo) = hi - lo" using assms(1,2) by (intro int64_id) simp_all
  moreover have "int64 (now - 86400) = now - 86400" using assms(3-5) by (intro int64_id) simp_all
  ultimately show ?thesis using assms(2,4) by (simp add: pick_granularity_def range_maxima)
qed

lemma host_of_row:
  assumes "wf_tables t" and "h \<in> set (hosts t)" and "\<exists>h' \<in> set (hosts t). h_id h' = f_host r \<and> h_ip h' = f_lip r"
  shows "f_host r = h_id h \<longleftrightarrow> f_lip r = h_ip h"
proof -
  obtain h' where h': "h' \<in> set (hosts t)" "h_id h' = f_host r" "h_ip h' = f_lip r" using assms(3) by blast
  have "inj_on h_id (set (hosts t))" "inj_on h_ip (set (hosts t))"
    using assms(1) by (simp_all add: wf_tables_def wf_hosts_def distinct_map)
  then have "h_id h' = h_id h \<longleftrightarrow> h' = h" "h_ip h' = h_ip h \<longleftrightarrow> h' = h" using h'(1) assms(2) by (simp_all add: inj_on_eq_iff)
  then show ?thesis using h'(2,3) by simp
qed

text \<open>The bytes of a host in a list of flow events, sent by it or received.\<close>

definition host_bytes :: "bool \<Rightarrow> string \<Rightarrow> int \<Rightarrow> FlowEvent list \<Rightarrow> int" where
  "host_bytes sent ip dir es =
     sum_list (map e_bytes (filter (\<lambda>e. e_local_src e = sent \<and> k_lip (e_key e) = ip \<and> directionClause dir (k_dir (e_key e))) es))"

lemma captures_run: "captures (tbl (snd s)) (tbl (snd (fold pipe_step ops s)))"
proof (induction ops arbitrary: s)
  case (Cons op ops)
  show ?case using captures_trans [OF captures_pipe_step Cons] by simp
qed simp

lemma session_at_cong: "users t' = users t \<Longrightarrow> sessions t' = sessions t \<Longrightarrow> session_at rq t' = session_at rq t"
proof -
  assume "users t' = users t" "sessions t' = sessions t"
  then have "session_of t' = session_of t" by (intro ext) (simp add: session_of_def cong: option.case_cong)
  then show ?thesis by (simp add: session_at_def cong: option.case_cong)
qed

lemma capture_quiet:
  assumes "wf_tables (tbl d)" and "db_faults d = []" and "pipeline_Run env lan evs rank now (NewPipeline l, d) = (p', d')"
  shows "wf_tables (tbl d') \<and> db_faults d' = [] \<and> session_at rq (tbl d') = session_at rq (tbl d) \<and> alerts (tbl d') = alerts (tbl d)
    \<and> rollups (tbl d') = rollups (tbl d)"
proof -
  let ?ops = "event_ops env lan evs l @ flush_ops rank (Unix now)"
  have q: "quiet (NewPipeline l, d)" using assms(1,2) by (simp add: quiet_def pipe_inv_def cache_inv_def bump_inv_def NewPipeline_def)
  have "p_layers (NewPipeline l) = l" by (simp add: NewPipeline_def)
  then have run: "fold pipe_step ?ops (NewPipeline l, d) = (p', d')"
    using assms(3) q by (simp add: pipeline_Run_def flush_def on_events_ops quiet_def)
  have "quiet (fold pipe_step ?ops (NewPipeline l, d))"
    using quiet_step q by (rule fold_inv [where J = quiet])
  moreover have "captures (tbl d) (tbl d')"
    using captures_run [of "(NewPipeline l, d)" ?ops] unfolding run by simp
  ultimately show ?thesis
    unfolding run using session_at_cong [of "tbl d'" "tbl d" rq] by (simp add: quiet_def pipe_inv_def captures_def)
qed

lemma rows_to_events:
  assumes "\<forall>sent k. row_bytes sent k rows = event_bytes sent k es"
  shows "sum_list (map (if sent then f_sent else f_recv) (filter (\<lambda>r. f_lip r = ip \<and> directionClause dir (f_dir r)) rows)) = host_bytes sent ip dir es"
proof -
  let ?P = "\<lambda>k. k_lip k = ip \<and> directionClause dir (k_dir k)"
  have "sum_list (map (if sent then f_sent else f_recv) (filter (\<lambda>r. ?P (row_key r)) rows))
      = sum_list (map e_bytes (filter (\<lambda>e. ?P (e_key e)) (filter (\<lambda>e. e_local_src e = sent) es)))"
  proof (rule sum_same_keys [where P = ?P and f = row_key and g = e_key])
    fix k
    have "filter (\<lambda>e. e_key e = k) (filter (\<lambda>e. e_local_src e = sent) es) = filter (\<lambda>e. e_local_src e = sent) (of_key k es)"
      by (induction es) (simp_all add: of_key_def)
    then show "sum_list (map (if sent then f_sent else f_recv) (filter (\<lambda>r. row_key r = k) rows))
        = sum_list (map e_bytes (filter (\<lambda>e. e_key e = k) (filter (\<lambda>e. e_local_src e = sent) es)))"
      using assms unfolding row_bytes_def event_bytes_def by metis
  qed
  moreover have "filter (\<lambda>e. ?P (e_key e)) (filter (\<lambda>e. e_local_src e = sent) es)
      = filter (\<lambda>e. e_local_src e = sent \<and> k_lip (e_key e) = ip \<and> directionClause dir (k_dir (e_key e))) es"
    by (simp only: filter_filter)
  ultimately show ?thesis by (simp add: row_key_def host_bytes_def)
qed


text \<open>One user with a session, and the packet of the decoder's example.\<close>

definition chart_db :: db where
  "chart_db = \<lparr>tbl = empty_tables\<lparr>users := [\<lparr>u_id = 1, u_name = ''root'', u_hash = [], u_role = RoleStandard, u_created = 0\<rparr>],
     user_seq := 2, sessions := [demo_row ''k1'' 1]\<rparr>, db_faults = []\<rparr>"

definition chart_demo :: pstate where
  "chart_demo = pipeline_Run Capture_Decode.demo_env demo_lan [Packet demo_packet 0] (\<lambda>_. 0) 60000000000 (NewPipeline demo_layers, chart_db)"

lemma chart_demo_hosts: "map (\<lambda>h. (h_id h, h_ip h)) (hosts (tbl (snd chart_demo))) = [(1, ''10.0.0.5'')]"
  by code_simp


section \<open>From the wire to an alert\<close>

text \<open>C6: from the wire to an exfiltration alert. Capture any packets into empty flow and alert tables with the driver not
  failing and the traffic fitting \<open>int64\<close>, then run the upload-ratio detector within the hour. It alerts on a host
  exactly when the packets that host sent to the Internet carry 20 MiB or more in total. What it downloaded
  meanwhile does not enter: a capture never stores received bytes in outbound rows, and the detector
  reads no others.\<close>

theorem wire_to_exfil_alert:
  assumes "wf_tables (tbl d)" and "db_faults d = []" and "flows_recent (tbl d) = []" and "alerts (tbl d) = []"
    and "sum_list (map e_bytes (decoded_flows env lan evs l)) < 2 ^ 63"
    and "\<forall>e \<in> set (decoded_flows env lan evs l). Unix t - 3600 \<le> Unix (e_ts e) \<and> Unix (e_ts e) \<le> Unix t"
    and "pipeline_Run env lan evs rank now (NewPipeline l, d) = (p', d')" and "h \<in> set (hosts (tbl d'))"
  shows "alerted (tbl (ExfilRatio ff t d')) (h_id h) AlertKindExfilRatio ''outbound_ratio'' (Unix t - 21600)
    \<longleftrightarrow> exfilMinBytesSent \<le> host_bytes True (h_ip h) DirLANToWAN (decoded_flows env lan evs l)"
proof -
  let ?es = "decoded_flows env lan evs l" and ?rows = "flows_recent (tbl d')"
  let ?g = "filter (\<lambda>f. f_host f = h_id h \<and> f_dir f = DirLANToWAN \<and> in_window (Unix t - 3600) (Unix t) f) ?rows"
  let ?b = "\<lparr>bt_host = h_id h, bt_sent = sum_list (map f_sent ?g), bt_recv = sum_list (map f_recv ?g)\<rparr>"
  from capture_conserves [OF assms(1,2,5,7)] assms(3)
  have rows: "\<forall>sent k. row_bytes sent k ?rows = event_bytes sent k ?es"
    "\<forall>r \<in> set ?rows. \<exists>h \<in> set (hosts (tbl d')). h_id h = f_host r \<and> h_ip h = f_lip r" by auto
  note quiet = capture_quiet [OF assms(1,2,7)]
  have wf: "wf_tables (tbl d')" and ok: "db_faults d' = []" and al: "alerts (tbl d') = []" using quiet assms(4) by simp_all
  have win: "\<forall>r \<in> set ?rows. Unix t - 3600 \<le> f_last r \<and> f_last r \<le> Unix t"
    using assms(3) by (intro window.rows_of_run [OF assms(1) _ assms(6,7)]) simp
  have recv: "\<forall>r \<in> set ?rows. f_dir r = DirLANToWAN \<longrightarrow> f_recv r = 0"
    using assms(3) by (intro capture_outbound_rows [OF assms(1) _ assms(7)]) simp
  have "?g = filter (\<lambda>r. f_lip r = h_ip h \<and> directionClause DirLANToWAN (f_dir r)) ?rows"
    using rows(2) win host_of_row [OF wf assms(8)] by (intro filter_cong) (auto simp: in_window_def directionClause_def dir_defs)
  then have sent: "sum_list (map f_sent ?g) = host_bytes True (h_ip h) DirLANToWAN ?es"
    using rows_to_events [OF rows(1), of True] by simp
  have zero: "sum_list (map f_recv ?g) = 0" using recv by (intro sum_list_map_zero) auto
  have susp: "exfil_suspicious ?b \<longleftrightarrow> exfilMinBytesSent \<le> sum_list (map f_sent ?g)" by (simp add: exfil_suspicious_def zero)
  note tot = outbound_totals_iff [of _ "Unix t - 3600" "Unix t" "tbl d'" "h_id h"]
  show ?thesis
  proof
    assume "alerted (tbl (ExfilRatio ff t d')) (h_id h) AlertKindExfilRatio ''outbound_ratio'' (Unix t - 21600)"
    then obtain a where a: "a \<in> set (alerts (tbl (ExfilRatio ff t d')))" "al_host (ar_rec a) = h_id h"
      by (auto simp: alerted_def list_ex_iff)
    then have "exfil_reason t (tbl d') (ar_rec a)" using exfil.run_sound [of a ff t d'] al by simp
    then obtain b where b: "b \<in> set (host_outbound_totals (Unix t - 3600) (Unix t) (tbl d'))" "bt_host b = h_id h" "exfil_suspicious b"
      using a(2) by (auto simp: exfil_reason_def)
    then have "b = ?b" using tot [of b] by blast
    then show "exfilMinBytesSent \<le> host_bytes True (h_ip h) DirLANToWAN ?es" using b(3) susp sent by simp
  next
    assume big: "exfilMinBytesSent \<le> host_bytes True (h_ip h) DirLANToWAN ?es"
    then have "?g \<noteq> []" using sent by (auto simp: exfilMinBytesSent_def)
    then have "?b \<in> set (host_outbound_totals (Unix t - 3600) (Unix t) (tbl d'))" using tot [of ?b] by simp
    from ExfilRatio_complete [OF ok wf this] show "alerted (tbl (ExfilRatio ff t d')) (h_id h) AlertKindExfilRatio ''outbound_ratio'' (Unix t - 21600)"
      using big susp sent by simp
  qed
qed

theorem wire_to_exfil_alert_witness:
  "\<exists>h \<in> set (hosts (tbl (snd chart_demo))). h_ip h = ''10.0.0.5''
     \<and> \<not> alerted (tbl (ExfilRatio (\<lambda>_. []) 60000000000 (snd chart_demo))) (h_id h) AlertKindExfilRatio ''outbound_ratio'' (- 21540)"
proof -
  have dec: "decoded_flows Capture_Decode.demo_env demo_lan [Packet demo_packet 0] demo_layers = [demo_flow_event]" by code_simp
  obtain h where h: "h \<in> set (hosts (tbl (snd chart_demo)))" "h_ip h = ''10.0.0.5''"
    using chart_demo_hosts by auto
  have wf: "wf_tables (tbl chart_db)" "db_faults chart_db = []" "flows_recent (tbl chart_db) = []" "alerts (tbl chart_db) = []"
    by (simp_all add: chart_db_def wf_defs empty_tables_def demo_row_def)
  have "host_bytes True ''10.0.0.5'' DirLANToWAN [demo_flow_event] \<le> 3"
    by (simp add: host_bytes_def demo_flow_event_def)
  then show ?thesis
    using wire_to_exfil_alert [where d = chart_db and env = Capture_Decode.demo_env and lan = demo_lan and evs = "[Packet demo_packet 0]"
        and l = demo_layers and t = 60000000000 and rank = "\<lambda>_. 0" and now = 60000000000 and h = h and ff = "\<lambda>_. []",
        OF wf _ _ prod.collapse [symmetric]] h
    unfolding dec chart_demo_def [symmetric]
    by (auto simp: demo_flow_event_def Unix_def exfilMinBytesSent_def)
qed

section \<open>From the wire through the tiers to the chart\<close>

fun tier_granularity :: "nat \<Rightarrow> string" where
  "tier_granularity 0 = ''1m''"
| "tier_granularity (Suc 0) = ''5m''"
| "tier_granularity (Suc (Suc 0)) = ''1h''"
| "tier_granularity _ = ''1d''"

lemma granularity_table: "rollupTables (tier_granularity i) = Some (tier_name i)" "tier_granularity i \<noteq> ''raw''"
  by (cases i rule: tier_granularity.cases; simp add: rollupTables_def)+

lemma serve_rollup_series:
  assumes "db_faults d = []" and "session_at rq (tbl d) = Some sess" and "series_request rq h lo hi dir"
    and "pick_granularity lo hi (Unix (rq_clock rq 1)) = tier_granularity i"
  shows "ServeHTTP env rq d = (writeJSON 200 (Series (tier_granularity i) (toColumnarSeries (rollup_series (tier_name i) h lo hi dir (tbl d)))), d)"
proof -
  obtain s where s: "s \<noteq> []" and rq: "rq_method rq = ''GET''" "rq_path rq = [''api'', ''hosts'', s, ''series'']" "parseIDParam rq = Some h"
    "parseRange rq = Some (lo, hi)" "parse_direction rq = Some dir" using assms(3) by (auto simp: series_request_def)
  have "ServeHTTP env rq d = api_hostSeries sess env rq d"
    by (simp add: ServeHTTP_def rq(1,2) find_series [OF s] pass_session [OF assms(1,2)])
  then show ?thesis
    using assms(1,4) rq(3-5) granularity_table by (simp add: api_hostSeries_def fetch_series_def HostSeriesFromRollup_def)
qed

lemma rollup_series_totals:
  fixes t h lo hi dir
  defines "P \<equiv> \<lambda>k :: rollup_key. fst k = h \<and> lo \<le> snd (snd k) \<and> snd (snd k) \<le> hi \<and> directionClause dir (fst (snd k))"
  shows "sum_list (map sp_sent (rollup_series g h lo hi dir t)) = c_sent (tier_sum g P t)"
    "sum_list (map sp_recv (rollup_series g h lo hi dir t)) = c_recv (tier_sum g P t)"
proof -
  have "filter (\<lambda>((h', dir', ts), c). h' = h \<and> lo \<le> ts \<and> ts \<le> hi \<and> directionClause dir dir') (rollups t g)
      = filter (\<lambda>x. P (fst x)) (rollups t g)"
    unfolding P_def by (intro filter_cong) auto
  then show "sum_list (map sp_sent (rollup_series g h lo hi dir t)) = c_sent (tier_sum g P t)"
    "sum_list (map sp_recv (rollup_series g h lo hi dir t)) = c_recv (tier_sum g P t)"
    unfolding rollup_series_def series_totals tier_sum_def counters_sum_list by (simp_all add: comp_def)
qed

lemma Run_frame: "rollup_frame (tbl (Run r ticks d)) = rollup_frame (tbl d)"
  unfolding Run_def by (induction ticks arbitrary: d) (use on_tick_frame in auto)

lemma host_flows:
  assumes "wf_tables t" and "h \<in> set (hosts t)"
    and "\<forall>r \<in> set (flows_recent t). \<exists>h \<in> set (hosts t). h_id h = f_host r \<and> h_ip h = f_lip r"
    and "\<forall>sent k. row_bytes sent k (flows_recent t) = event_bytes sent k es"
  shows "c_sent (sum_list (map flow_counters (filter (\<lambda>f. f_host f = h_id h \<and> directionClause dir (f_dir f)) (flows_recent t)))) = host_bytes True (h_ip h) dir es"
    "c_recv (sum_list (map flow_counters (filter (\<lambda>f. f_host f = h_id h \<and> directionClause dir (f_dir f)) (flows_recent t)))) = host_bytes False (h_ip h) dir es"
proof -
  have "filter (\<lambda>f. f_host f = h_id h \<and> directionClause dir (f_dir f)) (flows_recent t)
      = filter (\<lambda>f. f_lip f = h_ip h \<and> directionClause dir (f_dir f)) (flows_recent t)"
  proof (intro filter_cong)
    fix r assume r: "r \<in> set (flows_recent t)"
    then have "f_host r = h_id h \<longleftrightarrow> f_lip r = h_ip h" using host_of_row [OF assms(1,2), of r] assms(3) by blast
    then show "(f_host r = h_id h \<and> directionClause dir (f_dir r)) = (f_lip r = h_ip h \<and> directionClause dir (f_dir r))" by simp
  qed simp
  then show "c_sent (sum_list (map flow_counters (filter (\<lambda>f. f_host f = h_id h \<and> directionClause dir (f_dir f)) (flows_recent t)))) = host_bytes True (h_ip h) dir es"
    "c_recv (sum_list (map flow_counters (filter (\<lambda>f. f_host f = h_id h \<and> directionClause dir (f_dir f)) (flows_recent t)))) = host_bytes False (h_ip h) dir es"
    using rows_to_events [OF assms(4), of True] rows_to_events [OF assms(4), of False]
    by (simp_all add: counters_sum_list comp_def flow_counters_def)
qed


text \<open>The packet of the decoder's example, one 5-minute window of ticks, and a request for eleven days.\<close>

definition tier_demo :: request where
  "tier_demo = (demo_request ''GET'' [''api'', ''hosts'', ''1'', ''series''] ''k1'' [])\<lparr>rq_query := [''from'' \<mapsto> ''0'', ''to'' \<mapsto> ''1000000'']\<rparr>"


end
