(* ===== verification/Service.thy ===== *)
theory Service
  imports Config
begin

text \<open>
  Package \<open>service\<close> and the commands \<open>install-service\<close>, \<open>uninstall-service\<close> and \<open>status\<close>. The state
  is the part of the machine they read and write: the files (in the order in which a directory walk
  visits them) with their contents and owners, the accounts and groups, the processes and the
  environment. \<open>sys_faults\<close> says of each fallible call of the operating system, in turn, whether it
  fails; a call past the end succeeds. External programs are the parameter \<open>ext\<close>: what running a
  command does to the machine and whether it exits with 0; \<open>sys_log\<close> lists the commands run.
\<close>

section \<open>The machine\<close>

record account =
  ac_name :: string
  ac_uid :: string
  ac_gid :: string
  ac_home :: string

record proc =
  pr_name :: string
  pr_comm :: "string option"
  pr_cmdline :: "string option"

record sys =
  sys_euid :: int
  sys_pid :: int
  sys_env :: "string \<Rightarrow> string"
  sys_home :: "string option"
  sys_exe :: "string option"
  sys_procs :: "proc list option"
  sys_accounts :: "string \<rightharpoonup> account"
  sys_groups :: "string \<rightharpoonup> string"
  sys_files :: "(string \<times> string) list"
  sys_owner :: "string \<Rightarrow> int \<times> int"
  sys_faults :: "bool list"
  sys_log :: "string list list"

type_synonym 'a sysm = "sys \<Rightarrow> (go_error + 'a) \<times> sys"
type_synonym commands = "string list \<Rightarrow> sys \<Rightarrow> bool \<times> sys"

definition exists_path :: "sys \<Rightarrow> string \<Rightarrow> bool" where
  "exists_path s p \<longleftrightarrow> p \<in> fst ` set (sys_files s)"

definition contents :: "sys \<Rightarrow> string \<Rightarrow> string option" where
  "contents s p = map_of (sys_files s) p"

definition os_call :: "(sys \<Rightarrow> sys) \<Rightarrow> unit sysm" where
  "os_call f s =
     (case sys_faults s of
        [] \<Rightarrow> (Inr (), f s)
      | b # bs \<Rightarrow> (let s1 = s\<lparr>sys_faults := bs\<rparr> in if b then (Inl ErrIO, s1) else (Inr (), f s1)))"

definition put_file :: "string \<Rightarrow> string \<Rightarrow> sys \<Rightarrow> sys" where
  "put_file p c s = s\<lparr>sys_files := upsert p (\<lambda>_. c) (sys_files s)\<rparr>"

definition drop_file :: "string \<Rightarrow> sys \<Rightarrow> sys" where
  "drop_file p s = s\<lparr>sys_files := filter (\<lambda>f. fst f \<noteq> p) (sys_files s)\<rparr>"

text \<open>Sequencing: \<open>if err != nil { return err }\<close>.\<close>

definition and_then :: "'a sysm \<Rightarrow> ('a \<Rightarrow> 'b sysm) \<Rightarrow> 'b sysm" where
  "and_then m k s = (case m s of (Inl e, s1) \<Rightarrow> (Inl e, s1) | (Inr a, s1) \<Rightarrow> k a s1)"

definition exec_cmd :: "commands \<Rightarrow> string list \<Rightarrow> unit sysm" where
  "exec_cmd ext c s =
     (case ext c (s\<lparr>sys_log := sys_log s @ [c]\<rparr>) of (ok, s1) \<Rightarrow> (if ok then Inr () else Inl ErrIO, s1))"

section \<open>service.go\<close>

definition SystemDataDir :: string where "SystemDataDir = ''/var/lib/shadowstat''"
definition DefaultServiceUser :: string where "DefaultServiceUser = ''shadowstat''"
definition UnitName :: string where "UnitName = ''shadowstat.service''"

datatype InitSystem = InitUnknown | InitSystemd | InitOpenRC

definition DetectInitSystem :: "sys \<Rightarrow> InitSystem" where
  "DetectInitSystem s =
     (if exists_path s ''/run/systemd/system'' then InitSystemd
      else if exists_path s ''/sbin/openrc'' then InitOpenRC
      else InitUnknown)"

definition RequireRoot :: "sys \<Rightarrow> bool" where
  "RequireRoot s \<longleftrightarrow> sys_euid s = 0"

section \<open>systemd.go\<close>

definition systemdUnitPath :: string where "systemdUnitPath = ''/etc/systemd/system/'' @ UnitName"

record UnitParams =
  up_exec :: string
  up_dir :: string
  up_user :: string
  up_group :: string
  up_root :: bool

definition newline :: char where "newline = CHR 0x0A"

definition unlines :: "string list \<Rightarrow> string" where
  "unlines ls = concat (map (\<lambda>l. l @ [newline]) ls)"

definition systemd_lines :: "UnitParams \<Rightarrow> string list" where
  "systemd_lines p =
     [''[Unit]'', ''Description=ShadowStat network monitoring'', ''After=network-online.target'', ''Wants=network-online.target'', [],
      ''[Service]'', ''Type=simple'', ''ExecStart='' @ up_exec p @ '' run --data-dir '' @ up_dir p, ''Restart=on-failure'', ''RestartSec=5'']
     @ (if up_root p then [] else [''User='' @ up_user p, ''Group='' @ up_group p])
     @ [''AmbientCapabilities=CAP_NET_RAW CAP_NET_ADMIN'', ''CapabilityBoundingSet=CAP_NET_RAW CAP_NET_ADMIN'', ''NoNewPrivileges=true'',
        ''ProtectSystem=strict'', ''ProtectHome=true'', ''ReadWritePaths='' @ up_dir p, [], ''[Install]'', ''WantedBy=multi-user.target'']"

definition systemdUnitTemplate :: "UnitParams \<Rightarrow> string" where
  "systemdUnitTemplate p = unlines (systemd_lines p)"

definition runSystemctl :: "commands \<Rightarrow> string list \<Rightarrow> unit sysm" where
  "runSystemctl ext args = exec_cmd ext (''systemctl'' # args)"

text \<open>Opening with \<open>O_TRUNC\<close> leaves an empty file when the write that follows fails.\<close>

definition write_file :: "string \<Rightarrow> string \<Rightarrow> unit sysm" where
  "write_file p c = and_then (os_call (put_file p [])) (\<lambda>_. os_call (put_file p c))"

definition InstallSystemd :: "commands \<Rightarrow> UnitParams \<Rightarrow> unit sysm" where
  "InstallSystemd ext params =
     and_then (write_file systemdUnitPath (systemdUnitTemplate params)) (\<lambda>_.
     and_then (runSystemctl ext [''daemon-reload'']) (\<lambda>_.
     runSystemctl ext [''enable'', ''--now'', UnitName]))"

definition UninstallSystemd :: "commands \<Rightarrow> unit sysm" where
  "UninstallSystemd ext s =
     (if \<not> exists_path s systemdUnitPath then (Inl (ErrSetup ''not installed''), s)
      else and_then (runSystemctl ext [''disable'', ''--now'', UnitName]) (\<lambda>_.
           and_then (os_call (drop_file systemdUnitPath)) (\<lambda>_.
           runSystemctl ext [''daemon-reload''])) s)"

definition StatusSystemd :: "commands \<Rightarrow> unit sysm" where
  "StatusSystemd ext s =
     (if \<not> exists_path s systemdUnitPath then (Inr (), s)
      else (Inr (), snd (exec_cmd ext [''systemctl'', ''status'', UnitName, ''--no-pager''] s)))"

definition IsSystemdInstalled :: "sys \<Rightarrow> bool" where
  "IsSystemdInstalled s \<longleftrightarrow> exists_path s systemdUnitPath"

text \<open>\<open>os.Executable\<close> followed by \<open>filepath.EvalSymlinks\<close>.\<close>

definition ResolveExecutable :: "string sysm" where
  "ResolveExecutable s = (case sys_exe s of None \<Rightarrow> Inl (ErrSetup ''resolve executable path'') | Some p \<Rightarrow> Inr p, s)"

section \<open>openrc.go\<close>

definition openrcScriptPath :: string where "openrcScriptPath = ''/etc/init.d/shadowstat''"

definition openrcScriptTemplate :: "UnitParams \<Rightarrow> string" where
  "openrcScriptTemplate p = unlines
     [''#!/sbin/openrc-run'', ''description=\"ShadowStat network monitoring\"'', [],
      ''command=\"'' @ up_exec p @ ''\"'', ''command_args=\"run --data-dir '' @ up_dir p @ ''\"'', ''command_background=true'',
      ''pidfile=\"/run/shadowstat.pid\"'', [], ''depend() {'', CHR 0x09 # ''need net'', CHR 0x09 # ''after firewall'', ''}'']"

definition InstallOpenRC :: "commands \<Rightarrow> UnitParams \<Rightarrow> unit sysm" where
  "InstallOpenRC ext params =
     and_then (write_file openrcScriptPath (openrcScriptTemplate params)) (\<lambda>_.
     and_then (os_call (\<lambda>s. s)) (\<lambda>_.
     and_then (exec_cmd ext [''rc-update'', ''add'', ''shadowstat'', ''default'']) (\<lambda>_.
     exec_cmd ext [''rc-service'', ''shadowstat'', ''start''])))"

definition UninstallOpenRC :: "commands \<Rightarrow> unit sysm" where
  "UninstallOpenRC ext s =
     (if \<not> exists_path s openrcScriptPath then (Inl (ErrSetup ''not installed''), s)
      else (let s1 = snd (exec_cmd ext [''rc-service'', ''shadowstat'', ''stop''] s)
            in and_then (exec_cmd ext [''rc-update'', ''del'', ''shadowstat'', ''default'']) (\<lambda>_.
               os_call (drop_file openrcScriptPath)) s1))"

definition StatusOpenRC :: "commands \<Rightarrow> unit sysm" where
  "StatusOpenRC ext s =
     (if \<not> exists_path s openrcScriptPath then (Inr (), s)
      else (Inr (), snd (exec_cmd ext [''rc-service'', ''shadowstat'', ''status''] s)))"

definition IsOpenRCInstalled :: "sys \<Rightarrow> bool" where
  "IsOpenRCInstalled s \<longleftrightarrow> exists_path s openrcScriptPath"

section \<open>user.go, migrate.go\<close>

definition EnsureSystemUser :: "commands \<Rightarrow> string \<Rightarrow> account sysm" where
  "EnsureSystemUser ext username s =
     (case sys_accounts s username of
        Some u \<Rightarrow> (Inr u, s)
      | None \<Rightarrow>
          and_then (exec_cmd ext [''useradd'', ''--system'', ''--no-create-home'', ''--shell'', ''/usr/sbin/nologin'',
              ''--comment'', ''ShadowStat network monitoring service'', username])
            (\<lambda>_ s1. (case sys_accounts s1 username of None \<Rightarrow> Inl (ErrSetup ''user still not found'') | Some u \<Rightarrow> Inr u, s1)) s)"

definition dev_candidates :: "sys \<Rightarrow> string list" where
  "dev_candidates s =
     (let sudo = sys_env s ''SUDO_USER''; xdg = sys_env s ''XDG_DATA_HOME''
      in (if sudo = [] then [] else case sys_accounts s sudo of None \<Rightarrow> [] | Some u \<Rightarrow> [path_Join [ac_home u, ''.local'', ''share'', ''shadowstat'']])
         @ (if xdg = [] then [] else [path_Join [xdg, ''shadowstat'']])
         @ (case sys_home s of None \<Rightarrow> [] | Some home \<Rightarrow> [path_Join [home, ''.local'', ''share'', ''shadowstat'']]))"

definition FindDevDataDir :: "sys \<Rightarrow> string option" where
  "FindDevDataDir s = find (\<lambda>dir. exists_path s (path_Join [dir, ''shadowstat.db''])) (dev_candidates s)"

definition under :: "string \<Rightarrow> string \<Rightarrow> bool" where
  "under dir p \<longleftrightarrow> p = dir \<or> HasPrefix p (dir @ ''/'')"

text \<open>\<open>os.Rename\<close> of a directory moves every path below it; it fails when the target is there.\<close>

definition os_rename :: "string \<Rightarrow> string \<Rightarrow> unit sysm" where
  "os_rename src dst s =
     (if exists_path s dst then (Inl ErrIO, s)
      else os_call (\<lambda>s. s\<lparr>sys_files := map (\<lambda>(p, c). (if under src p then dst @ drop (length src) p else p, c)) (sys_files s)\<rparr>) s)"

definition MigrateDataDir :: "commands \<Rightarrow> string \<Rightarrow> string \<Rightarrow> unit sysm" where
  "MigrateDataDir ext sourceDir targetDir s =
     (case os_rename sourceDir targetDir s of
        (Inr _, s1) \<Rightarrow> (Inr (), s1)
      | (Inl _, s1) \<Rightarrow>
          and_then (os_call (\<lambda>s. if exists_path s targetDir then s else put_file targetDir [] s)) (\<lambda>_.
          and_then (exec_cmd ext [''cp'', ''-a'', sourceDir @ ''/.'', targetDir]) (\<lambda>_.
          os_call (\<lambda>s. s\<lparr>sys_files := filter (\<lambda>f. \<not> under sourceDir (fst f)) (sys_files s)\<rparr>))) s1)"

fun chown_all :: "int \<Rightarrow> int \<Rightarrow> string list \<Rightarrow> unit sysm" where
  "chown_all uid gid [] s = (Inr (), s)"
| "chown_all uid gid (p # ps) s =
     and_then (os_call (\<lambda>s. s\<lparr>sys_owner := (sys_owner s)(p := (uid, gid))\<rparr>)) (\<lambda>_. chown_all uid gid ps) s"

definition ChownDataDir :: "string \<Rightarrow> account \<Rightarrow> unit sysm" where
  "ChownDataDir dir u s =
     (case Atoi (ac_uid u) of None \<Rightarrow> (Inl (ErrSetup ''parse uid''), s) | Some uid \<Rightarrow>
      case Atoi (ac_gid u) of None \<Rightarrow> (Inl (ErrSetup ''parse gid''), s) | Some gid \<Rightarrow>
      if \<not> exists_path s dir then (Inl ErrIO, s)
      else chown_all uid gid (filter (under dir) (map fst (sys_files s))) s)"

section \<open>cmd/service.go\<close>

definition TrimRight :: "string \<Rightarrow> char \<Rightarrow> string" where
  "TrimRight s c = rev (dropWhile (\<lambda>x. x = c) (rev s))"

text \<open>Whether the command line of a process, as \<open>/proc\<close> gives it, is that of \<open>shadowstat run\<close>.\<close>

definition runs_capture :: "string \<Rightarrow> bool" where
  "runs_capture cmdline \<longleftrightarrow>
     (let args = split_on (CHR 0x00) (TrimRight cmdline (CHR 0x00))
      in length args \<le> 1 \<or> args ! 1 = ''run'' \<or> HasPrefix (args ! 1) ''-'')"

definition other_instance :: "int \<Rightarrow> proc \<Rightarrow> int option" where
  "other_instance self p =
     (case Atoi (pr_name p) of None \<Rightarrow> None | Some pid \<Rightarrow>
      if pid = self then None
      else case pr_comm p of None \<Rightarrow> None | Some comm \<Rightarrow>
      if TrimSpace comm \<noteq> ''shadowstat'' then None
      else case pr_cmdline p of None \<Rightarrow> None | Some cmdline \<Rightarrow> if runs_capture cmdline then Some pid else None)"

definition findOtherRunningInstance :: "sys \<Rightarrow> int option" where
  "findOtherRunningInstance s =
     (case sys_procs s of
        None \<Rightarrow> None
      | Some ps \<Rightarrow> (case List.map_filter (other_instance (sys_pid s)) ps of [] \<Rightarrow> None | pid # _ \<Rightarrow> Some pid))"

definition resolveServiceDataDir :: "commands \<Rightarrow> string \<Rightarrow> string sysm" where
  "resolveServiceDataDir ext override s =
     (if override \<noteq> [] then (Inr override, s)
      else if exists_path s (DBPath SystemDataDir) then (Inr SystemDataDir, s)
      else case FindDevDataDir s of
             None \<Rightarrow> (Inl (ErrSetup ''no existing ShadowStat database found''), s)
           | Some sourceDir \<Rightarrow> and_then (MigrateDataDir ext sourceDir SystemDataDir) (\<lambda>_ s1. (Inr SystemDataDir, s1)) s)"

text \<open>\<open>open_db\<close> is \<open>store.Open\<close>: it may create the file, and gives the database handle. The
  statements that follow do not touch the files that this model tracks.\<close>

type_synonym opener = "string \<Rightarrow> sys \<Rightarrow> (go_error + db) \<times> sys"

definition verifySetupComplete :: "opener \<Rightarrow> string \<Rightarrow> unit sysm" where
  "verifySetupComplete open_db dataDir s =
     (case open_db (DBPath dataDir) s of
        (Inl e, s1) \<Rightarrow> (Inl e, s1)
      | (Inr d, s1) \<Rightarrow>
          (case fst (IsSetupComplete d) of
             Inl e \<Rightarrow> (Inl e, s1)
           | Inr complete \<Rightarrow> (if complete then Inr () else Inl (ErrSetup ''setup not complete''), s1)))"

text \<open>The ownership step: \<open>root\<close> owns the directory itself, or a service user owns everything in it.\<close>

definition prepare_owner :: "commands \<Rightarrow> string \<Rightarrow> bool \<Rightarrow> UnitParams \<Rightarrow> UnitParams sysm" where
  "prepare_owner ext username asRoot params =
     (if asRoot then
        and_then (\<lambda>s. if exists_path s (up_dir params) then os_call (\<lambda>s. s\<lparr>sys_owner := (sys_owner s)(up_dir params := (0, 0))\<rparr>) s else (Inl ErrIO, s))
          (\<lambda>_ s. (Inr params, s))
      else
        and_then (EnsureSystemUser ext username) (\<lambda>u.
        and_then (\<lambda>s. (case sys_groups s (ac_gid u) of None \<Rightarrow> Inl (ErrSetup ''look up group'') | Some g \<Rightarrow> Inr g, s)) (\<lambda>group.
        and_then (ChownDataDir (up_dir params) u) (\<lambda>_ s.
        (Inr (params\<lparr>up_user := ac_name u, up_group := group\<rparr>), s)))))"

definition install_unit :: "commands \<Rightarrow> InitSystem \<Rightarrow> UnitParams \<Rightarrow> unit sysm" where
  "install_unit ext initSys params =
     (case initSys of InitSystemd \<Rightarrow> InstallSystemd ext params | InitOpenRC \<Rightarrow> InstallOpenRC ext params | InitUnknown \<Rightarrow> (\<lambda>s. (Inr (), s)))"

text \<open>\<open>installServiceCmd\<close> after its flags are parsed; the exit code and the machine afterwards.\<close>

definition installServiceCmd :: "commands \<Rightarrow> opener \<Rightarrow> string \<Rightarrow> bool \<Rightarrow> string \<Rightarrow> sys \<Rightarrow> nat \<times> sys" where
  "installServiceCmd ext open_db username asRoot override s =
     (if \<not> RequireRoot s \<or> DetectInitSystem s = InitUnknown \<or> findOtherRunningInstance s \<noteq> None then (1, s)
      else case and_then (resolveServiceDataDir ext override) (\<lambda>dataDir.
                and_then (verifySetupComplete open_db dataDir) (\<lambda>_.
                and_then ResolveExecutable (\<lambda>exe.
                and_then (prepare_owner ext username asRoot \<lparr>up_exec = exe, up_dir = dataDir, up_user = [], up_group = [], up_root = asRoot\<rparr>) (\<lambda>params.
                install_unit ext (DetectInitSystem s) params)))) s of
             (Inl _, s1) \<Rightarrow> (1, s1)
           | (Inr _, s1) \<Rightarrow> (0, s1))"

definition uninstallServiceCmd :: "commands \<Rightarrow> sys \<Rightarrow> nat \<times> sys" where
  "uninstallServiceCmd ext s =
     (if \<not> RequireRoot s then (1, s)
      else if IsSystemdInstalled s then (case UninstallSystemd ext s of (Inl _, s1) \<Rightarrow> (1, s1) | (Inr _, s1) \<Rightarrow> (0, s1))
      else if IsOpenRCInstalled s then (case UninstallOpenRC ext s of (Inl _, s1) \<Rightarrow> (1, s1) | (Inr _, s1) \<Rightarrow> (0, s1))
      else (1, s))"

definition statusCmd :: "commands \<Rightarrow> sys \<Rightarrow> nat \<times> sys" where
  "statusCmd ext s =
     (if IsSystemdInstalled s then (0, snd (StatusSystemd ext s))
      else if IsOpenRCInstalled s then (0, snd (StatusOpenRC ext s))
      else (0, s))"

section \<open>cmd/root.go\<close>

datatype subcommand = RunSub | VersionSub | InstallSub | UninstallSub | StatusSub | UnknownSub string

definition isFlag :: "string \<Rightarrow> bool" where
  "isFlag s \<longleftrightarrow> 0 < length s \<and> s ! 0 = CHR ''-''"

definition Execute :: "string list \<Rightarrow> subcommand \<times> string list" where
  "Execute args =
     (let (sub, rest) = (case args of a # as \<Rightarrow> if isFlag a then (''run'', args) else (a, as) | [] \<Rightarrow> (''run'', []))
      in (if sub = ''run'' then RunSub else if sub = ''version'' then VersionSub
          else if sub = ''install-service'' then InstallSub else if sub = ''uninstall-service'' then UninstallSub
          else if sub = ''status'' then StatusSub else UnknownSub sub, rest))"

section \<open>Which processes count as running\<close>

definition proc_cmdline :: "string list \<Rightarrow> string" where
  "proc_cmdline argv = concat (map (\<lambda>a. a @ [CHR 0x00]) argv)"

lemma proc_cmdline_join: "argv \<noteq> [] \<Longrightarrow> proc_cmdline argv = join_with (CHR 0x00) argv @ [CHR 0x00]"
  unfolding proc_cmdline_def by (induction argv rule: induct_list012) auto

lemma last_join_with: "ps \<noteq> [] \<Longrightarrow> last ps \<noteq> [] \<Longrightarrow> join_with c ps \<noteq> [] \<and> last (join_with c ps) = last (last ps)"
  by (induction ps rule: induct_list012) auto

lemma TrimRight_snoc: "x \<noteq> [] \<Longrightarrow> last x \<noteq> c \<Longrightarrow> TrimRight (x @ [c]) c = x"
  by (cases x rule: rev_cases) (simp_all add: TrimRight_def)

text \<open>The check for another running instance agrees with the dispatch of the command line. For the
  arguments of a process, as \<open>/proc\<close> lists them (each followed by a NUL, the last not empty),
  \<open>findOtherRunningInstance\<close> counts the process as capturing exactly when \<open>Execute\<close> would have run
  the capture command for these arguments.\<close>

theorem running_check_matches_dispatch:
  assumes "argv \<noteq> []" and "last argv \<noteq> []" and "\<forall>a \<in> set argv. CHR 0x00 \<notin> set a"
  shows "runs_capture (proc_cmdline argv) = (fst (Execute (tl argv)) = RunSub)"
proof -
  have l: "join_with (CHR 0x00) argv \<noteq> []" "last (join_with (CHR 0x00) argv) \<noteq> CHR 0x00"
    using last_join_with [OF assms(1,2)] assms(1,2,3) last_in_set by fastforce+
  have "split_on (CHR 0x00) (TrimRight (proc_cmdline argv) (CHR 0x00)) = argv"
    unfolding proc_cmdline_join [OF assms(1)] TrimRight_snoc [OF l]
    using assms(1,3) by (intro split_on_join) (auto simp: list_all_iff)
  then have r: "runs_capture (proc_cmdline argv) = (length argv \<le> 1 \<or> argv ! 1 = ''run'' \<or> HasPrefix (argv ! 1) ''-'')"
    by (simp add: runs_capture_def)
  show ?thesis
  proof (cases "tl argv")
    case Nil
    then have "length argv \<le> 1" using assms(1) by (cases argv) auto
    then show ?thesis unfolding r using Nil by (simp add: Execute_def)
  next
    case (Cons b as)
    then have n: "argv ! 1 = b" "\<not> length argv \<le> 1" using assms(1) by (cases argv; simp)+
    have "HasPrefix b ''-'' = isFlag b" by (cases b) (auto simp: HasPrefix_def isFlag_def)
    then show ?thesis unfolding r n using Cons n(2) by (auto simp: Execute_def)
  qed
qed

theorem running_check_matches_dispatch_witness:
  "runs_capture (proc_cmdline [''/usr/bin/shadowstat'', ''-promiscuous=false'']) \<and> \<not> runs_capture (proc_cmdline [''shadowstat'', ''status''])"
  using running_check_matches_dispatch [of "[''/usr/bin/shadowstat'', ''-promiscuous=false'']"]
    running_check_matches_dispatch [of "[''shadowstat'', ''status'']"]
  by (simp add: Execute_def isFlag_def)

section \<open>The unit file\<close>

text \<open>The value of a directive: the rest of the first line that starts with its name and an equals sign.\<close>

definition unit_get :: "string \<Rightarrow> string \<Rightarrow> string option" where
  "unit_get key text =
     map_option (drop (length key + 1)) (find (\<lambda>l. HasPrefix l (key @ ''='')) (split_on newline text))"

lemma split_unlines: "\<forall>l \<in> set ls. newline \<notin> set l \<Longrightarrow> split_on newline (unlines ls) = ls @ [[]]"
  unfolding unlines_def by (induction ls) (auto simp: split_on_append_sep)

definition one_line :: "UnitParams \<Rightarrow> bool" where
  "one_line p \<longleftrightarrow> newline \<notin> set (up_exec p) \<and> newline \<notin> set (up_dir p) \<and> newline \<notin> set (up_user p) \<and> newline \<notin> set (up_group p)"

lemma systemd_split: "one_line p \<Longrightarrow> split_on newline (systemdUnitTemplate p) = systemd_lines p @ [[]]"
  unfolding systemdUnitTemplate_def
  by (rule split_unlines) (auto simp: systemd_lines_def one_line_def newline_def)

text \<open>What the unit file tells systemd. For parameters without line breaks the unit starts the given binary
  with the given data directory, may write exactly that directory, is granted the two capture
  capabilities, and names a user and a group exactly when the service is not to run as root.\<close>

theorem unit_file_directives:
  assumes "one_line p"
  shows "unit_get ''ExecStart'' (systemdUnitTemplate p) = Some (up_exec p @ '' run --data-dir '' @ up_dir p)
    \<and> unit_get ''ReadWritePaths'' (systemdUnitTemplate p) = Some (up_dir p)
    \<and> unit_get ''AmbientCapabilities'' (systemdUnitTemplate p) = Some ''CAP_NET_RAW CAP_NET_ADMIN''
    \<and> unit_get ''User'' (systemdUnitTemplate p) = (if up_root p then None else Some (up_user p))
    \<and> unit_get ''Group'' (systemdUnitTemplate p) = (if up_root p then None else Some (up_group p))"
  unfolding unit_get_def systemd_split [OF assms] by (simp add: systemd_lines_def HasPrefix_def)

definition demo_unit :: UnitParams where
  "demo_unit = \<lparr>up_exec = ''/usr/bin/shadowstat'', up_dir = ''/var/lib/shadowstat'', up_user = ''shadowstat'', up_group = ''shadowstat'', up_root = False\<rparr>"

theorem unit_file_directives_witness:
  "unit_get ''ExecStart'' (systemdUnitTemplate demo_unit) = Some ''/usr/bin/shadowstat run --data-dir /var/lib/shadowstat''
    \<and> unit_get ''User'' (systemdUnitTemplate demo_unit) = Some ''shadowstat''"
proof -
  have "one_line demo_unit" by (simp add: one_line_def demo_unit_def newline_def)
  from unit_file_directives [OF this] show ?thesis by (simp add: demo_unit_def)
qed

section \<open>Installing and removing the service\<close>

lemma and_then_InrD: "and_then m k s = (Inr b, s') \<Longrightarrow> \<exists>a s1. m s = (Inr a, s1) \<and> k a s1 = (Inr b, s')"
  by (auto simp: and_then_def split: prod.splits sum.splits)

lemma os_call_InrD: "os_call f s = (Inr u, s') \<Longrightarrow> \<exists>bs. s' = f (s\<lparr>sys_faults := bs\<rparr>)"
proof -
  assume a: "os_call f s = (Inr u, s')"
  show ?thesis
  proof (cases "sys_faults s")
    case Nil
    have e: "s\<lparr>sys_faults := sys_faults s\<rparr> = s" by simp
    have "f s = s'" using a Nil by (simp add: os_call_def)
    then have "s' = f (s\<lparr>sys_faults := sys_faults s\<rparr>)" unfolding e by (rule sym)
    then show ?thesis by (rule exI)
  next
    case (Cons b bs)
    then show ?thesis using a by (auto simp: os_call_def Let_def split: if_splits)
  qed
qed

lemma exec_cmd_InrD: "exec_cmd ext c s = (r, s') \<Longrightarrow> s' = snd (ext c (s\<lparr>sys_log := sys_log s @ [c]\<rparr>))"
  by (auto simp: exec_cmd_def split: prod.splits)

lemma map_of_drop_key: "map_of (filter (\<lambda>f. fst f \<noteq> q) xs) p = (if p = q then None else map_of xs p)"
  by (induction xs) auto

lemma contents_simps [simp]:
  "contents (s\<lparr>sys_faults := bs\<rparr>) p = contents s p" "contents (s\<lparr>sys_log := l\<rparr>) p = contents s p"
  "contents (put_file q c s) p = (if p = q then Some c else contents s p)"
  "contents (drop_file q s) p = (if p = q then None else contents s p)"
  by (auto simp: contents_def put_file_def drop_file_def map_of_upsert map_of_drop_key)

lemma exists_path_contents: "exists_path s p = (contents s p \<noteq> None)"
  by (simp add: exists_path_def contents_def map_of_eq_None_iff)

text \<open>What a directory of the machine keeps when external programs run.\<close>

definition leaves_alone :: "commands \<Rightarrow> string \<Rightarrow> bool" where
  "leaves_alone ext p \<longleftrightarrow> (\<forall>c s. contents (snd (ext c s)) p = contents s p)"

lemma exec_cmd_contents: "leaves_alone ext p \<Longrightarrow> exec_cmd ext c s = (r, s') \<Longrightarrow> contents s' p = contents s p"
  by (drule exec_cmd_InrD) (simp add: leaves_alone_def)

lemma InstallSystemd_contents:
  assumes "InstallSystemd ext params s = (Inr u, s')" and "leaves_alone ext systemdUnitPath"
  shows "contents s' systemdUnitPath = Some (systemdUnitTemplate params)"
proof -
  obtain s1 s2 u1 u2 where w: "write_file systemdUnitPath (systemdUnitTemplate params) s = (Inr u1, s1)"
    and r: "runSystemctl ext [''daemon-reload''] s1 = (Inr u2, s2)"
    and e: "runSystemctl ext [''enable'', ''--now'', UnitName] s2 = (Inr u, s')"
    using assms(1) unfolding InstallSystemd_def by (blast dest!: and_then_InrD)
  have "contents s1 systemdUnitPath = Some (systemdUnitTemplate params)"
    using w unfolding write_file_def by (auto dest!: and_then_InrD os_call_InrD)
  then show ?thesis
    using exec_cmd_contents [OF assms(2) r [unfolded runSystemctl_def]] exec_cmd_contents [OF assms(2) e [unfolded runSystemctl_def]] by simp
qed

lemma prepare_owner_params:
  assumes "prepare_owner ext username asRoot p s = (Inr q, s')"
  shows "up_exec q = up_exec p \<and> up_dir q = up_dir p \<and> up_root q = up_root p
    \<and> (\<not> asRoot \<longrightarrow> (\<exists>u s1. EnsureSystemUser ext username s = (Inr u, s1) \<and> up_user q = ac_name u))"
  using assms unfolding prepare_owner_def by (auto split: if_splits dest!: and_then_InrD)

text \<open>A reported success is one. When \<open>install-service\<close> exits with 0 on a systemd machine (whose own tools
  leave the unit file as it was written), it ran as root, found no other capturing process, opened a
  database whose first-run setup is complete, and the unit file is the template for that database's
  directory and the running binary, with a user exactly when \<open>--root\<close> was not given.\<close>

theorem install_service_sound:
  assumes "installServiceCmd ext open_db username asRoot override s = (0, s')"
    and "DetectInitSystem s = InitSystemd" and "leaves_alone ext systemdUnitPath"
  shows "sys_euid s = 0 \<and> findOtherRunningInstance s = None
    \<and> (\<exists>p d s1 s2. contents s' systemdUnitPath = Some (systemdUnitTemplate p) \<and> up_root p = asRoot
         \<and> (override \<noteq> [] \<longrightarrow> up_dir p = override) \<and> (override = [] \<longrightarrow> up_dir p = SystemDataDir) \<and> sys_exe s2 = Some (up_exec p)
         \<and> resolveServiceDataDir ext override s = (Inr (up_dir p), s1)
         \<and> open_db (DBPath (up_dir p)) s1 = (Inr d, s2) \<and> fst (IsSetupComplete d) = Inr True)"
proof -
  have pre: "RequireRoot s" "findOtherRunningInstance s = None"
    using assms(1) unfolding installServiceCmd_def by (auto split: if_splits)
  let ?p0 = "\<lambda>exe dir. \<lparr>up_exec = exe, up_dir = dir, up_user = [], up_group = [], up_root = asRoot\<rparr>"
  obtain u dir s1 u2 s2 exe s3 p s4 where
      r: "resolveServiceDataDir ext override s = (Inr dir, s1)" and v: "verifySetupComplete open_db dir s1 = (Inr u2, s2)"
    and x: "ResolveExecutable s2 = (Inr exe, s3)" and o: "prepare_owner ext username asRoot (?p0 exe dir) s3 = (Inr p, s4)"
    and i: "install_unit ext InitSystemd p s4 = (Inr (u :: unit), s')"
    using assms(1,2) pre unfolding installServiceCmd_def
    by (auto split: if_splits prod.splits sum.splits dest!: and_then_InrD)
  have "up_dir p = dir" "up_exec p = exe" "up_root p = asRoot" using prepare_owner_params [OF o] by simp_all
  moreover have "contents s' systemdUnitPath = Some (systemdUnitTemplate p)"
    using i assms(3) InstallSystemd_contents unfolding install_unit_def by simp
  moreover have "dir = (if override \<noteq> [] then override else SystemDataDir)"
    using r unfolding resolveServiceDataDir_def by (auto split: if_splits option.splits dest!: and_then_InrD)
  moreover obtain d where "open_db (DBPath dir) s1 = (Inr d, s2)" "fst (IsSetupComplete d) = Inr True"
    using v unfolding verifySetupComplete_def by (auto split: prod.splits sum.splits if_splits)
  moreover have "sys_exe s2 = Some exe" using x by (auto simp: ResolveExecutable_def split: option.splits)
  ultimately show ?thesis
    using pre r by (intro conjI exI [of _ p] exI [of _ d] exI [of _ s1] exI [of _ s2]) (auto simp: RequireRoot_def)
qed

text \<open>A machine for the witness: systemd, a finished setup in the system directory, no faults, and
  programs that succeed and change nothing.\<close>

definition demo_sys :: sys where
  "demo_sys = \<lparr>sys_euid = 0, sys_pid = 42, sys_env = (\<lambda>_. []), sys_home = None, sys_exe = Some ''/usr/bin/shadowstat'', sys_procs = Some [],
     sys_accounts = [''shadowstat'' \<mapsto> \<lparr>ac_name = ''shadowstat'', ac_uid = ''9'', ac_gid = ''9'', ac_home = ''/''\<rparr>], sys_groups = [''9'' \<mapsto> ''shadowstat''],
     sys_files = [(''/run/systemd/system'', []), (''/var/lib/shadowstat'', []), (DBPath SystemDataDir, ''db'')],
     sys_owner = (\<lambda>_. (0, 0)), sys_faults = [], sys_log = []\<rparr>"

definition demo_open :: opener where
  "demo_open p s = (Inr \<lparr>tbl = sql_set_setting (KeySetupComplete, ''1'') empty_tables, db_faults = []\<rparr>, s)"

lemma demo_install: "\<exists>s'. installServiceCmd (\<lambda>_ s. (True, s)) demo_open ''shadowstat'' False [] demo_sys = (0, s')"
proof -
  have n: "Atoi ''9'' = Some 9" by (simp add: ParseInt64_def ParseUint_def isDigit_def digit_val_def)
  have c: "fst (IsSetupComplete \<lparr>tbl = sql_set_setting (KeySetupComplete, ''1'') empty_tables, db_faults = []\<rparr>) = Inr True"
    by (simp add: IsSetupComplete_ok sql_set_setting_def map_of_upsert)
  have u: "under SystemDataDir ''/run/systemd/system'' = False" "under SystemDataDir ''/var/lib/shadowstat'' = True"
    by (simp_all add: under_def SystemDataDir_def HasPrefix_def)
  show ?thesis
    by (simp add: installServiceCmd_def RequireRoot_def DetectInitSystem_def exists_path_def findOtherRunningInstance_def demo_sys_def
        map_filter_simps and_then_def resolveServiceDataDir_def verifySetupComplete_def demo_open_def c ResolveExecutable_def prepare_owner_def
        EnsureSystemUser_def ChownDataDir_def n u install_unit_def InstallSystemd_def write_file_def os_call_def put_file_def runSystemctl_def
        exec_cmd_def SystemDataDir_def)
qed

theorem install_service_sound_witness:
  "\<exists>s' p. installServiceCmd (\<lambda>_ s. (True, s)) demo_open ''shadowstat'' False [] demo_sys = (0, s')
    \<and> contents s' systemdUnitPath = Some (systemdUnitTemplate p) \<and> up_dir p = ''/var/lib/shadowstat''"
proof -
  obtain s' where s': "installServiceCmd (\<lambda>_ s. (True, s)) demo_open ''shadowstat'' False [] demo_sys = (0, s')"
    using demo_install by blast
  have "DetectInitSystem demo_sys = InitSystemd" by (simp add: DetectInitSystem_def exists_path_def demo_sys_def)
  moreover have "leaves_alone (\<lambda>_ s. (True, s)) systemdUnitPath" by (simp add: leaves_alone_def)
  ultimately show ?thesis using install_service_sound [OF s'] s' by (auto simp: SystemDataDir_def)
qed

lemma os_call_drop: "os_call (drop_file q) s = (r, s') \<Longrightarrow> p \<noteq> q \<Longrightarrow> contents s' p = contents s p"
  by (auto simp: os_call_def Let_def split: list.splits if_splits)

lemma UninstallSystemd_contents:
  assumes "UninstallSystemd ext s = (r, s')" and "leaves_alone ext p" and "p \<noteq> systemdUnitPath"
  shows "contents s' p = contents s p"
  using assms(1)
  by (auto simp: UninstallSystemd_def and_then_def runSystemctl_def split: if_splits prod.splits sum.splits
      dest!: exec_cmd_contents [OF assms(2)] os_call_drop [OF _ assms(3)])

lemma UninstallOpenRC_contents:
  assumes "UninstallOpenRC ext s = (r, s')" and "leaves_alone ext p" and "p \<noteq> openrcScriptPath"
  shows "contents s' p = contents s p"
proof -
  let ?s1 = "snd (exec_cmd ext [''rc-service'', ''shadowstat'', ''stop''] s)"
  have "contents ?s1 p = contents s p" by (rule exec_cmd_contents [OF assms(2) prod.collapse [symmetric]])
  then show ?thesis
    using assms(1)
    by (auto simp: UninstallOpenRC_def and_then_def Let_def split: if_splits prod.splits sum.splits
        dest!: exec_cmd_contents [OF assms(2)] os_call_drop [OF _ assms(3)])
qed

lemma UninstallSystemd_removes:
  assumes "UninstallSystemd ext s = (Inr u, s')" and "leaves_alone ext systemdUnitPath"
  shows "\<not> exists_path s' systemdUnitPath"
proof -
  obtain s1 s2 u1 u2 where "runSystemctl ext [''disable'', ''--now'', UnitName] s = (Inr u1, s1)"
    and d: "os_call (drop_file systemdUnitPath) s1 = (Inr u2, s2)" and e: "runSystemctl ext [''daemon-reload''] s2 = (Inr u, s')"
    using assms(1) unfolding UninstallSystemd_def by (auto split: if_splits dest!: and_then_InrD)
  have "contents s2 systemdUnitPath = None" using os_call_InrD [OF d] by auto
  then show ?thesis using exec_cmd_contents [OF assms(2) e [unfolded runSystemctl_def]] by (simp add: exists_path_contents)
qed

text \<open>Uninstalling removes the service and nothing else. A file that external programs leave alone (the
  database, the certificate, the key) is untouched by \<open>uninstall-service\<close>, whether it succeeds or not, unless it is the
  unit file or the init script itself; and when the command exits with 0 on a machine with the systemd
  unit, the unit file is gone.\<close>

theorem uninstall_keeps_data:
  assumes "uninstallServiceCmd ext s = (code, s')" and "leaves_alone ext p" and "leaves_alone ext systemdUnitPath"
  shows "(p \<notin> {systemdUnitPath, openrcScriptPath} \<longrightarrow> contents s' p = contents s p)
    \<and> (code = 0 \<and> IsSystemdInstalled s \<longrightarrow> \<not> exists_path s' systemdUnitPath)"
proof
  show "p \<notin> {systemdUnitPath, openrcScriptPath} \<longrightarrow> contents s' p = contents s p"
    using assms(1) UninstallSystemd_contents [OF _ assms(2)] UninstallOpenRC_contents [OF _ assms(2)]
    unfolding uninstallServiceCmd_def by (auto split: if_splits prod.splits sum.splits)
  show "code = 0 \<and> IsSystemdInstalled s \<longrightarrow> \<not> exists_path s' systemdUnitPath"
    using assms(1) UninstallSystemd_removes [OF _ assms(3)]
    unfolding uninstallServiceCmd_def by (auto split: if_splits prod.splits sum.splits)
qed

theorem uninstall_keeps_data_witness:
  "let s = put_file systemdUnitPath ''unit'' demo_sys; r = uninstallServiceCmd (\<lambda>_ s. (True, s)) s in
   contents (snd r) ''/var/lib/shadowstat'' = Some [] \<and> \<not> exists_path (snd r) systemdUnitPath"
proof -
  let ?s = "put_file systemdUnitPath ''unit'' demo_sys" and ?ext = "\<lambda>_ s :: sys. (True, s)"
  have "contents ?s systemdUnitPath = Some ''unit''" by simp
  then have i: "IsSystemdInstalled ?s" by (simp add: IsSystemdInstalled_def exists_path_contents del: contents_simps)
  have r: "RequireRoot ?s" by (simp add: RequireRoot_def put_file_def demo_sys_def)
  have f: "sys_faults ?s = []" by (simp add: put_file_def demo_sys_def)
  have "fst (uninstallServiceCmd ?ext ?s) = 0"
    using i r f by (simp add: uninstallServiceCmd_def UninstallSystemd_def IsSystemdInstalled_def and_then_def runSystemctl_def exec_cmd_def os_call_def drop_file_def)
  moreover have "contents ?s ''/var/lib/shadowstat'' = Some []"
    by (simp add: systemdUnitPath_def UnitName_def) (simp add: contents_def demo_sys_def)
  moreover have "''/var/lib/shadowstat'' \<notin> {systemdUnitPath, openrcScriptPath}"
    by (simp add: systemdUnitPath_def openrcScriptPath_def UnitName_def)
  ultimately show ?thesis
    using uninstall_keeps_data [of ?ext ?s, OF prod.collapse [symmetric], of "''/var/lib/shadowstat''"] i
    by (simp add: leaves_alone_def Let_def del: contents_simps)
qed

section \<open>Ownership of the data directory\<close>

text \<open>Giving a directory to a user reaches every file below it, and no other.\<close>

lemma chown_all_result:
  assumes "chown_all uid gid ps s = (Inr u, s')"
  shows "sys_files s' = sys_files s \<and> sys_owner s' = (\<lambda>p. if p \<in> set ps then (uid, gid) else sys_owner s p)"
  using assms
proof (induction ps arbitrary: s)
  case (Cons p ps)
  then obtain s1 u1 where o: "os_call (\<lambda>s. s\<lparr>sys_owner := (sys_owner s)(p := (uid, gid))\<rparr>) s = (Inr u1, s1)"
    and c: "chown_all uid gid ps s1 = (Inr u, s')" by (auto dest!: and_then_InrD)
  have s1: "sys_files s1 = sys_files s" "sys_owner s1 = (sys_owner s)(p := (uid, gid))" using os_call_InrD [OF o] by auto
  show ?case using Cons.IH [OF c] s1 by auto
qed simp

lemma ChownDataDir_covers_tree:
  assumes "ChownDataDir dir u s = (Inr x, s')"
  shows "\<exists>uid gid. Atoi (ac_uid u) = Some uid \<and> Atoi (ac_gid u) = Some gid \<and> sys_files s' = sys_files s
    \<and> (\<forall>p. sys_owner s' p = (if exists_path s p \<and> under dir p then (uid, gid) else sys_owner s p))"
proof -
  obtain uid gid where n: "Atoi (ac_uid u) = Some uid" "Atoi (ac_gid u) = Some gid"
    and c: "chown_all uid gid (filter (under dir) (map fst (sys_files s))) s = (Inr x, s')"
    using assms by (auto simp: ChownDataDir_def split: option.splits if_splits)
  show ?thesis using n chown_all_result [OF c] by (simp add: exists_path_def)
qed

end
