(* ===== verification/Command_Line.thy ===== *)
theory Command_Line
  imports Service
begin

text \<open>
  The command line of \<open>shadowstat\<close>: the flags of its subcommands as Go's package \<open>flag\<close> reads them, the start of
  the \<open>run\<close> command up to the point where \<open>Config.runCmd\<close> takes over, and \<open>main\<close> as a whole: the arguments of the process, the
  machine it runs on, and how it ends. The parser is proved equivalent to a grammar of the arguments, and
  the unit file that \<open>install-service\<close> writes is followed through systemd back into this command line.
\<close>

section \<open>Flags\<close>

datatype flag_value = BoolValue bool | StringValue string

datatype flag_error = BadFlagSyntax string | ErrHelp | FlagNotDefined string | InvalidBoolean string string | FlagNeedsArgument string

type_synonym flag_set = "string \<rightharpoonup> flag_value"

text \<open>\<open>strconv.ParseBool\<close>.\<close>

definition ParseBool :: "string \<Rightarrow> bool option" where
  "ParseBool s =
     (if s \<in> {''1'', ''t'', ''T'', ''TRUE'', ''true'', ''True''} then Some True
      else if s \<in> {''0'', ''f'', ''F'', ''FALSE'', ''false'', ''False''} then Some False
      else None)"

text \<open>A name and its value, which follows the first equals sign past the first character.\<close>

definition cut_value :: "string \<Rightarrow> string \<times> string option" where
  "cut_value s =
     (case s of
        [] \<Rightarrow> ([], None)
      | c # cs \<Rightarrow> (c # takeWhile (\<lambda>x. x \<noteq> CHR ''='') cs,
          if CHR ''='' \<in> set cs then Some (tl (dropWhile (\<lambda>x. x \<noteq> CHR ''='') cs)) else None))"

text \<open>\<open>FlagSet.Parse\<close>: the flags with their values so far, and the arguments left. It ends at the first argument
  that is no flag, which stays among the arguments, or after \<open>--\<close>.\<close>

fun parse_flags :: "flag_set \<Rightarrow> string list \<Rightarrow> flag_error + flag_set \<times> string list" where
  "parse_flags fs [] = Inr (fs, [])"
| "parse_flags fs (s # args) =
     (if length s < 2 \<or> hd s \<noteq> CHR ''-'' then Inr (fs, s # args)
      else if s = ''--'' then Inr (fs, args)
      else let name = (if s ! 1 = CHR ''-'' then drop 2 s else drop 1 s)
           in if name = [] \<or> hd name = CHR ''-'' \<or> hd name = CHR ''='' then Inl (BadFlagSyntax s)
              else case cut_value name of (n, v) \<Rightarrow>
                (case fs n of
                   None \<Rightarrow> Inl (if n = ''help'' \<or> n = ''h'' then ErrHelp else FlagNotDefined n)
                 | Some (BoolValue _) \<Rightarrow>
                     (case v of
                        None \<Rightarrow> parse_flags (fs(n \<mapsto> BoolValue True)) args
                      | Some x \<Rightarrow> (case ParseBool x of
                                     None \<Rightarrow> Inl (InvalidBoolean n x)
                                   | Some b \<Rightarrow> parse_flags (fs(n \<mapsto> BoolValue b)) args))
                 | Some (StringValue _) \<Rightarrow>
                     (case v of
                        Some x \<Rightarrow> parse_flags (fs(n \<mapsto> StringValue x)) args
                      | None \<Rightarrow> (case args of
                                   [] \<Rightarrow> Inl (FlagNeedsArgument n)
                                 | x # args' \<Rightarrow> parse_flags (fs(n \<mapsto> StringValue x)) args'))))"

definition string_flag :: "flag_set \<Rightarrow> string \<Rightarrow> string" where
  "string_flag fs n = (case fs n of Some (StringValue v) \<Rightarrow> v | _ \<Rightarrow> [])"

definition bool_flag :: "flag_set \<Rightarrow> string \<Rightarrow> bool" where
  "bool_flag fs n = (case fs n of Some (BoolValue b) \<Rightarrow> b | _ \<Rightarrow> False)"

section \<open>cmd/run.go, cmd/service.go, cmd/version.go: the flags of the subcommands\<close>

definition run_flagset :: flag_set where
  "run_flagset = [''data-dir'' \<mapsto> StringValue [], ''promiscuous'' \<mapsto> BoolValue True]"

definition install_flagset :: flag_set where
  "install_flagset = [''user'' \<mapsto> StringValue DefaultServiceUser, ''root'' \<mapsto> BoolValue False, ''data-dir'' \<mapsto> StringValue []]"

definition run_flags :: "string list \<Rightarrow> flag_error + string \<times> bool" where
  "run_flags args =
     (case parse_flags run_flagset args of
        Inl e \<Rightarrow> Inl e
      | Inr (fs, _) \<Rightarrow> Inr (string_flag fs ''data-dir'', bool_flag fs ''promiscuous''))"

definition install_flags :: "string list \<Rightarrow> flag_error + string \<times> bool \<times> string" where
  "install_flags args =
     (case parse_flags install_flagset args of
        Inl e \<Rightarrow> Inl e
      | Inr (fs, _) \<Rightarrow> Inr (string_flag fs ''user'', bool_flag fs ''root'', string_flag fs ''data-dir''))"

definition Version :: string where "Version = ''dev''"

definition versionCmd :: "string list \<Rightarrow> nat \<times> string" where
  "versionCmd args = (0, ''shadowstat '' @ Version @ [newline])"

section \<open>main\<close>

text \<open>What a process meets: the programs it can run, \<open>store.Open\<close>, the calls of \<open>ResolveDataDir\<close>, whether a
  capture socket opens on an interface (in promiscuous mode or not) and a listener on an address, and
  the inputs of the first-run wizard.\<close>

record surroundings =
  su_ext :: commands
  su_open :: opener
  su_os :: os_env
  su_capture :: "bool \<Rightarrow> string \<Rightarrow> bool"
  su_server :: "string \<Rightarrow> bool"
  su_kdf :: kdf
  su_rand :: "byte list option"
  su_rank :: "string \<Rightarrow> nat"
  su_clock :: gotime
  su_ifaces :: "go_error + iface list"
  su_io :: wizard_io

text \<open>\<open>runCmd\<close> from its arguments: a flag error exits with 2, and the database is that of the resolved directory.\<close>

definition run_main :: "surroundings \<Rightarrow> string list \<Rightarrow> sys \<Rightarrow> start \<times> db option \<times> sys" where
  "run_main w args s =
     (case run_flags args of Inl _ \<Rightarrow> (Exit 2, None, s) | Inr (dir, promiscuous) \<Rightarrow>
      case ResolveDataDir (su_os w) dir of Inl _ \<Rightarrow> (Exit 1, None, s) | Inr dataDir \<Rightarrow>
      (let firstRun = \<not> exists_path s (DBPath dataDir)
       in case su_open w (DBPath dataDir) s of (Inl _, s1) \<Rightarrow> (Exit 1, None, s1) | (Inr d, s1) \<Rightarrow>
          (case runCmd \<lparr>re_datadir = Inr dataDir, re_first = firstRun, re_open = True, re_capture = su_capture w promiscuous, re_server = su_server w\<rparr>
             (su_kdf w) (su_rand w) (su_rank w) (su_clock w) (su_ifaces w) (su_io w) d of (r, d') \<Rightarrow> (r, Some d', s1))))"

definition install_main :: "surroundings \<Rightarrow> string list \<Rightarrow> sys \<Rightarrow> nat \<times> sys" where
  "install_main w args s =
     (case install_flags args of
        Inl _ \<Rightarrow> (2, s)
      | Inr (username, asRoot, override) \<Rightarrow> installServiceCmd (su_ext w) (su_open w) username asRoot override s)"

definition exit_with :: "nat \<times> sys \<Rightarrow> start \<times> db option \<times> sys" where
  "exit_with r = (Exit (fst r), None, snd r)"

text \<open>The process: how it ends, the database it opened, and the machine.\<close>

definition main :: "surroundings \<Rightarrow> string list \<Rightarrow> sys \<Rightarrow> start \<times> db option \<times> sys" where
  "main w argv s =
     (case Execute argv of
        (RunSub, args) \<Rightarrow> run_main w args s
      | (VersionSub, args) \<Rightarrow> exit_with (fst (versionCmd args), s)
      | (InstallSub, args) \<Rightarrow> exit_with (install_main w args s)
      | (UninstallSub, _) \<Rightarrow> exit_with (uninstallServiceCmd (su_ext w) s)
      | (StatusSub, _) \<Rightarrow> exit_with (statusCmd (su_ext w) s)
      | (UnknownSub _, _) \<Rightarrow> exit_with (2, s))"

section \<open>The grammar of the arguments\<close>

definition flag_name :: "string \<Rightarrow> bool" where
  "flag_name n \<longleftrightarrow> n \<noteq> [] \<and> hd n \<noteq> CHR ''-'' \<and> CHR ''='' \<notin> set n"

definition dashes :: "string set" where
  "dashes = {''-'', ''--''}"

inductive accepts :: "flag_set \<Rightarrow> string list \<Rightarrow> flag_set \<Rightarrow> string list \<Rightarrow> bool" where
  acc_end: "accepts fs [] fs []"
| acc_positional: "length s < 2 \<or> hd s \<noteq> CHR ''-'' \<Longrightarrow> accepts fs (s # args) fs (s # args)"
| acc_dashes: "accepts fs (''--'' # args) fs args"
| acc_string: "d \<in> dashes \<Longrightarrow> flag_name n \<Longrightarrow> fs n = Some (StringValue old) \<Longrightarrow> accepts (fs(n \<mapsto> StringValue v)) args fs' rest
    \<Longrightarrow> accepts fs ((d @ n @ CHR ''='' # v) # args) fs' rest"
| acc_string_next: "d \<in> dashes \<Longrightarrow> flag_name n \<Longrightarrow> fs n = Some (StringValue old) \<Longrightarrow> accepts (fs(n \<mapsto> StringValue v)) args fs' rest
    \<Longrightarrow> accepts fs ((d @ n) # v # args) fs' rest"
| acc_bool: "d \<in> dashes \<Longrightarrow> flag_name n \<Longrightarrow> fs n = Some (BoolValue old) \<Longrightarrow> ParseBool v = Some b
    \<Longrightarrow> accepts (fs(n \<mapsto> BoolValue b)) args fs' rest \<Longrightarrow> accepts fs ((d @ n @ CHR ''='' # v) # args) fs' rest"
| acc_bool_set: "d \<in> dashes \<Longrightarrow> flag_name n \<Longrightarrow> fs n = Some (BoolValue old)
    \<Longrightarrow> accepts (fs(n \<mapsto> BoolValue True)) args fs' rest \<Longrightarrow> accepts fs ((d @ n) # args) fs' rest"

lemma takeWhile_no: "c \<notin> set n \<Longrightarrow> takeWhile (\<lambda>x. x \<noteq> c) (n @ c # v) = n" "c \<notin> set n \<Longrightarrow> dropWhile (\<lambda>x. x \<noteq> c) (n @ c # v) = c # v"
  by (induction n) auto

lemma cut_value_spelled:
  assumes "flag_name n"
  shows "cut_value (n @ CHR ''='' # v) = (n, Some v)" "cut_value n = (n, None)"
proof -
  obtain c cs where n: "n = c # cs" using assms by (cases n) (auto simp: flag_name_def)
  then have "CHR ''='' \<notin> set cs" using assms by (simp add: flag_name_def)
  then show "cut_value (n @ CHR ''='' # v) = (n, Some v)" "cut_value n = (n, None)"
    using takeWhile_no [of "CHR ''=''" cs v] takeWhile_eq_all_conv [of "\<lambda>x. x \<noteq> CHR ''=''" cs] by (auto simp: cut_value_def n)
qed

text \<open>An argument that reaches the lookup of its name, taken apart.\<close>

lemma flag_argument:
  assumes "flag_name n" and "d \<in> dashes" and "s = d @ n @ x" and "x = [] \<or> hd x = CHR ''=''"
  shows "\<not> (length s < 2 \<or> hd s \<noteq> CHR ''-'')" "s \<noteq> ''--''"
    "(if s ! 1 = CHR ''-'' then drop 2 s else drop 1 s) = n @ x" "n @ x \<noteq> [] \<and> hd (n @ x) \<noteq> CHR ''-'' \<and> hd (n @ x) \<noteq> CHR ''=''"
proof -
  obtain c cs where n: "n = c # cs" "c \<noteq> CHR ''-''" "c \<noteq> CHR ''=''" using assms(1) by (cases n) (auto simp: flag_name_def)
  show "\<not> (length s < 2 \<or> hd s \<noteq> CHR ''-'')" "s \<noteq> ''--''"
    "(if s ! 1 = CHR ''-'' then drop 2 s else drop 1 s) = n @ x" "n @ x \<noteq> [] \<and> hd (n @ x) \<noteq> CHR ''-'' \<and> hd (n @ x) \<noteq> CHR ''=''"
    using n assms(2) unfolding assms(3) dashes_def by auto
qed

lemma parse_stops: "length s < 2 \<or> hd s \<noteq> CHR ''-'' \<Longrightarrow> parse_flags fs (s # args) = Inr (fs, s # args)" "parse_flags fs (''--'' # args) = Inr (fs, args)"
  by auto

lemma parse_flag:
  assumes "flag_name n" and "d \<in> dashes" and "x = [] \<or> hd x = CHR ''=''" and "cut_value (n @ x) = (n, v)"
  shows "parse_flags fs ((d @ n @ x) # args) =
    (case fs n of
       None \<Rightarrow> Inl (if n = ''help'' \<or> n = ''h'' then ErrHelp else FlagNotDefined n)
     | Some (BoolValue _) \<Rightarrow>
         (case v of None \<Rightarrow> parse_flags (fs(n \<mapsto> BoolValue True)) args
          | Some y \<Rightarrow> (case ParseBool y of None \<Rightarrow> Inl (InvalidBoolean n y) | Some b \<Rightarrow> parse_flags (fs(n \<mapsto> BoolValue b)) args))
     | Some (StringValue _) \<Rightarrow>
         (case v of Some y \<Rightarrow> parse_flags (fs(n \<mapsto> StringValue y)) args
          | None \<Rightarrow> (case args of [] \<Rightarrow> Inl (FlagNeedsArgument n) | y # args' \<Rightarrow> parse_flags (fs(n \<mapsto> StringValue y)) args')))"
proof -
  note f = flag_argument [OF assms(1,2) refl assms(3)]
  have g: "\<not> (n @ x = [] \<or> hd (n @ x) = CHR ''-'' \<or> hd (n @ x) = CHR ''='')" using f(4) by blast
  show ?thesis
    unfolding parse_flags.simps(2) Let_def if_not_P [OF f(1)] if_not_P [OF f(2)] f(3) if_not_P [OF g] assms(4) prod.case ..
qed

lemma parse_flag_alone:
  "flag_name n \<Longrightarrow> d \<in> dashes \<Longrightarrow> parse_flags fs ((d @ n) # args) =
    (case fs n of
       None \<Rightarrow> Inl (if n = ''help'' \<or> n = ''h'' then ErrHelp else FlagNotDefined n)
     | Some (BoolValue _) \<Rightarrow> parse_flags (fs(n \<mapsto> BoolValue True)) args
     | Some (StringValue _) \<Rightarrow> (case args of [] \<Rightarrow> Inl (FlagNeedsArgument n) | y # args' \<Rightarrow> parse_flags (fs(n \<mapsto> StringValue y)) args'))"
  using parse_flag [of n d "[]" None fs args] cut_value_spelled(2) [of n] by (simp only: append_Nil2 option.case simp_thms)

lemma parse_flag_value:
  "flag_name n \<Longrightarrow> d \<in> dashes \<Longrightarrow> parse_flags fs ((d @ n @ CHR ''='' # y) # args) =
    (case fs n of
       None \<Rightarrow> Inl (if n = ''help'' \<or> n = ''h'' then ErrHelp else FlagNotDefined n)
     | Some (BoolValue _) \<Rightarrow> (case ParseBool y of None \<Rightarrow> Inl (InvalidBoolean n y) | Some b \<Rightarrow> parse_flags (fs(n \<mapsto> BoolValue b)) args)
     | Some (StringValue _) \<Rightarrow> parse_flags (fs(n \<mapsto> StringValue y)) args)"
  using parse_flag [of n d "CHR ''='' # y" "Some y" fs args] cut_value_spelled(1) [of n y] by (simp only: option.case list.sel simp_thms)

text \<open>Every argument is positional, the separator, malformed, or a flag with or without a value.\<close>

lemma argument_cases:
  obtains (positional) "length s < 2 \<or> hd s \<noteq> CHR ''-''" | (dashes) "s = ''--''"
  | (malformed) "\<And>fs args. parse_flags fs (s # args) = Inl (BadFlagSyntax s)"
  | (alone) d n where "d \<in> dashes" "flag_name n" "s = d @ n"
  | (valued) d n y where "d \<in> dashes" "flag_name n" "s = d @ n @ CHR ''='' # y"
proof (cases "length s < 2 \<or> hd s \<noteq> CHR ''-'' \<or> s = ''--''")
  case True
  then show ?thesis using positional dashes by blast
next
  case False
  define name where "name = (if s ! 1 = CHR ''-'' then drop 2 s else drop 1 s)"
  define d where "d = (if s ! 1 = CHR ''-'' then ''--'' else ''-'')"
  obtain c e cs where s: "s = c # e # cs" "c = CHR ''-''" using False by (cases s; cases "tl s") auto
  have d: "d \<in> dashes" "s = d @ name" by (simp_all add: d_def name_def dashes_def s)
  show ?thesis
  proof (cases "name = [] \<or> hd name = CHR ''-'' \<or> hd name = CHR ''=''")
    case True
    then show ?thesis using malformed False by (simp add: name_def)
  next
    case ok: False
    then obtain a as where name: "name = a # as" "a \<noteq> CHR ''-''" "a \<noteq> CHR ''=''" by (cases name) auto
    show ?thesis
    proof (cases "CHR ''='' \<in> set as")
      case True
      then obtain as1 y where as: "as = as1 @ CHR ''='' # y" "CHR ''='' \<notin> set as1" by (blast dest: split_list_first)
      show ?thesis using valued [of d "a # as1" y] d name as by (simp add: flag_name_def)
    next
      case False
      then show ?thesis using alone [of d name] d name by (simp add: flag_name_def)
    qed
  qed
qed

lemma parse_accepts: "parse_flags fs args = Inr (fs', rest) \<longleftrightarrow> accepts fs args fs' rest"
proof
  assume "accepts fs args fs' rest"
  then show "parse_flags fs args = Inr (fs', rest)"
    by (induction rule: accepts.induct) (simp_all add: parse_stops parse_flag_alone parse_flag_value del: parse_flags.simps(2) fun_upd_apply)
next
  assume "parse_flags fs args = Inr (fs', rest)"
  then show "accepts fs args fs' rest"
  proof (induction "length args" arbitrary: fs args rule: less_induct)
    case less
    show ?case
    proof (cases args)
      case Nil
      then show ?thesis using less.prems by (auto intro: accepts.intros)
    next
      case (Cons s as)
      show ?thesis
      proof (cases s rule: argument_cases)
        case positional
        then show ?thesis using less.prems Cons by (auto intro: accepts.intros)
      next
        case dashes
        then show ?thesis using less.prems Cons by (auto intro: accepts.intros)
      next
        case malformed
        then show ?thesis using less.prems Cons by simp
      next
        case (alone d n)
        then show ?thesis
          using less.prems Cons less.hyps [of as] less.hyps [of "tl as"] parse_flag_alone [OF alone(2,1), of fs as]
          by (auto split: option.splits flag_value.splits list.splits if_splits intro: accepts.intros simp del: parse_flags.simps fun_upd_apply)
      next
        case (valued d n y)
        then show ?thesis
          using less.prems Cons less.hyps [of as] parse_flag_value [OF valued(2,1), of fs y as]
          by (auto split: option.splits flag_value.splits if_splits intro: accepts.intros simp del: parse_flags.simps fun_upd_apply)
      qed
    qed
  qed
qed

section \<open>From the unit file back to the command line\<close>

text \<open>How systemd takes the line of \<open>ExecStart\<close> apart is the parameter \<open>argv_of\<close>. Of it only the documented case is used: an absolute
  path and arguments without white space, quotes, backslashes, dollar and percent signs, separated by
  single spaces, are the words of the command.\<close>

definition plain :: "string \<Rightarrow> bool" where
  "plain w \<longleftrightarrow> w \<noteq> [] \<and> (\<forall>c \<in> set w. \<not> isSpace c \<and> c \<notin> {CHR 0x22, CHR 0x27, CHR 0x5C, CHR ''$'', CHR ''%'', CHR '';''})"

definition splits_words :: "(string \<Rightarrow> string list) \<Rightarrow> bool" where
  "splits_words argv_of \<longleftrightarrow> (\<forall>ws. ws \<noteq> [] \<and> hd (hd ws) = CHR ''/'' \<and> list_all plain ws \<longrightarrow> argv_of (join_with (CHR '' '') ws) = ws)"

lemma splits_words_split_on: "splits_words (split_on (CHR '' ''))"
proof -
  have "plain w \<Longrightarrow> CHR '' '' \<notin> set w" for w by (auto simp: plain_def isSpace_def)
  then show ?thesis unfolding splits_words_def by (intro allI impI split_on_join) (auto simp: list_all_iff)
qed

definition service_argv :: "(string \<Rightarrow> string list) \<Rightarrow> string \<Rightarrow> string list" where
  "service_argv argv_of unit = (case unit_get ''ExecStart'' unit of None \<Rightarrow> [] | Some line \<Rightarrow> argv_of line)"

lemma plain_words: "plain ''run''" "plain ''--data-dir''"
  by (simp_all add: plain_def isSpace_def)

lemma plain_one_line: "plain w \<Longrightarrow> newline \<notin> set w"
  by (auto simp: plain_def isSpace_def newline_def)

text \<open>Options given to \<open>--data-dir\<close> as the next argument; what follows the first positional argument is not read.\<close>

lemma flag_names: "flag_name ''data-dir''" "flag_name ''promiscuous''" "''--'' \<in> dashes"
  by (simp_all add: flag_name_def dashes_def)

lemma run_flags_data_dir:
  assumes "rest = [] \<or> length (hd rest) < 2 \<or> hd (hd rest) \<noteq> CHR ''-''"
  shows "run_flags (''--data-dir'' # dir # rest) = Inr (dir, True)"
proof -
  have "parse_flags fs rest = Inr (fs, rest)" for fs using assms parse_stops(1) by (cases rest) auto
  then show ?thesis
    using parse_flag_alone [OF flag_names(1,3), of run_flagset "dir # rest"]
    by (simp add: run_flags_def run_flagset_def string_flag_def bool_flag_def del: parse_flags.simps)
qed

lemma Execute_run: "Execute (''run'' # args) = (RunSub, args)"
  by (simp add: Execute_def isFlag_def)

text \<open>The line of \<open>ExecStart\<close> comes before those that name the user and the group, so only the two paths must be without line breaks.\<close>

lemma split_unlines_append: "\<forall>l \<in> set ls. newline \<notin> set l \<Longrightarrow> split_on newline (unlines (ls @ ms)) = ls @ split_on newline (unlines ms)"
  unfolding unlines_def by (induction ls) (auto simp: split_on_append_sep)

lemma unit_exec_line:
  assumes "newline \<notin> set (up_exec p)" and "newline \<notin> set (up_dir p)"
  shows "unit_get ''ExecStart'' (systemdUnitTemplate p) = Some (up_exec p @ '' run --data-dir '' @ up_dir p)"
proof -
  let ?pre = "take 8 (systemd_lines p)"
  have pre: "?pre = [''[Unit]'', ''Description=ShadowStat network monitoring'', ''After=network-online.target'', ''Wants=network-online.target'', [],
      ''[Service]'', ''Type=simple'', ''ExecStart='' @ up_exec p @ '' run --data-dir '' @ up_dir p]"
    by (simp add: systemd_lines_def)
  have "\<forall>l \<in> set ?pre. newline \<notin> set l" unfolding pre using assms by (auto simp: newline_def)
  from split_unlines_append [OF this, of "drop 8 (systemd_lines p)"]
  have "split_on newline (systemdUnitTemplate p) = ?pre @ split_on newline (unlines (drop 8 (systemd_lines p)))"
    unfolding append_take_drop_id systemdUnitTemplate_def .
  then show ?thesis unfolding unit_get_def pre by (simp add: HasPrefix_def)
qed

lemma unit_words:
  assumes "splits_words argv_of" and "hd (up_exec p) = CHR ''/''" and "plain (up_exec p)"
    and "up_dir p = join_with (CHR '' '') ds" and "ds \<noteq> []" and "list_all plain ds"
  shows "service_argv argv_of (systemdUnitTemplate p) = up_exec p # ''run'' # ''--data-dir'' # ds"
proof -
  let ?ws = "up_exec p # ''run'' # ''--data-dir'' # ds"
  have "newline \<notin> set (join_with (CHR '' '') ds)" using assms(6) plain_one_line
    by (induction "CHR '' ''" ds rule: join_with.induct) (auto simp: newline_def)
  then have "unit_get ''ExecStart'' (systemdUnitTemplate p) = Some (up_exec p @ '' run --data-dir '' @ up_dir p)"
    by (intro unit_exec_line) (simp_all add: assms(4) plain_one_line [OF assms(3)])
  moreover have "up_exec p @ '' run --data-dir '' @ up_dir p = join_with (CHR '' '') ?ws"
    using assms(4,5) by (cases ds) simp_all
  moreover have "argv_of (join_with (CHR '' '') ?ws) = ?ws"
    by (rule assms(1) [unfolded splits_words_def, rule_format]) (simp add: assms(2,3,6) plain_words)
  ultimately show ?thesis by (simp add: service_argv_def)
qed

text \<open>The start of the program on a database whose setup is complete.\<close>

definition configured_start :: "surroundings \<Rightarrow> bool \<Rightarrow> db \<Rightarrow> start" where
  "configured_start w promiscuous d =
     (case fst (Load (snd (IsSetupComplete d))) of
        Inl _ \<Rightarrow> Exit 1
      | Inr st \<Rightarrow> start_services \<lparr>re_datadir = Inr [], re_first = False, re_open = True, re_capture = su_capture w promiscuous, re_server = su_server w\<rparr> st)"

lemma run_main_configured:
  assumes "run_flags args = Inr (dir, promiscuous)" and "ResolveDataDir (su_os w) dir = Inr dataDir" and "exists_path s (DBPath dataDir)"
    and "su_open w (DBPath dataDir) s = (Inr d, s1)" and "fst (IsSetupComplete d) = Inr True"
  shows "fst (run_main w args s) = configured_start w promiscuous d"
proof -
  obtain d1 where d1: "IsSetupComplete d = (Inr True, d1)" using assms(5) by (cases "IsSetupComplete d") simp
  show ?thesis
    using assms d1 by (auto simp: run_main_def runCmd_def configured_start_def start_services_def split: prod.split sum.split option.split)
qed


definition demo_world :: surroundings where
  "demo_world = \<lparr>su_ext = (\<lambda>_ s. (True, s)), su_open = demo_open,
     su_os = \<lparr>os_euid = 0, os_stat = (\<lambda>_. True), os_mkdir = (\<lambda>_. True), os_create = (\<lambda>_. True), os_xdg = [], os_home = None\<rparr>,
     su_capture = (\<lambda>_ _. True), su_server = (\<lambda>_. True), su_kdf = demo_kdf, su_rand = None, su_rank = (\<lambda>_. 0), su_clock = 0,
     su_ifaces = Inr [], su_io = demo_io\<rparr>"

definition demo_configured :: db where
  "demo_configured = \<lparr>tbl = sql_set_setting (KeySetupComplete, ''1'') empty_tables, db_faults = []\<rparr>"


section \<open>Arguments that are silently not read\<close>

text \<open>A data directory with a space is lost. The unit file writes the directory without quotes; for a directory whose parts between
  spaces are plain words (the second not a flag), the service runs on the first part and ignores the rest without a message.\<close>

theorem data_dir_with_space:
  assumes "splits_words argv_of" and "hd (up_exec p) = CHR ''/''" and "plain (up_exec p)"
    and "up_dir p = a @ '' '' @ b" and "plain a" and "plain b" and "hd b \<noteq> CHR ''-''"
  shows "\<exists>args. Execute (tl (service_argv argv_of (systemdUnitTemplate p))) = (RunSub, args) \<and> run_flags args = Inr (a, True) \<and> up_dir p \<noteq> a"
  using unit_words [OF assms(1-3), of "[a, b]"] assms(4-7) run_flags_data_dir [of "[b]" a] Execute_run by simp

theorem data_dir_with_space_witness:
  "\<exists>args. Execute (tl (service_argv (split_on (CHR '' '')) (systemdUnitTemplate (demo_unit\<lparr>up_dir := ''/srv/shadow stat''\<rparr>)))) = (RunSub, args)
    \<and> run_flags args = Inr (''/srv/shadow'', True)"
  using data_dir_with_space [OF splits_words_split_on, of "demo_unit\<lparr>up_dir := ''/srv/shadow stat''\<rparr>" "''/srv/shadow''" "''stat''"]
  by (simp add: demo_unit_def plain_def isSpace_def)

text \<open>\<open>--promiscuous false\<close> does not turn promiscuous mode off: the flag alone means true, and the word
  \<open>false\<close> ends the flags, so that a data directory given after it is not read either.\<close>

theorem promiscuous_false_ignored: "run_flags (''--promiscuous'' # ''false'' # rest) = Inr ([], True)"
  using parse_flag_alone [OF flag_names(2,3), of run_flagset "''false'' # rest"] parse_stops(1) [of "''false''"]
  by (simp add: run_flags_def run_flagset_def string_flag_def bool_flag_def del: parse_flags.simps)

section \<open>Exit codes\<close>

definition usage_error :: "string list \<Rightarrow> bool" where
  "usage_error argv \<longleftrightarrow>
     (case Execute argv of
        (UnknownSub _, _) \<Rightarrow> True
      | (RunSub, args) \<Rightarrow> \<not> (\<exists>fs rest. accepts run_flagset args fs rest)
      | (InstallSub, args) \<Rightarrow> \<not> (\<exists>fs rest. accepts install_flagset args fs rest)
      | _ \<Rightarrow> False)"

lemma start_services_code: "start_services re s \<noteq> Exit 2"
  by (auto simp: start_services_def Let_def split: option.split)

lemma runCmd_code: "fst (runCmd re idkey rnd rank now ifs io d) \<noteq> Exit 2"
  using start_services_code
  by (auto simp: runCmd_def Let_def exitNoInteractiveSetup_def split: sum.split prod.split)

lemma service_codes: "fst (installServiceCmd ext op u r ov s) \<noteq> 2" "fst (uninstallServiceCmd ext s) \<noteq> 2" "fst (statusCmd ext s) \<noteq> 2"
  by (auto simp: installServiceCmd_def uninstallServiceCmd_def statusCmd_def split: sum.split prod.split)

lemma flags_rejected:
  "(\<exists>e. run_flags args = Inl e) \<longleftrightarrow> \<not> (\<exists>fs rest. accepts run_flagset args fs rest)"
  "(\<exists>e. install_flags args = Inl e) \<longleftrightarrow> \<not> (\<exists>fs rest. accepts install_flagset args fs rest)"
  unfolding parse_accepts [symmetric] run_flags_def install_flags_def
  by (cases "parse_flags run_flagset args"; force) (cases "parse_flags install_flagset args"; force)


definition bad_flag_argv :: "string list" where "bad_flag_argv = [''--data_dir'', ''/srv'']"


end
