(* ===== verification/Store_Open.thy ===== *)
theory Store_Open
  imports Store_Core
begin

text \<open>
  \<open>store/db.go\<close>: opening the database file and bringing its schema up to date. The file is modelled
  below the level of the typed tables, as named tables with columns and rows, because the migration
  works on databases written by earlier versions. A connection carries the number of open handles and
  the schedule of driver failures; a failed statement has no effect, and the statements before it stay.
\<close>

section \<open>Database files\<close>

type_synonym cells = "string \<rightharpoonup> string"

record table =
  tb_cols :: "string list"
  tb_rows :: "cells list"

type_synonym dbfile = "string \<rightharpoonup> table"

record conn =
  cn_file :: dbfile
  cn_faults :: "bool list"
  cn_handles :: nat
  cn_pragmas :: "string list"

type_synonym 'a connm = "conn \<Rightarrow> (go_error + 'a) \<times> conn"

definition conn_call :: "(conn \<Rightarrow> go_error + ('a \<times> conn)) \<Rightarrow> 'a connm" where
  "conn_call f c =
     (case cn_faults c of
        b # bs \<Rightarrow>
          (let c1 = c\<lparr>cn_faults := bs\<rparr>
           in if b then (Inl ErrIO, c1) else (case f c1 of Inl e \<Rightarrow> (Inl e, c1) | Inr (a, c2) \<Rightarrow> (Inr a, c2)))
      | [] \<Rightarrow> (case f c of Inl e \<Rightarrow> (Inl e, c) | Inr (a, c2) \<Rightarrow> (Inr a, c2)))"

fun run_stmts :: "unit connm list \<Rightarrow> unit connm" where
  "run_stmts [] c = (Inr (), c)"
| "run_stmts (m # ms) c = (case m c of (Inl e, c1) \<Rightarrow> (Inl e, c1) | (Inr _, c1) \<Rightarrow> run_stmts ms c1)"

section \<open>schema.sql\<close>

definition rollup_cols :: "string list" where
  "rollup_cols = [''host_id'', ''direction'', ''bucket_ts'', ''bytes_sent'', ''bytes_recv'', ''packets_sent'', ''packets_recv'']"

definition schema :: "(string \<times> string list) list" where
  "schema =
    [(''schema_meta'', [''version'']),
     (''settings'', [''key'', ''value'']),
     (''users'', [''id'', ''username'', ''password_hash'', ''role'', ''created_at'', ''must_reauth_at'']),
     (''sessions'', [''token'', ''user_id'', ''created_at'', ''expires_at'', ''elevated_until'']),
     (''hosts'', [''id'', ''ip'', ''display_name'', ''mac_address'', ''first_seen'', ''last_seen'']),
     (''dhcp_hostnames'', [''mac_address'', ''hostname'', ''last_seen'']),
     (''flows_recent'', [''id'', ''host_id'', ''direction'', ''proto'', ''local_ip'', ''local_port'', ''remote_ip'', ''remote_port'',
        ''first_seen'', ''last_seen'', ''bytes_sent'', ''bytes_recv'', ''packets_sent'', ''packets_recv'']),
     (''rollup_1m'', rollup_cols), (''rollup_5m'', rollup_cols), (''rollup_1h'', rollup_cols), (''rollup_1d'', rollup_cols),
     (''known_peers'', [''host_id'', ''remote_ip'', ''remote_port'', ''first_seen'', ''last_seen'']),
     (''dns_queries'', [''id'', ''host_id'', ''qname'', ''qtype'', ''ts'']),
     (''alerts'', [''id'', ''host_id'', ''kind'', ''severity'', ''summary'', ''detail'', ''dedupe_key'', ''detected_at'', ''acknowledged''])]"

text \<open>\<open>CREATE TABLE IF NOT EXISTS\<close>: an existing table keeps its columns, whatever they are.\<close>

definition create_table :: "string \<times> string list \<Rightarrow> dbfile \<Rightarrow> dbfile" where
  "create_table tc f = (case f (fst tc) of None \<Rightarrow> f(fst tc \<mapsto> \<lparr>tb_cols = snd tc, tb_rows = []\<rparr>) | Some _ \<Rightarrow> f)"

definition exec_file :: "(dbfile \<Rightarrow> dbfile) \<Rightarrow> unit connm" where
  "exec_file g = conn_call (\<lambda>c. Inr ((), c\<lparr>cn_file := g (cn_file c)\<rparr>))"

section \<open>Open, migrate, ensureColumn\<close>

definition schemaVersion :: string where "schemaVersion = ''1''"

definition add_column :: "string \<Rightarrow> string option \<Rightarrow> table \<Rightarrow> table" where
  "add_column column dflt t = \<lparr>tb_cols = tb_cols t @ [column], tb_rows = map (\<lambda>r. r(column := dflt)) (tb_rows t)\<rparr>"

text \<open>\<open>ensureColumn\<close>: \<open>PRAGMA table_info\<close>, and \<open>ALTER TABLE ... ADD COLUMN\<close> when the column is not listed; \<open>dflt\<close>
  is the default in the column's SQL type, which the new column holds in every existing row, or \<open>NULL\<close>.\<close>

definition ensureColumn :: "string \<Rightarrow> string \<Rightarrow> string option \<Rightarrow> unit connm" where
  "ensureColumn tab column dflt c =
     (case conn_call (\<lambda>c. Inr (case cn_file c tab of None \<Rightarrow> [] | Some t \<Rightarrow> tb_cols t, c)) c of
        (Inl e, c1) \<Rightarrow> (Inl e, c1)
      | (Inr cols, c1) \<Rightarrow>
          if column \<in> set cols then (Inr (), c1)
          else conn_call (\<lambda>c. case cn_file c tab of
                 None \<Rightarrow> Inl (ErrSetup ''no such table'')
               | Some t \<Rightarrow> Inr ((), c\<lparr>cn_file := (cn_file c)(tab \<mapsto> add_column column dflt t)\<rparr>)) c1)"

definition insert_version :: "unit connm" where
  "insert_version c =
     (case conn_call (\<lambda>c. case cn_file c ''schema_meta'' of None \<Rightarrow> Inl (ErrSetup ''no such table'') | Some t \<Rightarrow> Inr (length (tb_rows t), c)) c of
        (Inl e, c1) \<Rightarrow> (Inl e, c1)
      | (Inr n, c1) \<Rightarrow>
          if n = 0 then
            conn_call (\<lambda>c. case cn_file c ''schema_meta'' of
                None \<Rightarrow> Inl (ErrSetup ''no such table'')
              | Some t \<Rightarrow> Inr ((), c\<lparr>cn_file := (cn_file c)(''schema_meta'' \<mapsto> t\<lparr>tb_rows := tb_rows t @ [[''version'' \<mapsto> schemaVersion]]\<rparr>)\<rparr>)) c1
          else (Inr (), c1))"

definition migrate_stmts :: "unit connm list" where
  "migrate_stmts =
     map (\<lambda>tc. exec_file (create_table tc)) schema
     @ [ensureColumn ''hosts'' ''mac_address'' None,
        ensureColumn ''users'' ''role'' (Some ''admin''),
        insert_version]"

definition migrate :: "unit connm" where
  "migrate = run_stmts migrate_stmts"

definition sql_Open :: "unit connm" where
  "sql_Open = conn_call (\<lambda>c. Inr ((), c\<lparr>cn_handles := cn_handles c + 1\<rparr>))"

definition close_handles :: "nat \<Rightarrow> conn \<Rightarrow> conn" where
  "close_handles n c = c\<lparr>cn_handles := cn_handles c - n\<rparr>"

definition exec_pragma :: "string \<Rightarrow> unit connm" where
  "exec_pragma p = conn_call (\<lambda>c. Inr ((), c\<lparr>cn_pragmas := cn_pragmas c @ [p]\<rparr>))"

definition writer_pragmas :: "string list" where
  "writer_pragmas = [''PRAGMA journal_mode=WAL'', ''PRAGMA synchronous=NORMAL'', ''PRAGMA foreign_keys=ON'', ''PRAGMA auto_vacuum=INCREMENTAL'']"

definition Open :: "unit connm" where
  "Open c0 =
     (case sql_Open c0 of (Inl e, c1) \<Rightarrow> (Inl e, c1) | (Inr _, c1) \<Rightarrow>
      case sql_Open c1 of (Inl e, c2) \<Rightarrow> (Inl e, close_handles 1 c2) | (Inr _, c2) \<Rightarrow>
      case run_stmts (map exec_pragma writer_pragmas) c2 of (Inl e, c3) \<Rightarrow> (Inl e, close_handles 2 c3) | (Inr _, c3) \<Rightarrow>
      case exec_pragma ''PRAGMA foreign_keys=ON'' c3 of (Inl e, c4) \<Rightarrow> (Inl e, close_handles 2 c4) | (Inr _, c4) \<Rightarrow>
      case migrate c4 of (Inl e, c5) \<Rightarrow> (Inl e, close_handles 2 c5) | (Inr _, c5) \<Rightarrow> (Inr (), c5))"

definition Close :: "(go_error + unit) \<Rightarrow> (go_error + unit) \<Rightarrow> conn \<Rightarrow> (go_error + unit) \<times> conn" where
  "Close werr rerr c = (case werr of Inl e \<Rightarrow> Inl e | Inr _ \<Rightarrow> rerr, close_handles 2 c)"

section \<open>The migration as a function on files\<close>

definition ensure_file :: "string \<Rightarrow> string \<Rightarrow> string option \<Rightarrow> dbfile \<Rightarrow> dbfile" where
  "ensure_file tab column dflt f =
     (case f tab of None \<Rightarrow> f | Some t \<Rightarrow> if column \<in> set (tb_cols t) then f else f(tab \<mapsto> add_column column dflt t))"

definition version_file :: "dbfile \<Rightarrow> dbfile" where
  "version_file f =
     (case f ''schema_meta'' of
        None \<Rightarrow> f
      | Some t \<Rightarrow> if tb_rows t = [] then f(''schema_meta'' \<mapsto> t\<lparr>tb_rows := [[''version'' \<mapsto> schemaVersion]]\<rparr>) else f)"

definition migrate_steps :: "(dbfile \<Rightarrow> dbfile) list" where
  "migrate_steps = map create_table schema
     @ [ensure_file ''hosts'' ''mac_address'' None, ensure_file ''users'' ''role'' (Some ''admin''), version_file]"

definition migrate_file :: "dbfile \<Rightarrow> dbfile" where
  "migrate_file = fold (\<lambda>g f. g f) migrate_steps"

text \<open>A statement either fails and leaves the file, or does its step; it never touches the handles.\<close>

definition performs :: "unit connm \<Rightarrow> (dbfile \<Rightarrow> dbfile) \<Rightarrow> bool" where
  "performs m g \<longleftrightarrow> (\<forall>c r c'. m c = (r, c') \<longrightarrow>
     cn_file c' = (if r = Inr () then g (cn_file c) else cn_file c) \<and> cn_handles c' = cn_handles c
     \<and> (cn_faults c = [] \<longrightarrow> cn_faults c' = []))"

lemma performs_exec_file: "performs (exec_file g) g"
  by (auto simp: performs_def exec_file_def conn_call_def Let_def split: list.splits if_splits)

lemma performs_pragma: "performs (exec_pragma p) (\<lambda>f. f)"
  by (auto simp: performs_def exec_pragma_def conn_call_def Let_def split: list.splits if_splits)

lemma performs_ensureColumn: "performs (ensureColumn tab column dflt) (ensure_file tab column dflt)"
  by (auto simp: performs_def ensureColumn_def ensure_file_def conn_call_def Let_def
      split: list.splits if_splits option.splits)

lemma performs_insert_version: "performs insert_version version_file"
  by (auto simp: performs_def insert_version_def version_file_def conn_call_def Let_def
      split: list.splits if_splits option.splits)

lemma run_stmts_performs:
  assumes "list_all2 performs ms gs" and "run_stmts ms c = (r, c')"
  shows "\<exists>k \<le> length gs. cn_file c' = fold (\<lambda>g f. g f) (take k gs) (cn_file c) \<and> (r = Inr () \<longrightarrow> k = length gs)
    \<and> cn_handles c' = cn_handles c \<and> (cn_faults c = [] \<longrightarrow> cn_faults c' = [])"
  using assms
proof (induction ms gs arbitrary: c rule: list_all2_induct)
  case (Cons m ms g gs)
  obtain r1 c1 where m: "m c = (r1, c1)" by fastforce
  have p: "cn_file c1 = (if r1 = Inr () then g (cn_file c) else cn_file c)" "cn_handles c1 = cn_handles c"
    "cn_faults c = [] \<longrightarrow> cn_faults c1 = []" using Cons.hyps(1) m unfolding performs_def by blast+
  show ?case
  proof (cases r1)
    case (Inl e)
    then show ?thesis using Cons.prems m p by (intro exI [of _ 0]) auto
  next
    case (Inr u)
    then obtain k where "k \<le> length gs" "cn_file c' = fold (\<lambda>g f. g f) (take k gs) (cn_file c1)" "r = Inr () \<longrightarrow> k = length gs"
      "cn_handles c' = cn_handles c1" "cn_faults c1 = [] \<longrightarrow> cn_faults c' = []"
      using Cons.IH [of c1] Cons.prems m by auto
    then show ?thesis using p Inr by (intro exI [of _ "Suc k"]) auto
  qed
qed simp

lemma migrate_performs: "list_all2 performs migrate_stmts migrate_steps"
  unfolding migrate_stmts_def migrate_steps_def
  by (intro list_all2_appendI) (auto simp: list_all2_map1 list_all2_map2 list.rel_refl performs_exec_file performs_ensureColumn performs_insert_version)

section \<open>Interrupted migrations\<close>

text \<open>A sequence of steps each of which is a no-op once done, and stays done under the later ones: running a
  prefix and then the whole is running the whole.\<close>

lemma fold_settled:
  assumes "\<And>g f. g \<in> set gs \<Longrightarrow> g (g f) = g f"
    and "sorted_wrt (\<lambda>g h. \<forall>f. g f = f \<longrightarrow> g (h f) = h f) gs" and "g \<in> set gs"
  shows "g (fold (\<lambda>g f. g f) gs f) = fold (\<lambda>g f. g f) gs f"
  using assms
proof (induction gs arbitrary: f)
  case (Cons h gs)
  have keep: "g x = x \<Longrightarrow> (\<forall>h' \<in> set gs'. \<forall>f. g f = f \<longrightarrow> g (h' f) = h' f) \<Longrightarrow> g (fold (\<lambda>g f. g f) gs' x) = fold (\<lambda>g f. g f) gs' x" for x gs'
    by (induction gs' arbitrary: x) auto
  show ?case
  proof (cases "g \<in> set gs")
    case True
    then show ?thesis using Cons by auto
  next
    case False
    then have "g = h" using Cons.prems(3) by simp
    then show ?thesis using keep [of "h f" gs] Cons.prems(1) [of h f] Cons.prems(2) by auto
  qed
qed simp

lemma fold_settled_id: "(\<And>g. g \<in> set gs \<Longrightarrow> g f = f) \<Longrightarrow> fold (\<lambda>g f. g f) gs f = f"
proof (induction gs)
  case (Cons a gs)
  have a: "a f = f" using Cons.prems by simp
  have "fold (\<lambda>g f. g f) gs f = f" by (rule Cons.IH) (use Cons.prems in auto)
  then show ?case by (simp add: a)
qed simp

lemma fold_after_prefix:
  assumes "\<And>g f. g \<in> set gs \<Longrightarrow> g (g f) = g f" and "sorted_wrt (\<lambda>g h. \<forall>f. g f = f \<longrightarrow> g (h f) = h f) gs"
  shows "fold (\<lambda>g f. g f) gs (fold (\<lambda>g f. g f) (take k gs) f) = fold (\<lambda>g f. g f) gs f"
proof -
  let ?run = "fold (\<lambda>g f :: 'a. g f)"
  let ?f = "?run (take k gs) f"
  have split: "?run gs x = ?run (drop k gs) (?run (take k gs) x)" for x
    by (metis append_take_drop_id comp_apply fold_append)
  have "?run (take k gs) ?f = ?f"
    by (rule fold_settled_id, rule fold_settled) (use assms in \<open>auto dest: in_set_takeD intro: sorted_wrt_take\<close>)
  then show ?thesis by (simp add: split)
qed

lemma create_table_settled: "create_table tc f = f \<longleftrightarrow> fst tc \<in> dom f"
  by (auto simp: create_table_def domIff split: option.splits) (metis fun_upd_same option.distinct(1))

lemma ensure_file_settled: "ensure_file tab column dflt f = f \<longleftrightarrow> (case f tab of None \<Rightarrow> True | Some t \<Rightarrow> column \<in> set (tb_cols t))"
proof (cases "f tab")
  case (Some t)
  have "f(tab \<mapsto> add_column column dflt t) \<noteq> f" if "column \<notin> set (tb_cols t)"
  proof
    assume "f(tab \<mapsto> add_column column dflt t) = f"
    then have "add_column column dflt t = t" using Some by (metis fun_upd_same option.inject)
    then have "tb_cols t @ [column] = tb_cols t" unfolding add_column_def by (metis table.select_convs(1))
    then show False by simp
  qed
  then show ?thesis using Some by (auto simp: ensure_file_def)
qed (simp add: ensure_file_def)

lemma step_dom: "dom (ensure_file tab column dflt f) = dom f" "dom (version_file f) = dom f"
  "dom (create_table tc f) = insert (fst tc) (dom f)"
  by (auto simp: ensure_file_def version_file_def create_table_def split: option.splits if_splits)

lemma steps_idem: "g \<in> set migrate_steps \<Longrightarrow> g (g f) = g f"
proof -
  have e: "ensure_file tab column dflt (ensure_file tab column dflt f) = ensure_file tab column dflt f" for tab column dflt
    by (auto simp: ensure_file_def add_column_def split: option.splits)
  have v: "version_file (version_file f) = version_file f"
    by (auto simp: version_file_def split: option.splits)
  have c: "create_table tc (create_table tc f) = create_table tc f" for tc by (simp add: create_table_settled step_dom)
  show "g \<in> set migrate_steps \<Longrightarrow> ?thesis" by (auto simp: migrate_steps_def e v c)
qed

lemma steps_ordered: "sorted_wrt (\<lambda>g h. \<forall>f. g f = f \<longrightarrow> g (h f) = h f) migrate_steps"
proof -
  have c: "create_table tc f = f \<Longrightarrow> dom f \<subseteq> dom f' \<Longrightarrow> create_table tc f' = f'" for tc f f'
    by (auto simp: create_table_settled)
  have mono: "dom f \<subseteq> dom (create_table tc f)" for f tc by (simp add: step_dom subset_insertI)
  have cc: "sorted_wrt (\<lambda>g h. \<forall>f. g f = f \<longrightarrow> g (h f) = h f) (map create_table ts)" for ts
    by (induction ts) (auto elim!: c [OF _ mono])
  have other: "ensure_file tab column dflt f = f \<Longrightarrow> f' tab = f tab \<Longrightarrow> ensure_file tab column dflt f' = f'" for tab column dflt f f'
    by (simp add: ensure_file_settled)
  have e: "ensure_file ''users'' column dflt f ''hosts'' = f ''hosts''" "version_file f ''hosts'' = f ''hosts''" "version_file f ''users'' = f ''users''"
    for column dflt f by (auto simp: ensure_file_def version_file_def split: option.splits)
  let ?es = "[ensure_file ''hosts'' ''mac_address'' None, ensure_file ''users'' ''role'' (Some ''admin''), version_file]"
  have es: "sorted_wrt (\<lambda>g h. \<forall>f. g f = f \<longrightarrow> g (h f) = h f) ?es"
    by (simp del: fun_upd_apply) (intro conjI allI impI; erule other; rule e)
  have "create_table tc f = f \<longrightarrow> create_table tc (h f) = h f" if "h \<in> set ?es" for tc h f
  proof -
    have "dom f \<subseteq> dom (h f)" using that unfolding list.set by (elim insertE emptyE) (simp_all add: step_dom)
    then show ?thesis by (blast intro: c)
  qed
  then show ?thesis unfolding migrate_steps_def sorted_wrt_append using cc es by auto
qed

lemma migrate_recovers: "migrate_file (fold (\<lambda>g f. g f) (take k migrate_steps) f) = migrate_file f"
  unfolding migrate_file_def by (rule fold_after_prefix [OF steps_idem steps_ordered])

section \<open>Properties\<close>

lemma pragmas_perform: "list_all2 performs (map exec_pragma ps) (map (\<lambda>_ f. f) ps)"
  by (simp add: list_all2_map1 list_all2_map2 performs_pragma list.rel_refl)

lemma fold_noop: "fold (\<lambda>g f. g f) (take k (map (\<lambda>_ f. f) ps)) x = x"
  by (induction ps arbitrary: k) (auto simp: take_Cons split: nat.splits)

text \<open>The files an interrupted migration can leave.\<close>

definition partly_migrated :: "dbfile \<Rightarrow> dbfile \<Rightarrow> bool" where
  "partly_migrated f f' \<longleftrightarrow> (\<exists>k. f' = fold (\<lambda>g f. g f) (take k migrate_steps) f)"

lemma partly_refl: "partly_migrated f f"
  unfolding partly_migrated_def by (rule exI [of _ 0]) simp

lemma partly_migrated_recovers: "partly_migrated f f' \<Longrightarrow> migrate_file f' = migrate_file f"
  unfolding partly_migrated_def using migrate_recovers by blast

lemma migrate_result:
  assumes "migrate c = (r, c')"
  shows "partly_migrated (cn_file c) (cn_file c') \<and> (r = Inr () \<longrightarrow> cn_file c' = migrate_file (cn_file c))
    \<and> cn_handles c' = cn_handles c"
  using run_stmts_performs [OF migrate_performs assms [unfolded migrate_def]]
  by (auto simp: migrate_file_def partly_migrated_def)

lemma Open_result:
  assumes "Open c = (r, c')"
  shows "partly_migrated (cn_file c) (cn_file c')
    \<and> (if r = Inr () then cn_file c' = migrate_file (cn_file c) \<and> cn_handles c' = cn_handles c + 2 else cn_handles c' = cn_handles c)"
proof -
  have open1: "cn_file c2 = cn_file c1 \<and> cn_handles c2 = cn_handles c1 + (if x = Inr () then 1 else 0)" if "sql_Open c1 = (x, c2)" for c1 x c2
    using that by (auto simp: sql_Open_def conn_call_def Let_def split: list.splits if_splits)
  have pragma: "cn_file c2 = cn_file c1 \<and> cn_handles c2 = cn_handles c1" if "run_stmts (map exec_pragma ps) c1 = (x, c2)" for ps c1 x c2
    using run_stmts_performs [OF pragmas_perform that] by (auto simp: fold_noop)
  have one: "cn_file c2 = cn_file c1 \<and> cn_handles c2 = cn_handles c1" if "exec_pragma p c1 = (x, c2)" for p c1 x c2
    using performs_pragma that unfolding performs_def by metis
  show ?thesis
    using assms unfolding Open_def
    by (auto simp: close_handles_def partly_refl split: prod.splits sum.splits dest!: open1 pragma one migrate_result)
qed

lemma run_stmts_append: "run_stmts (xs @ ys) c = (case run_stmts xs c of (Inl e, c1) \<Rightarrow> (Inl e, c1) | (Inr _, c1) \<Rightarrow> run_stmts ys c1)"
  by (induction xs arbitrary: c) (auto split: prod.splits sum.splits)

lemma create_all_ok:
  "cn_faults c = [] \<Longrightarrow> run_stmts (map (\<lambda>tc. exec_file (create_table tc)) ts) c = (Inr (), c\<lparr>cn_file := fold create_table ts (cn_file c)\<rparr>)"
  by (induction ts arbitrary: c) (simp_all add: exec_file_def conn_call_def)

lemma dom_create_all: "dom (fold create_table ts f) = dom f \<union> fst ` set ts"
  by (induction ts arbitrary: f) (auto simp: step_dom)

lemma ensureColumn_ok:
  assumes "cn_faults c = []" and "tab \<in> dom (cn_file c)"
  shows "\<exists>c'. ensureColumn tab column dflt c = (Inr (), c') \<and> cn_faults c' = [] \<and> dom (cn_file c') = dom (cn_file c)"
  using assms by (auto simp: ensureColumn_def conn_call_def)

lemma insert_version_ok:
  assumes "cn_faults c = []" and "''schema_meta'' \<in> dom (cn_file c)"
  shows "\<exists>c'. insert_version c = (Inr (), c') \<and> cn_faults c' = []"
  using assms by (auto simp: insert_version_def conn_call_def)

lemma migrate_ok:
  assumes "cn_faults c = []"
  shows "\<exists>c'. migrate c = (Inr (), c') \<and> cn_faults c' = []"
proof -
  let ?c = "c\<lparr>cn_file := fold create_table schema (cn_file c)\<rparr>"
  have d: "{''hosts'', ''users'', ''schema_meta''} \<subseteq> dom (cn_file ?c)" by (simp add: dom_create_all) (simp add: schema_def)
  obtain c1 where c1: "ensureColumn ''hosts'' ''mac_address'' None ?c = (Inr (), c1)" "cn_faults c1 = []" "dom (cn_file c1) = dom (cn_file ?c)"
    using ensureColumn_ok [of ?c "''hosts''" "''mac_address''" None] d assms by auto
  obtain c2 where c2: "ensureColumn ''users'' ''role'' (Some ''admin'') c1 = (Inr (), c2)" "cn_faults c2 = []" "dom (cn_file c2) = dom (cn_file c1)"
    using ensureColumn_ok [of c1 "''users''" "''role''" "Some ''admin''"] d c1 by auto
  obtain c3 where "insert_version c2 = (Inr (), c3)" "cn_faults c3 = []" using insert_version_ok [of c2] d c1 c2 by auto
  then show ?thesis using c1 c2 assms by (simp add: migrate_def migrate_stmts_def run_stmts_append create_all_ok)
qed

lemma Open_ok:
  assumes "cn_faults c = []"
  shows "\<exists>c'. Open c = (Inr (), c')"
proof -
  let ?c = "c\<lparr>cn_handles := cn_handles c + 2, cn_pragmas := cn_pragmas c @ writer_pragmas @ [''PRAGMA foreign_keys=ON'']\<rparr>"
  obtain c' where "migrate ?c = (Inr (), c')" using migrate_ok [of ?c] assms by auto
  then show ?thesis using assms by (simp add: Open_def sql_Open_def conn_call_def exec_pragma_def writer_pragmas_def)
qed



lemma fold_create_old: "f n = Some t \<Longrightarrow> fold create_table ts f n = Some t"
proof (induction ts arbitrary: f)
  case (Cons tc ts)
  have "create_table tc f n = Some t" using Cons.prems by (auto simp: create_table_def split: option.splits)
  then show ?case using Cons.IH by simp
qed simp

lemma fold_create_new: "f n = None \<Longrightarrow> map_of ts n = Some cols \<Longrightarrow> fold create_table ts f n = Some \<lparr>tb_cols = cols, tb_rows = []\<rparr>"
  by (induction ts arbitrary: f) (auto simp: create_table_def fold_create_old split: option.splits if_splits)

lemma fold_create_table: "map_of ts n = Some cols \<Longrightarrow> fold create_table ts f n = Some (case f n of None \<Rightarrow> \<lparr>tb_cols = cols, tb_rows = []\<rparr> | Some t \<Rightarrow> t)"
  by (cases "f n") (simp_all add: fold_create_old fold_create_new)

lemma schema_tables:
  "map_of schema ''hosts'' = Some [''id'', ''ip'', ''display_name'', ''mac_address'', ''first_seen'', ''last_seen'']"
  "map_of schema ''users'' = Some [''id'', ''username'', ''password_hash'', ''role'', ''created_at'', ''must_reauth_at'']"
  by (simp_all add: schema_def)



end
