(* ===== verification/Tlscert.thy ===== *)
theory Tlscert
  imports Config
begin

text \<open>
  \<open>tlscert/selfsigned.go\<close> and the server of \<open>web/server.go\<close> that calls it. The two files are paths of a
  map from names to files; the keys, the serial number and the clock are inputs, and so is the
  outcome of every call that can fail. A signed certificate is the template it was made from with the
  key that signed it: the encoding and the cryptography of \<open>crypto/x509\<close> are not unfolded.
  Dates are those of UTC.
\<close>

section \<open>Calendar years\<close>

text \<open>The number of the day that begins the year counted from 1 March, so that the leap day ends it.
  \<open>AddDate(2, 0, 0)\<close> keeps the day of the year; 29 February becomes 1 March, which is the same
  offset in this count.\<close>

definition year_start :: "int \<Rightarrow> int" where
  "year_start y = 365 * y + y div 4 - y div 100 + y div 400"

text \<open>\<open>1970-01-01\<close> is day 719468 of this count.\<close>

definition year_of :: "int \<Rightarrow> int" where
  "year_of z =
     (let y = (400 * z) div 146097
      in if z < year_start y then y - 1 else if year_start (y + 1) \<le> z then y + 1 else y)"

definition AddYears :: "int \<Rightarrow> gotime \<Rightarrow> gotime" where
  "AddYears n t =
     (let day = 86400 * Second; z = t div day + 719468; y = year_of z
      in (year_start (y + n) + (z - year_start y) - 719468) * day + t mod day)"

lemma year_start_bounds: "146097 * y - 800 < 400 * year_start y \<and> 400 * year_start y < 146097 * y + 400"
proof -
  have div_bounds: "k * (y div k) \<le> y \<and> y < k * (y div k) + k" if "0 < k" for k :: int
    using that pos_mod_bound [of k y] pos_mod_sign [of k y] mult_div_mod_eq [of k y] by linarith
  from div_bounds [of 4] div_bounds [of 100] div_bounds [of 400] show ?thesis
    unfolding year_start_def by simp
qed

lemma div_next:
  fixes k y :: int
  assumes "0 < k"
  shows "(y + 1) div k = y div k + (if k dvd y + 1 then 1 else 0)"
proof (cases "y mod k = k - 1")
  case True
  then have "y + 1 = k * (y div k + 1)" using mult_div_mod_eq [of k y] by (simp add: distrib_left)
  with assms show ?thesis by simp
next
  case False
  with assms have r: "y + 1 = k * (y div k) + (y mod k + 1)" "0 < y mod k + 1" "y mod k + 1 < k"
    using pos_mod_bound [of k y] pos_mod_sign [of k y] mult_div_mod_eq [of k y] by linarith+
  then have "(y + 1) div k = y div k" "(y + 1) mod k = y mod k + 1"
    using int_div_pos_eq [OF r(1)] int_mod_pos_eq [OF r(1)] by simp_all
  with r(2) show ?thesis by (auto simp: dvd_eq_mod_eq_0)
qed

lemma year_start_two: "730 \<le> year_start (y + 2) - year_start y \<and> year_start (y + 2) - year_start y \<le> 731"
proof -
  have d4: "4 dvd x" if "100 dvd x" for x :: int by (rule dvd_trans [OF _ that]) simp
  have d100: "100 dvd x" if "400 dvd x" for x :: int by (rule dvd_trans [OF _ that]) simp
  have "\<not> (4 dvd y + 1 \<and> 4 dvd y + 1 + 1)" by presburger
  then have "365 + 365 \<le> year_start (y + 1 + 1) - year_start y \<and> year_start (y + 1 + 1) - year_start y \<le> 365 + 366"
    unfolding year_start_def div_next [of 4, simplified] div_next [of 100, simplified] div_next [of 400, simplified]
    using d4 [of "y + 1"] d4 [of "y + 1 + 1"] d100 [of "y + 1"] d100 [of "y + 1 + 1"] by auto
  then show ?thesis by (simp add: add.assoc)
qed

lemma year_of_correct: "year_start (year_of z) \<le> z \<and> z < year_start (year_of z + 1)"
proof -
  define y where "y = (400 * z) div 146097"
  have "146097 * y \<le> 400 * z" "400 * z < 146097 * y + 146097"
    unfolding y_def using pos_mod_bound [of 146097 "400 * z"] pos_mod_sign [of 146097 "400 * z"] mult_div_mod_eq [of 146097 "400 * z"]
    by linarith+
  then show ?thesis
    using year_start_bounds [of y] year_start_bounds [of "2 + y"]
    unfolding year_of_def y_def [symmetric] Let_def by auto
qed

lemma AddYears_two: "730 * 86400 * Second \<le> AddYears 2 t - t \<and> AddYears 2 t - t \<le> 731 * 86400 * Second"
proof -
  let ?y = "year_of (t div (86400 * Second) + 719468)"
  have "AddYears 2 t - t = (year_start (?y + 2) - year_start ?y) * (86400 * Second)"
    using mult_div_mod_eq [of "86400 * Second" t] by (simp add: AddYears_def Let_def algebra_simps)
  with year_start_two [of ?y] show ?thesis by (simp add: Second_def)
qed

section \<open>selfsigned.go\<close>

record Certificate =
  ct_serial :: nat
  ct_subject :: string
  ct_notBefore :: gotime
  ct_notAfter :: gotime
  ct_isCA :: bool
  ct_dnsNames :: "string list"
  ct_ips :: "byte list option list"

text \<open>What a file holds: nothing, a certificate for the public half of a key signed with a key, the private
  key, or something else; and its permission bits.\<close>

datatype content = Empty | CertPEM Certificate nat nat | KeyPEM nat | OtherContent string

record tls_file =
  tf_content :: content
  tf_mode :: nat

type_synonym tls_fs = "string \<rightharpoonup> tls_file"

text \<open>What the calls return: the host name (empty when it fails), the generated key and serial number, whether
  signing and marshalling work, and whether a path can be opened for writing and written. The mask is
  the process's umask. The two clock readings are one.\<close>

record tls_env =
  te_hostname :: string
  te_key :: "nat option"
  te_serial :: "nat option"
  te_sign :: bool
  te_marshal :: bool
  te_opens :: "string \<Rightarrow> bool"
  te_writes :: "string \<Rightarrow> bool"
  te_umask :: nat
  te_now :: gotime

definition cert_template :: "tls_env \<Rightarrow> nat \<Rightarrow> Certificate" where
  "cert_template te serial =
     \<lparr>ct_serial = serial, ct_subject = ''ShadowStat'', ct_notBefore = te_now te - Hour, ct_notAfter = AddYears 2 (te_now te),
      ct_isCA = True,
      ct_dnsNames = [''localhost''] @ (if te_hostname te \<noteq> [] \<and> te_hostname te \<noteq> ''localhost'' then [te_hostname te] else []),
      ct_ips = [ParseIP ''127.0.0.1'', ParseIP ''::1'']\<rparr>"

text \<open>\<open>os.OpenFile\<close> with \<open>O_CREATE|O_TRUNC\<close> empties a file that exists and keeps its permissions.\<close>

definition open_trunc :: "tls_env \<Rightarrow> string \<Rightarrow> nat \<Rightarrow> tls_fs \<Rightarrow> tls_fs" where
  "open_trunc te path mode fs =
     fs(path \<mapsto> (case fs path of
                   Some f \<Rightarrow> f\<lparr>tf_content := Empty\<rparr>
                 | None \<Rightarrow> \<lparr>tf_content = Empty, tf_mode = and mode (mask 9 - and (te_umask te) (mask 9))\<rparr>))"

definition put_content :: "string \<Rightarrow> content \<Rightarrow> tls_fs \<Rightarrow> tls_fs" where
  "put_content path c fs = (case fs path of None \<Rightarrow> fs | Some f \<Rightarrow> fs(path \<mapsto> f\<lparr>tf_content := c\<rparr>))"

definition write_pem :: "tls_env \<Rightarrow> string \<Rightarrow> nat \<Rightarrow> content \<Rightarrow> string \<Rightarrow> string \<Rightarrow> tls_fs \<Rightarrow> (go_error + unit) \<times> tls_fs" where
  "write_pem te path mode c what_open what_write fs =
     (if \<not> te_opens te path then (Inl (ErrSetup what_open), fs)
      else (let fs1 = open_trunc te path mode fs
            in if te_writes te path then (Inr (), put_content path c fs1) else (Inl (ErrSetup what_write), fs1)))"

definition EnsureSelfSigned :: "tls_env \<Rightarrow> string \<Rightarrow> string \<Rightarrow> tls_fs \<Rightarrow> (go_error + unit) \<times> tls_fs" where
  "EnsureSelfSigned te certPath keyPath fs =
     (if certPath \<in> dom fs \<and> keyPath \<in> dom fs then (Inr (), fs)
      else case te_key te of None \<Rightarrow> (Inl (ErrSetup ''generate key''), fs) | Some priv \<Rightarrow>
           case te_serial te of None \<Rightarrow> (Inl (ErrSetup ''generate serial''), fs) | Some serial \<Rightarrow>
           if \<not> te_sign te then (Inl (ErrSetup ''create certificate''), fs)
           else case write_pem te certPath 0x1A4 (CertPEM (cert_template te serial) priv priv) ''open cert file'' ''write cert'' fs of
                  (Inl e, fs1) \<Rightarrow> (Inl e, fs1)
                | (Inr _, fs1) \<Rightarrow>
                    if \<not> te_marshal te then (Inl (ErrSetup ''marshal key''), fs1)
                    else write_pem te keyPath 0x180 (KeyPEM priv) ''open key file'' ''write key'' fs1)"

section \<open>server.go\<close>

record Server =
  sv_addr :: string
  sv_minVersion :: nat

definition NewServer :: "tls_env \<Rightarrow> string \<Rightarrow> string \<Rightarrow> string \<Rightarrow> tls_fs \<Rightarrow> (go_error + Server) \<times> tls_fs" where
  "NewServer te addr certPath keyPath fs =
     (case EnsureSelfSigned te certPath keyPath fs of
        (Inl e, fs1) \<Rightarrow> (Inl e, fs1)
      | (Inr _, fs1) \<Rightarrow> (Inr \<lparr>sv_addr = addr, sv_minVersion = 0x303\<rparr>, fs1))"

text \<open>\<open>ListenAndServeTLS\<close> first loads the pair of files and needs the certificate's public key to be that of
  the private key; then it serves until it fails (\<open>ServeErr\<close>). Until then the context may be
  cancelled, and the result is that of \<open>Shutdown\<close>.\<close>

definition LoadX509KeyPair :: "string \<Rightarrow> string \<Rightarrow> tls_fs \<Rightarrow> bool" where
  "LoadX509KeyPair certPath keyPath fs =
     (case (fs certPath, fs keyPath) of
        (Some c, Some k) \<Rightarrow> (case (tf_content c, tf_content k) of (CertPEM _ pub _, KeyPEM priv) \<Rightarrow> pub = priv | _ \<Rightarrow> False)
      | _ \<Rightarrow> False)"

datatype serve_end = ServeErr go_error | CtxDone "go_error option"

definition Start :: "string \<Rightarrow> string \<Rightarrow> tls_fs \<Rightarrow> serve_end \<Rightarrow> go_error option" where
  "Start certPath keyPath fs ending =
     (if \<not> LoadX509KeyPair certPath keyPath fs then Some (ErrSetup ''tls'')
      else case ending of ServeErr e \<Rightarrow> Some e | CtxDone r \<Rightarrow> r)"

text \<open>The exit code of \<open>runCmd\<close> once all services have returned.\<close>

definition run_exit :: "go_error option \<Rightarrow> nat" where
  "run_exit serverErr = (if serverErr \<noteq> None then 1 else 0)"

section \<open>Lemmas\<close>

lemma write_pem_ok:
  assumes "te_opens te path" and "te_writes te path"
  shows "\<exists>fs1 f. write_pem te path mode c a b fs = (Inr (), fs1) \<and> fs1 path = Some f \<and> tf_content f = c
    \<and> (path \<notin> dom fs \<longrightarrow> tf_mode f = and mode (mask 9 - and (te_umask te) (mask 9)))
    \<and> (\<forall>q. q \<noteq> path \<longrightarrow> fs1 q = fs q)"
  using assms by (auto simp: write_pem_def open_trunc_def put_content_def Let_def split: option.splits)


text \<open>An interrupted key write is never repaired. When the certificate is written and the write of the key fails, the
  call reports the error and leaves an empty key file. Every later start, even with nothing failing, takes the
  two files for a present pair, writes nothing, the server fails to load the pair, and the program exits with code 1.\<close>

theorem interrupted_key_never_repaired:
  assumes "certPath \<noteq> keyPath" and "keyPath \<notin> dom fs" and "te_key te = Some priv" and "te_serial te = Some serial"
    and "te_sign te" and "te_marshal te"
    and "te_opens te certPath" and "te_writes te certPath" and "te_opens te keyPath" and "\<not> te_writes te keyPath"
  shows "\<exists>fs' fk. EnsureSelfSigned te certPath keyPath fs = (Inl (ErrSetup ''write key''), fs')
    \<and> fs' keyPath = Some fk \<and> tf_content fk = Empty
    \<and> (\<forall>te' addr. \<exists>sv. NewServer te' addr certPath keyPath fs' = (Inr sv, fs'))
    \<and> (\<forall>ending. run_exit (Start certPath keyPath fs' ending) = 1)"
proof -
  let ?c = "CertPEM (cert_template te serial) priv priv"
  obtain fs1 fc where c: "write_pem te certPath 0x1A4 ?c ''open cert file'' ''write cert'' fs = (Inr (), fs1)" "fs1 certPath = Some fc"
    using write_pem_ok [of te certPath] assms(7,8) by blast
  let ?fs = "open_trunc te keyPath 0x180 fs1"
  have "EnsureSelfSigned te certPath keyPath fs = (Inl (ErrSetup ''write key''), ?fs)"
    using assms c(1) by (auto simp: EnsureSelfSigned_def write_pem_def Let_def)
  moreover have "\<exists>fk. ?fs keyPath = Some fk \<and> tf_content fk = Empty" by (simp add: open_trunc_def split: option.splits)
  moreover have "\<exists>sv. NewServer te' addr certPath keyPath ?fs = (Inr sv, ?fs)" for te' addr
    using c(2) assms(1) by (auto simp: NewServer_def EnsureSelfSigned_def open_trunc_def)
  moreover from calculation(2) have "run_exit (Start certPath keyPath ?fs ending) = 1" for ending
    by (auto simp: run_exit_def Start_def LoadX509KeyPair_def split: option.splits content.splits)
  ultimately show ?thesis by blast
qed

definition demo_tls :: tls_env where
  "demo_tls = \<lparr>te_hostname = ''monitor'', te_key = Some 7, te_serial = Some 42, te_sign = True, te_marshal = True,
     te_opens = (\<lambda>_. True), te_writes = (\<lambda>_. True), te_umask = 0x12, te_now = 1700000000 * Second\<rparr>"

lemma demo_paths: "CertPath ''/data'' = ''/data/cert.pem''" "KeyPath ''/data'' = ''/data/key.pem''"
  by code_simp+


theorem interrupted_key_never_repaired_witness:
  "\<exists>fs'. EnsureSelfSigned (demo_tls\<lparr>te_writes := (\<lambda>p. p = ''/data/cert.pem'')\<rparr>) (CertPath ''/data'') (KeyPath ''/data'') Map.empty
      = (Inl (ErrSetup ''write key''), fs')
    \<and> run_exit (Start ''/data/cert.pem'' ''/data/key.pem'' fs' (CtxDone None)) = 1"
  using interrupted_key_never_repaired [of "CertPath ''/data''" "KeyPath ''/data''" Map.empty "demo_tls\<lparr>te_writes := (\<lambda>p. p = ''/data/cert.pem'')\<rparr>" 7 42]
  unfolding demo_paths by (auto simp: demo_tls_def)

end
